(* ===== verification/Prelude.thy ===== *)
theory Prelude
  imports Main "HOL-Library.Word" "HOL-Library.AList"
begin

text \<open>
  The prelude of the development: the machine integers and byte strings of the Rust
  code, the fixed-length arrays \<open>[u8; N]\<close> as a type of their own, the conversions
  \<open>to_be_bytes\<close> and \<open>from_be_bytes\<close>, the \<open>String\<close> type as valid UTF-8, and the
  \<open>HashMap\<close> operations on association lists with distinct keys.  The order of such a
  list stands for the unspecified iteration order of the hash map.
\<close>

named_theorems wire_simps "facts that evaluate encoders and decoders"
named_theorems hmap_simps "facts about the hash map operations"
named_theorems inv_intros "an operation keeps an invariant"

section \<open>Integers, bytes, time\<close>

type_synonym u8 = "8 word"
type_synonym u16 = "16 word"
type_synonym u32 = "32 word"
type_synonym u64 = "64 word"
type_synonym bytes = "u8 list"

text \<open>\<open>Instant\<close> and \<open>Duration\<close>, in milliseconds.\<close>

type_synonym instant = nat
type_synonym duration = nat

section \<open>Fixed-length arrays\<close>

text \<open>The Rust type \<open>[u8; N]\<close>: a byte list whose length is part of its type.\<close>

typedef (overloaded) 'n::len byte_array = "{bs :: bytes. length bs = LENGTH('n)}"
  morphisms bytes_of Abs_byte_array
  by (rule exI [of _ "replicate LENGTH('n) 0"]) simp

type_synonym bytes4 = "4 byte_array"
type_synonym bytes8 = "8 byte_array"
type_synonym bytes16 = "16 byte_array"
type_synonym bytes32 = "32 byte_array"

definition fill_array :: "u8 \<Rightarrow> 'n::len byte_array" where
  "fill_array b = Abs_byte_array (replicate LENGTH('n) b)"

text \<open>\<open>slice.try_into()\<close>: succeeds exactly on a slice of the array's length.\<close>

definition array_of :: "bytes \<Rightarrow> 'n::len byte_array option" where
  "array_of bs = (if length bs = LENGTH('n) then Some (Abs_byte_array bs) else None)"

lemma length_bytes_of [simp]: "length (bytes_of (a :: 'n::len byte_array)) = LENGTH('n)"
  using bytes_of [of a] by simp

lemma bytes_of_eq_iff: "a = b \<longleftrightarrow> bytes_of a = bytes_of b"
  by (rule bytes_of_inject [symmetric])

lemma bytes_of_fill [simp]: "bytes_of (fill_array b :: 'n::len byte_array) = replicate LENGTH('n) b"
  by (simp add: fill_array_def Abs_byte_array_inverse)

lemma fill_array_eq_iff [simp]:
  "(fill_array a :: 'n::len byte_array) = fill_array b \<longleftrightarrow> a = b"
  by (auto simp: bytes_of_eq_iff replicate_eq_replicate)

lemma array_of_Some_iff: "array_of bs = Some a \<longleftrightarrow> bytes_of a = bs"
  by (auto simp: array_of_def Abs_byte_array_inverse bytes_of_inverse)

lemma array_of_bytes_of [simp]: "array_of (bytes_of a) = Some a"
  by (simp add: array_of_Some_iff)

lemma array_of_None_iff:
  "(array_of bs :: 'n::len byte_array option) = None \<longleftrightarrow> length bs \<noteq> LENGTH('n)"
  by (simp add: array_of_def)

lemma array_of_cases:
  fixes bs :: bytes
  obtains (Some) a where "(array_of bs :: 'n::len byte_array option) = Some a" "bytes_of a = bs"
  | (None) "(array_of bs :: 'n::len byte_array option) = None" "length bs \<noteq> LENGTH('n)"
  by (cases "array_of bs :: 'n byte_array option") (auto simp: array_of_Some_iff array_of_None_iff)

instantiation byte_array :: (len) equal
begin

definition equal_byte_array :: "'a byte_array \<Rightarrow> 'a byte_array \<Rightarrow> bool" where
  "equal_byte_array a b \<longleftrightarrow> bytes_of a = bytes_of b"

instance
  by standard (simp add: equal_byte_array_def bytes_of_inject)

end

section \<open>Big-endian conversions\<close>

fun nat_to_be :: "nat \<Rightarrow> nat \<Rightarrow> bytes" where
  "nat_to_be 0 x = []"
| "nat_to_be (Suc n) x = nat_to_be n (x div 256) @ [of_nat (x mod 256)]"

definition be_to_nat :: "bytes \<Rightarrow> nat" where
  "be_to_nat bs = foldl (\<lambda>acc b. 256 * acc + unat b) 0 bs"

lemma length_nat_to_be [simp]: "length (nat_to_be n x) = n"
  by (induction n arbitrary: x) auto

lemma be_to_nat_Nil [simp]: "be_to_nat [] = 0"
  by (simp add: be_to_nat_def)

lemma be_to_nat_snoc [simp]: "be_to_nat (bs @ [b]) = 256 * be_to_nat bs + unat b"
  by (simp add: be_to_nat_def)

lemma unat_of_nat_byte [simp]: "unat (of_nat (x mod 256) :: u8) = x mod 256"
  by (simp add: unat_of_nat)

lemma be_to_nat_nat_to_be [simp]: "be_to_nat (nat_to_be n x) = x mod 256 ^ n"
proof (induction n arbitrary: x)
  case 0
  then show ?case by simp
next
  case (Suc n)
  have "be_to_nat (nat_to_be (Suc n) x) = 256 * (x div 256 mod 256 ^ n) + x mod 256"
    by (simp add: Suc.IH)
  also have "\<dots> = x mod (256 * 256 ^ n)"
    by (simp add: mod_mult2_eq)
  finally show ?case by simp
qed

lemma be_to_nat_less: "be_to_nat bs < 256 ^ length bs"
proof (induction bs rule: rev_induct)
  case Nil
  then show ?case by simp
next
  case (snoc b bs)
  have "unat b < 256"
    using unsigned_less [of b, where ?'a = nat] by simp
  with snoc.IH show ?case by simp
qed

lemma nat_to_be_be_to_nat [simp]: "nat_to_be (length bs) (be_to_nat bs) = bs"
proof (induction bs rule: rev_induct)
  case Nil
  then show ?case by simp
next
  case (snoc b bs)
  have b: "unat b < 256"
    using unsigned_less [of b, where ?'a = nat] by simp
  then have "(256 * be_to_nat bs + unat b) div 256 = be_to_nat bs"
    and "(256 * be_to_nat bs + unat b) mod 256 = unat b"
    by simp_all
  with snoc.IH show ?case by simp
qed

definition u16_to_be_bytes :: "u16 \<Rightarrow> bytes" where
  "u16_to_be_bytes x = nat_to_be 2 (unat x)"

definition u16_from_be_bytes :: "bytes \<Rightarrow> u16" where
  "u16_from_be_bytes bs = of_nat (be_to_nat bs)"

definition u32_to_be_bytes :: "u32 \<Rightarrow> bytes" where
  "u32_to_be_bytes x = nat_to_be 4 (unat x)"

definition u32_from_be_bytes :: "bytes \<Rightarrow> u32" where
  "u32_from_be_bytes bs = of_nat (be_to_nat bs)"

definition u64_to_be_bytes :: "u64 \<Rightarrow> bytes" where
  "u64_to_be_bytes x = nat_to_be 8 (unat x)"

definition u64_from_be_bytes :: "bytes \<Rightarrow> u64" where
  "u64_from_be_bytes bs = of_nat (be_to_nat bs)"

lemma length_be_bytes [simp]:
  "length (u16_to_be_bytes x) = 2" "length (u32_to_be_bytes y) = 4" "length (u64_to_be_bytes z) = 8"
  by (simp_all add: u16_to_be_bytes_def u32_to_be_bytes_def u64_to_be_bytes_def)

lemma u16_be_roundtrip [simp]: "u16_from_be_bytes (u16_to_be_bytes x) = x"
  using unsigned_less [of x, where ?'a = nat] by (simp add: u16_from_be_bytes_def u16_to_be_bytes_def)

lemma u32_be_roundtrip [simp]: "u32_from_be_bytes (u32_to_be_bytes x) = x"
  using unsigned_less [of x, where ?'a = nat] by (simp add: u32_from_be_bytes_def u32_to_be_bytes_def)

lemma u64_be_roundtrip [simp]: "u64_from_be_bytes (u64_to_be_bytes x) = x"
  using unsigned_less [of x, where ?'a = nat] by (simp add: u64_from_be_bytes_def u64_to_be_bytes_def)

lemma u64_to_be_from_be:
  assumes "length bs = 8"
  shows "u64_to_be_bytes (u64_from_be_bytes bs) = bs"
proof -
  have "be_to_nat bs < 2 ^ 64"
    using be_to_nat_less [of bs] assms by simp
  then have "unat (u64_from_be_bytes bs) = be_to_nat bs"
    by (simp add: u64_from_be_bytes_def unat_of_nat)
  then show ?thesis
    using nat_to_be_be_to_nat [of bs] assms by (simp add: u64_to_be_bytes_def)
qed

section \<open>Strings\<close>

text \<open>
  A Rust \<open>String\<close> is a byte string that is valid UTF-8.  \<open>utf8_valid\<close> is the check of
  \<open>std::str::from_utf8\<close>: no overlong forms, no surrogates, nothing past U+10FFFF.
\<close>

definition is_cont :: "u8 \<Rightarrow> bool" where
  "is_cont b \<longleftrightarrow> 0x80 \<le> b \<and> b \<le> 0xBF"

definition utf8_second3 :: "u8 \<Rightarrow> u8 \<Rightarrow> bool" where
  "utf8_second3 b c \<longleftrightarrow>
     (if b = 0xE0 then 0xA0 \<le> c \<and> c \<le> 0xBF
      else if b = 0xED then 0x80 \<le> c \<and> c \<le> 0x9F
      else is_cont c)"

definition utf8_second4 :: "u8 \<Rightarrow> u8 \<Rightarrow> bool" where
  "utf8_second4 b c \<longleftrightarrow>
     (if b = 0xF0 then 0x90 \<le> c \<and> c \<le> 0xBF
      else if b = 0xF4 then 0x80 \<le> c \<and> c \<le> 0x8F
      else is_cont c)"

fun utf8_valid :: "bytes \<Rightarrow> bool" where
  "utf8_valid [] = True"
| "utf8_valid (b # bs) =
     (if b < 0x80 then utf8_valid bs
      else if 0xC2 \<le> b \<and> b \<le> 0xDF then
        (case bs of c # cs \<Rightarrow> is_cont c \<and> utf8_valid cs | _ \<Rightarrow> False)
      else if 0xE0 \<le> b \<and> b \<le> 0xEF then
        (case bs of c # d # cs \<Rightarrow> utf8_second3 b c \<and> is_cont d \<and> utf8_valid cs | _ \<Rightarrow> False)
      else if 0xF0 \<le> b \<and> b \<le> 0xF4 then
        (case bs of c # d # e # cs \<Rightarrow>
           utf8_second4 b c \<and> is_cont d \<and> is_cont e \<and> utf8_valid cs | _ \<Rightarrow> False)
      else False)"

typedef rstring = "{bs :: bytes. utf8_valid bs}"
  morphisms str_bytes Abs_rstring
  by (rule exI [of _ "[]"]) simp

definition from_utf8 :: "bytes \<Rightarrow> rstring option" where
  "from_utf8 bs = (if utf8_valid bs then Some (Abs_rstring bs) else None)"

lemma utf8_valid_str_bytes [simp]: "utf8_valid (str_bytes s)"
  using str_bytes [of s] by simp

lemma str_bytes_eq_iff: "s = t \<longleftrightarrow> str_bytes s = str_bytes t"
  by (rule str_bytes_inject [symmetric])

lemma from_utf8_Some_iff: "from_utf8 bs = Some s \<longleftrightarrow> str_bytes s = bs"
  by (auto simp: from_utf8_def Abs_rstring_inverse str_bytes_inverse)

lemma from_utf8_str_bytes [simp]: "from_utf8 (str_bytes s) = Some s"
  by (simp add: from_utf8_Some_iff)

lemma from_utf8_None_iff: "from_utf8 bs = None \<longleftrightarrow> \<not> utf8_valid bs"
  by (simp add: from_utf8_def)

lemma utf8_valid_ascii: "\<forall>b \<in> set bs. b < 0x80 \<Longrightarrow> utf8_valid bs"
  by (induction bs) auto

lemma str_bytes_Abs: "utf8_valid bs \<Longrightarrow> str_bytes (Abs_rstring bs) = bs"
  by (simp add: Abs_rstring_inverse)

instantiation rstring :: equal
begin

definition equal_rstring :: "rstring \<Rightarrow> rstring \<Rightarrow> bool" where
  "equal_rstring a b \<longleftrightarrow> str_bytes a = str_bytes b"

instance
  by standard (simp add: equal_rstring_def str_bytes_inject)

end

text \<open>The bytes of a literal, and the text of a string in an error message.\<close>

definition ascii :: "string \<Rightarrow> bytes" where
  "ascii = map of_char"

definition str_text :: "rstring \<Rightarrow> string" where
  "str_text s = map (char_of \<circ> unat) (str_bytes s)"

section \<open>Panics\<close>

datatype 'a panicking = Panic | Done 'a

section \<open>Hash maps\<close>

text \<open>
  \<open>HashMap\<close> (and \<open>HashSet\<close>) as association lists with distinct keys: \<open>get\<close>,
  \<open>insert\<close> and \<open>remove\<close> are the library's \<open>map_of\<close>, \<open>AList.update\<close> and
  \<open>AList.delete\<close>, \<open>retain\<close> is \<open>filter\<close>, \<open>len\<close> is \<open>length\<close>.
\<close>

type_synonym ('k, 'v) hmap = "('k \<times> 'v) list"

abbreviation hm_get :: "('k, 'v) hmap \<Rightarrow> 'k \<Rightarrow> 'v option" where
  "hm_get \<equiv> map_of"

abbreviation hm_insert :: "'k \<Rightarrow> 'v \<Rightarrow> ('k, 'v) hmap \<Rightarrow> ('k, 'v) hmap" where
  "hm_insert \<equiv> AList.update"

abbreviation hm_remove :: "'k \<Rightarrow> ('k, 'v) hmap \<Rightarrow> ('k, 'v) hmap" where
  "hm_remove \<equiv> AList.delete"

abbreviation hm_keys :: "('k, 'v) hmap \<Rightarrow> 'k list" where
  "hm_keys m \<equiv> map fst m"

abbreviation hm_wf :: "('k, 'v) hmap \<Rightarrow> bool" where
  "hm_wf m \<equiv> distinct (map fst m)"

text \<open>\<open>entry(k).or_default()\<close> and the value found there.\<close>

definition hm_or_default :: "'v \<Rightarrow> 'k \<Rightarrow> ('k, 'v) hmap \<Rightarrow> 'v" where
  "hm_or_default d k m = (case hm_get m k of None \<Rightarrow> d | Some v \<Rightarrow> v)"

declare map_of_eq_Some_iff [simp del]

lemma hm_get_insert [simp]: "hm_get (hm_insert k v m) = (hm_get m)(k \<mapsto> v)"
  by (rule update_conv')

lemma hm_get_remove [simp]: "hm_get (hm_remove k m) = (hm_get m)(k := None)"
  by (rule delete_conv')

lemma hm_wf_insert [simp]: "hm_wf m \<Longrightarrow> hm_wf (hm_insert k v m)"
  by (rule distinct_update)

lemma hm_wf_remove [simp]: "hm_wf m \<Longrightarrow> hm_wf (hm_remove k m)"
  by (rule distinct_delete)

lemma hm_wf_filter [simp]: "hm_wf m \<Longrightarrow> hm_wf (filter P m)"
  by (rule distinct_map_filter)

lemma hm_get_Some_mem: "hm_get m k = Some v \<Longrightarrow> (k, v) \<in> set m"
  by (rule map_of_SomeD)

lemma hm_get_iff_mem: "hm_wf m \<Longrightarrow> hm_get m k = Some v \<longleftrightarrow> (k, v) \<in> set m"
  by (rule map_of_eq_Some_iff)

lemma hm_get_filter:
  "hm_wf m \<Longrightarrow> hm_get (filter P m) k =
     (case hm_get m k of None \<Rightarrow> None | Some v \<Rightarrow> if P (k, v) then Some v else None)"
  by (induction m) (auto split: option.splits simp: map_of_eq_None_iff dest: hm_get_Some_mem)

lemma set_hm_keys_insert [simp]: "fst ` set (hm_insert k v m) = insert k (fst ` set m)"
  by (induction m) auto

lemma hm_keys_insert_present [simp]:
  "k \<in> fst ` set m \<Longrightarrow> hm_keys (hm_insert k v m) = hm_keys m"
  by (induction m) auto

lemma hm_keys_insert_absent:
  "k \<notin> fst ` set m \<Longrightarrow> hm_insert k v m = m @ [(k, v)]"
  by (induction m) auto

lemma length_hm_insert:
  "length (hm_insert k v m) = (if k \<in> fst ` set m then length m else Suc (length m))"
  by (induction m) auto

lemma set_hm_keys_remove [simp]: "fst ` set (hm_remove k m) = fst ` set m - {k}"
  by (induction m) auto

lemma hm_remove_absent: "k \<notin> fst ` set m \<Longrightarrow> hm_remove k m = m"
  by (induction m) auto

lemma length_hm_remove:
  "hm_wf m \<Longrightarrow> length (hm_remove k m) = (if k \<in> fst ` set m then length m - 1 else length m)"
proof (induction m)
  case Nil
  then show ?case by simp
next
  case (Cons x m)
  then show ?case
    by (cases "x") (auto simp: hm_remove_absent dest: length_pos_if_in_set)
qed

lemma hm_get_None_iff: "hm_get m k = None \<longleftrightarrow> k \<notin> fst ` set m"
  by (simp add: map_of_eq_None_iff)

lemma hm_get_Some_key: "hm_get m k = Some v \<Longrightarrow> k \<in> fst ` set m"
  by (force dest: map_of_SomeD)

lemma hm_get_Some_iff_key: "(\<exists>v. hm_get m k = Some v) \<longleftrightarrow> k \<in> fst ` set m"
  using hm_get_None_iff [of m k] by (cases "hm_get m k") auto

lemma hm_insert_insert [simp]: "hm_insert k v (hm_insert k v' m) = hm_insert k v m"
  by (induction m) auto

lemma hm_remove_insert [simp]: "hm_remove k (hm_insert k v m) = hm_remove k m"
  by (induction m) auto

section \<open>Lists\<close>

lemma map_preimage: "set ys \<subseteq> f ` A \<Longrightarrow> \<exists>xs. ys = map f xs \<and> set xs \<subseteq> A"
proof (induction ys)
  case (Cons y ys)
  then obtain x xs where "y = f x" "x \<in> A" "ys = map f xs" "set xs \<subseteq> A" by auto
  then show ?case by (intro exI [of _ "x # xs"]) simp
qed simp

section \<open>Hexadecimal\<close>

text \<open>The two digits of \<open>{:02x}\<close>, as ASCII bytes.\<close>

definition hex_digit :: "nat \<Rightarrow> u8" where
  "hex_digit n = (if n < 10 then of_nat (48 + n) else of_nat (87 + n))"

definition hex_byte :: "u8 \<Rightarrow> bytes" where
  "hex_byte b = [hex_digit (unat b div 16), hex_digit (unat b mod 16)]"

end
