(* ===== verification/Core_Types.thy ===== *)
theory Core_Types
  imports Prelude
begin

text \<open>
  The types of \<open>crates/pathweave-core/src/lib.rs\<close>: the error enum, identities and
  addresses, the transport kinds and costs, the events and the node configuration.
  \<open>blake3::hash\<close> and the \<open>x25519_dalek\<close> key derivation are third-party code and are
  arguments of the definitions that call them.
\<close>

section \<open>Identities\<close>

datatype PeerId = PeerId bytes32

definition from_bytes :: "bytes32 \<Rightarrow> PeerId" where
  "from_bytes b = PeerId b"

fun as_bytes :: "PeerId \<Rightarrow> bytes32" where
  "as_bytes (PeerId b) = b"

definition peer_id_from_public_key :: "(bytes \<Rightarrow> bytes32) \<Rightarrow> bytes \<Rightarrow> PeerId" where
  "peer_id_from_public_key blake3 public_key = PeerId (blake3 public_key)"

datatype PathweaveError =
    NoTransportAvailable
  | DeliveryFailed
  | Transport string
  | Session string
  | Bundle string
  | InvalidKey
  | KeyUnknown PeerId
  | Io string

type_synonym 'a result = "PathweaveError + 'a"

record NodeIdentity =
  private_key :: bytes
  public_key :: bytes
  peer_id :: PeerId

text \<open>
  \<open>NodeIdentity::generate\<close>: the key pair comes from the entropy source, through snow.
\<close>

definition generate :: "(bytes \<Rightarrow> bytes32) \<Rightarrow> bytes \<times> bytes \<Rightarrow> NodeIdentity" where
  "generate blake3 keypair =
     (let (private, public) = keypair in
      \<lparr>private_key = private, public_key = public,
       peer_id = peer_id_from_public_key blake3 public\<rparr>)"

text \<open>\<open>NodeIdentity::from_bytes\<close>: refuses every length but 32.\<close>

definition identity_from_bytes ::
  "(bytes \<Rightarrow> bytes32) \<Rightarrow> (bytes32 \<Rightarrow> bytes32) \<Rightarrow> bytes \<Rightarrow> NodeIdentity result" where
  "identity_from_bytes blake3 x25519 private =
     (case array_of private :: bytes32 option of
        None \<Rightarrow> Inl InvalidKey
      | Some key_array \<Rightarrow>
          let public = bytes_of (x25519 key_array) in
          Inr \<lparr>private_key = private, public_key = public,
               peer_id = peer_id_from_public_key blake3 public\<rparr>)"

lemma as_bytes_from_bytes [simp]: "as_bytes (from_bytes b) = b" "from_bytes (as_bytes p) = p"
  by (simp add: from_bytes_def, cases p, simp add: from_bytes_def)

lemma as_bytes_inject: "as_bytes p = as_bytes q \<longleftrightarrow> p = q"
  by (cases p; cases q) simp

text \<open>A NodeIdentity whose peer id is the hash of its public key, as every constructor makes it.\<close>

definition identity_wf :: "(bytes \<Rightarrow> bytes32) \<Rightarrow> NodeIdentity \<Rightarrow> bool" where
  "identity_wf blake3 i \<longleftrightarrow> peer_id i = peer_id_from_public_key blake3 (public_key i)"

lemma generate_wf: "identity_wf blake3 (generate blake3 kp)"
  by (cases kp) (simp add: identity_wf_def generate_def)

lemma identity_from_bytes_wf:
  "identity_from_bytes blake3 x25519 k = Inr i \<Longrightarrow>
     identity_wf blake3 i \<and> private_key i = k \<and> length k = 32 \<and> length (public_key i) = 32"
  by (auto simp: identity_from_bytes_def identity_wf_def Let_def array_of_Some_iff split: option.splits)

lemma identity_from_bytes_error_iff:
  "identity_from_bytes blake3 x25519 k = Inl e \<longleftrightarrow> e = InvalidKey \<and> length k \<noteq> 32"
  by (auto simp: identity_from_bytes_def Let_def array_of_def)

section \<open>Addresses, kinds, costs\<close>

text \<open>\<open>std::net::SocketAddr\<close>; a V6 address also carries flow info and scope id.\<close>

datatype SocketAddr =
    V4 bytes4 u16
  | V6 bytes16 u16 u32 u32

datatype PeerAddress =
    Quic SocketAddr
  | Ble rstring
  | WifiDirect rstring
  | BleAdvertising rstring

datatype TransportKind = KQuic | KBle | KWifiDirect | KBleAdvertising

fun kind :: "PeerAddress \<Rightarrow> TransportKind" where
  "kind (Quic _) = KQuic"
| "kind (Ble _) = KBle"
| "kind (WifiDirect _) = KWifiDirect"
| "kind (BleAdvertising _) = KBleAdvertising"

datatype TransportCost = Free | Metered | Unknown

text \<open>The sort key of \<open>Router::send\<close>, \<open>Router::connect\<close> and \<open>next_best_transport\<close>.\<close>

fun cost_key :: "TransportCost \<Rightarrow> u8" where
  "cost_key Free = 0"
| "cost_key Metered = 1"
| "cost_key Unknown = 2"

record PeerAnnouncement =
  address :: PeerAddress
  short_id :: "bytes8 option"

lemma cost_key_inject [simp]: "cost_key a = cost_key b \<longleftrightarrow> a = b"
  by (cases a; cases b) auto

text \<open>The order of the costs is the order of their sort keys.\<close>

instantiation TransportCost :: linorder
begin

definition less_eq_TransportCost :: "TransportCost \<Rightarrow> TransportCost \<Rightarrow> bool" where
  "less_eq_TransportCost a b \<longleftrightarrow> cost_key a \<le> cost_key b"

definition less_TransportCost :: "TransportCost \<Rightarrow> TransportCost \<Rightarrow> bool" where
  "less_TransportCost a b \<longleftrightarrow> cost_key a < cost_key b"

instance
  by standard (auto simp: less_eq_TransportCost_def less_TransportCost_def order_less_le)

end

lemma cost_order: "Free < Metered" "Metered < Unknown" "Free \<le> c" "c \<le> Unknown"
  by (auto simp: less_TransportCost_def less_eq_TransportCost_def) (cases c; simp)+

section \<open>Events and configuration\<close>

datatype TransportEvent =
    TransportChanged "TransportKind option" TransportKind
  | PeerConnected PeerId
  | PeerDisconnected PeerId
  | MessageDelivered PeerId TransportKind
  | StoreFailed PeerId
  | KeyLearned PeerId bytes32

record NodeConfig =
  listen_port :: "u16 option"
  cfg_store_ttl :: "duration option"
  cfg_max_queue_depth :: "nat option"
  max_key_registry_size :: "nat option"

text \<open>The peer table: every peer with its known addresses.\<close>

type_synonym peer_table = "(PeerId, PeerAnnouncement list) hmap"

end
