(* ===== verification/Key_Registry.thy ===== *)
theory Key_Registry
  imports Core_Types
begin

text \<open>
  \<open>KeyRegistryState\<close> of \<open>lib.rs\<close>: the map from peer ids to static public keys, with the
  queue \<open>gossip_order\<close> of the peers known by gossip only, oldest first, and the optional
  size bound.  The theory shows the representation invariant, that the map refines an
  abstract registry of direct and gossip-learned keys, and what the bound bounds.
\<close>

section \<open>The state and its operations\<close>

record KeyRegistryState =
  entries :: "(PeerId, bytes32) hmap"
  gossip_order :: "PeerId list"
  max_size :: "nat option"

definition registry_new :: "nat option \<Rightarrow> KeyRegistryState" where
  "registry_new mx = \<lparr>entries = [], gossip_order = [], max_size = mx\<rparr>"

definition registry_get :: "KeyRegistryState \<Rightarrow> PeerId \<Rightarrow> bytes32 option" where
  "registry_get r p = hm_get (entries r) p"

definition registry_remove :: "PeerId \<Rightarrow> KeyRegistryState \<Rightarrow> bytes32 option \<times> KeyRegistryState" where
  "registry_remove p r =
     (hm_get (entries r) p,
      r\<lparr>gossip_order := filter (\<lambda>q. q \<noteq> p) (gossip_order r), entries := hm_remove p (entries r)\<rparr>)"

definition insert_direct :: "PeerId \<Rightarrow> bytes32 \<Rightarrow> KeyRegistryState \<Rightarrow> bool \<times> KeyRegistryState" where
  "insert_direct p k r =
     (hm_get (entries r) p = None,
      r\<lparr>gossip_order := filter (\<lambda>q. q \<noteq> p) (gossip_order r), entries := hm_insert p k (entries r)\<rparr>)"

text \<open>The tail of \<open>insert_gossip\<close>: the new key goes in as the youngest gossip entry.\<close>

definition push_gossip :: "PeerId \<Rightarrow> bytes32 \<Rightarrow> KeyRegistryState \<Rightarrow> KeyRegistryState" where
  "push_gossip p k r = r\<lparr>entries := hm_insert p k (entries r), gossip_order := gossip_order r @ [p]\<rparr>"

definition insert_gossip :: "PeerId \<Rightarrow> bytes32 \<Rightarrow> KeyRegistryState \<Rightarrow> KeyRegistryState" where
  "insert_gossip p k r =
     (if hm_get (entries r) p \<noteq> None then r\<lparr>entries := hm_insert p k (entries r)\<rparr>
      else if (case max_size r of None \<Rightarrow> False | Some mx \<Rightarrow> mx \<le> length (entries r)) then
        (case gossip_order r of
           oldest # rest \<Rightarrow>
             push_gossip p k (r\<lparr>gossip_order := rest, entries := hm_remove oldest (entries r)\<rparr>)
         | [] \<Rightarrow> r)
      else push_gossip p k r)"

section \<open>The invariant\<close>

definition registry_inv :: "KeyRegistryState \<Rightarrow> bool" where
  "registry_inv r \<longleftrightarrow>
     hm_wf (entries r) \<and> distinct (gossip_order r) \<and>
     set (gossip_order r) \<subseteq> fst ` set (entries r) \<and>
     (\<forall>mx. max_size r = Some mx \<longrightarrow> length (gossip_order r) \<le> mx)"

lemma registry_invD:
  assumes "registry_inv r"
  shows "hm_wf (entries r)" "distinct (gossip_order r)"
    "set (gossip_order r) \<subseteq> fst ` set (entries r)"
    "max_size r = Some mx \<Longrightarrow> length (gossip_order r) \<le> mx"
  using assms by (simp_all add: registry_inv_def)

lemma gossip_le_entries:
  assumes "registry_inv r"
  shows "length (gossip_order r) \<le> length (entries r)"
proof -
  have "length (gossip_order r) = card (set (gossip_order r))"
    using registry_invD(2) [OF assms] by (simp add: distinct_card)
  also have "\<dots> \<le> card (fst ` set (entries r))"
    using registry_invD(3) [OF assms] by (simp add: card_mono)
  also have "\<dots> \<le> length (entries r)"
    using card_length [of "map fst (entries r)"] by simp
  finally show ?thesis .
qed

lemma registry_inv_new [inv_intros]: "registry_inv (registry_new mx)"
  by (simp add: registry_inv_def registry_new_def)

lemma registry_inv_remove [inv_intros]:
  "registry_inv r \<Longrightarrow> registry_inv (snd (registry_remove p r))"
  by (auto simp: registry_inv_def registry_remove_def intro: le_trans [OF length_filter_le])

lemma registry_inv_direct [inv_intros]:
  "registry_inv r \<Longrightarrow> registry_inv (snd (insert_direct p k r))"
  by (auto simp: registry_inv_def insert_direct_def intro: le_trans [OF length_filter_le])

lemma registry_inv_evict:
  assumes "registry_inv r" "gossip_order r = oldest # rest"
  shows "registry_inv (r\<lparr>gossip_order := rest, entries := hm_remove oldest (entries r)\<rparr>)"
  using assms by (auto simp: registry_inv_def)

lemma registry_inv_push:
  assumes "registry_inv r" "hm_get (entries r) p = None"
    "\<And>mx. max_size r = Some mx \<Longrightarrow> length (gossip_order r) < mx"
  shows "registry_inv (push_gossip p k r)"
  using assms by (auto simp: registry_inv_def push_gossip_def hm_get_None_iff Suc_le_eq)

lemma registry_inv_gossip [inv_intros]:
  assumes inv: "registry_inv r"
  shows "registry_inv (insert_gossip p k r)"
proof (cases "hm_get (entries r) p")
  case (Some k')
  then have "p \<in> fst ` set (entries r)"
    by (rule hm_get_Some_key)
  with inv Some show ?thesis
    by (auto simp: insert_gossip_def registry_inv_def)
next
  case None
  consider (fits) "\<not> (case max_size r of None \<Rightarrow> False | Some mx \<Rightarrow> mx \<le> length (entries r))"
    | (full) mx where "max_size r = Some mx" "mx \<le> length (entries r)"
    by (cases "max_size r") auto
  then show ?thesis
  proof cases
    case fits
    have "registry_inv (push_gossip p k r)"
    proof (rule registry_inv_push [OF inv None])
      fix mx assume "max_size r = Some mx"
      with fits gossip_le_entries [OF inv] show "length (gossip_order r) < mx" by simp
    qed
    with None fits show ?thesis by (simp add: insert_gossip_def)
  next
    case full
    show ?thesis
    proof (cases "gossip_order r")
      case Nil
      with None full inv show ?thesis by (simp add: insert_gossip_def)
    next
      case (Cons oldest rest)
      let ?r = "r\<lparr>gossip_order := rest, entries := hm_remove oldest (entries r)\<rparr>"
      have "registry_inv (push_gossip p k ?r)"
      proof (rule registry_inv_push [OF registry_inv_evict [OF inv Cons]])
        show "hm_get (entries ?r) p = None" using None by simp
      next
        fix mx' assume "max_size ?r = Some mx'"
        with registry_invD(4) [OF inv] Cons show "length (gossip_order ?r) < mx'" by auto
      qed
      with None full Cons show ?thesis by (simp add: insert_gossip_def)
    qed
  qed
qed

lemma max_size_const [simp]:
  "max_size (insert_gossip p k r) = max_size r"
  "max_size (snd (insert_direct p k r)) = max_size r"
  "max_size (snd (registry_remove p r)) = max_size r"
  by (auto simp: insert_gossip_def push_gossip_def insert_direct_def registry_remove_def
      split: list.splits option.splits)

section \<open>What the operations do to a lookup\<close>

lemma registry_get_new [simp]: "registry_get (registry_new mx) p = None"
  by (simp add: registry_get_def registry_new_def)

lemma registry_get_direct [simp]:
  "registry_get (snd (insert_direct p k r)) = (registry_get r)(p \<mapsto> k)"
  by (rule ext) (simp add: registry_get_def insert_direct_def)

lemma registry_get_remove [simp]:
  "registry_get (snd (registry_remove p r)) = (registry_get r)(p := None)"
  by (rule ext) (simp add: registry_get_def registry_remove_def)

text \<open>A peer is protected when it is known and not in the eviction queue.\<close>

definition protected :: "KeyRegistryState \<Rightarrow> PeerId \<Rightarrow> bool" where
  "protected r p \<longleftrightarrow> registry_get r p \<noteq> None \<and> p \<notin> set (gossip_order r)"

lemma insert_gossip_cases:
  obtains
    (refresh) "registry_get r p \<noteq> None" "registry_get (insert_gossip p k r) = (registry_get r)(p \<mapsto> k)"
      "gossip_order (insert_gossip p k r) = gossip_order r"
  | (dropped) mx where "registry_get r p = None" "insert_gossip p k r = r" "gossip_order r = []"
      "max_size r = Some mx" "mx \<le> length (entries r)"
  | (evicted) oldest rest mx where "registry_get r p = None" "gossip_order r = oldest # rest"
      "registry_get (insert_gossip p k r) = (registry_get r)(oldest := None, p \<mapsto> k)"
      "gossip_order (insert_gossip p k r) = rest @ [p]"
      "max_size r = Some mx" "mx \<le> length (entries r)"
  | (added) "registry_get r p = None" "registry_get (insert_gossip p k r) = (registry_get r)(p \<mapsto> k)"
      "gossip_order (insert_gossip p k r) = gossip_order r @ [p]"
proof (cases "hm_get (entries r) p")
  case (Some k')
  then show ?thesis
    by (intro refresh) (simp_all add: registry_get_def insert_gossip_def fun_eq_iff)
next
  case None
  note p_new = this
  show ?thesis
  proof (cases "case max_size r of None \<Rightarrow> False | Some mx \<Rightarrow> mx \<le> length (entries r)")
    case False
    with p_new show ?thesis
      by (intro added) (simp_all add: registry_get_def insert_gossip_def push_gossip_def fun_eq_iff)
  next
    case True
    then obtain mx where mx: "max_size r = Some mx" "mx \<le> length (entries r)"
      by (auto split: option.splits)
    show ?thesis
    proof (cases "gossip_order r")
      case Nil
      with p_new mx show ?thesis
        by (intro dropped) (simp_all add: registry_get_def insert_gossip_def)
    next
      case (Cons oldest rest)
      with p_new mx show ?thesis
        by (intro evicted [OF _ Cons])
           (simp_all add: registry_get_def insert_gossip_def push_gossip_def fun_eq_iff)
    qed
  qed
qed

section \<open>The interface the router relies on\<close>

text \<open>
  What the callers of the registry rely on, as a contract: a handshaked key is found
  again, nothing but the operation on a peer itself touches a protected entry, and every
  entry comes from an insertion.  The lemmas of the locale speak of arbitrary sequences of
  operations.
\<close>

datatype ('p, 'k) key_op = Direct 'p 'k | Gossip 'p 'k | Evict 'p

fun apply_key_op ::
  "('p \<Rightarrow> 'k \<Rightarrow> 'r \<Rightarrow> 'r) \<Rightarrow> ('p \<Rightarrow> 'k \<Rightarrow> 'r \<Rightarrow> 'r) \<Rightarrow> ('p \<Rightarrow> 'r \<Rightarrow> 'r) \<Rightarrow>
     ('p, 'k) key_op \<Rightarrow> 'r \<Rightarrow> 'r" where
  "apply_key_op d g e (Direct p k) r = d p k r"
| "apply_key_op d g e (Gossip p k) r = g p k r"
| "apply_key_op d g e (Evict p) r = e p r"

fun touches :: "'p \<Rightarrow> ('p, 'k) key_op \<Rightarrow> bool" where
  "touches p (Direct q k) \<longleftrightarrow> p = q"
| "touches p (Gossip q k) \<longleftrightarrow> p = q"
| "touches p (Evict q) \<longleftrightarrow> p = q"

locale key_store =
  fixes get :: "'r \<Rightarrow> 'p \<Rightarrow> 'k option"
    and direct :: "'p \<Rightarrow> 'k \<Rightarrow> 'r \<Rightarrow> 'r"
    and gossip :: "'p \<Rightarrow> 'k \<Rightarrow> 'r \<Rightarrow> 'r"
    and evict :: "'p \<Rightarrow> 'r \<Rightarrow> 'r"
    and safe :: "'r \<Rightarrow> 'p \<Rightarrow> bool"
  assumes get_direct: "get (direct p k r) = (get r)(p \<mapsto> k)"
    and get_evict: "get (evict p r) = (get r)(p := None)"
    and gossip_origin: "get (gossip p k r) q = Some k' \<Longrightarrow> get r q = Some k' \<or> q = p \<and> k' = k"
    and gossip_safe: "safe r q \<Longrightarrow> q \<noteq> p \<Longrightarrow> get (gossip p k r) q = get r q"
    and safe_direct: "safe (direct p k r) q \<longleftrightarrow> q = p \<or> safe r q"
    and safe_gossip: "safe r q \<Longrightarrow> safe (gossip p k r) q"
    and safe_evict: "safe r q \<Longrightarrow> q \<noteq> p \<Longrightarrow> safe (evict p r) q"
    and safe_known: "safe r q \<Longrightarrow> get r q \<noteq> None"
begin

abbreviation run_ops :: "('p, 'k) key_op list \<Rightarrow> 'r \<Rightarrow> 'r" where
  "run_ops ops r \<equiv> fold (apply_key_op direct gossip evict) ops r"

lemma safe_step:
  assumes "safe r p" "op \<noteq> Evict p"
  shows "safe (apply_key_op direct gossip evict op r) p"
  using assms by (cases op) (auto simp: safe_direct intro: safe_gossip safe_evict)

lemma safe_run:
  assumes "safe r p" "Evict p \<notin> set ops"
  shows "safe (run_ops ops r) p"
  using assms by (induction ops arbitrary: r) (auto simp: safe_step)

lemma untouched_step:
  assumes "safe r p" "\<not> touches p op"
  shows "get (apply_key_op direct gossip evict op r) p = get r p"
  using assms by (cases op) (auto simp: get_direct get_evict gossip_safe)

lemma untouched_run:
  assumes "safe r p" "\<forall>op \<in> set ops. \<not> touches p op"
  shows "get (run_ops ops r) p = get r p"
  using assms
proof (induction ops arbitrary: r)
  case Nil
  then show ?case by simp
next
  case (Cons op ops)
  have "safe (apply_key_op direct gossip evict op r) p"
    using Cons.prems by (intro safe_step) (cases op; auto)+
  then show ?case
    using Cons untouched_step [of r p op] by simp
qed

text \<open>Every entry satisfies \<open>P\<close> when every inserted pair does.\<close>

lemma certified_step:
  assumes "\<And>q k. get r q = Some k \<Longrightarrow> P q k"
    and "\<And>q k. op = Direct q k \<or> op = Gossip q k \<Longrightarrow> P q k"
    and "get (apply_key_op direct gossip evict op r) q = Some k"
  shows "P q k"
proof (cases op)
  case (Direct p k')
  with assms show ?thesis by (auto simp: get_direct split: if_splits)
next
  case (Gossip p k')
  with assms gossip_origin [of p k' r q k] show ?thesis by auto
next
  case (Evict p)
  with assms show ?thesis by (auto simp: get_evict split: if_splits)
qed

lemma certified_run:
  assumes "\<And>q k. get r q = Some k \<Longrightarrow> P q k"
    and "\<And>q k. Direct q k \<in> set ops \<or> Gossip q k \<in> set ops \<Longrightarrow> P q k"
    and "get (run_ops ops r) q = Some k"
  shows "P q k"
  using assms
proof (induction ops arbitrary: r)
  case Nil
  then show ?case by simp
next
  case (Cons op ops)
  let ?r = "apply_key_op direct gossip evict op r"
  have "\<And>q k. get ?r q = Some k \<Longrightarrow> P q k"
    using certified_step [of r P op] Cons.prems(1,2) by auto
  moreover have "\<And>q k. Direct q k \<in> set ops \<or> Gossip q k \<in> set ops \<Longrightarrow> P q k"
    by (rule Cons.prems(2)) auto
  moreover have "get (run_ops ops ?r) q = Some k"
    using Cons.prems(3) by simp
  ultimately show ?case
    by (rule Cons.IH)
qed

end

interpretation registry: key_store registry_get
  "\<lambda>p k r. snd (insert_direct p k r)" insert_gossip "\<lambda>p r. snd (registry_remove p r)" protected
proof unfold_locales
  fix p q k k' r
  show "registry_get (insert_gossip p k r) q = Some k' \<Longrightarrow>
      registry_get r q = Some k' \<or> q = p \<and> k' = k"
    by (cases rule: insert_gossip_cases [of r p k]) (auto split: if_splits)
  show "protected r q \<Longrightarrow> q \<noteq> p \<Longrightarrow> registry_get (insert_gossip p k r) q = registry_get r q"
    by (cases rule: insert_gossip_cases [of r p k]) (auto simp: protected_def)
  show "protected r q \<Longrightarrow> protected (insert_gossip p k r) q"
    by (cases rule: insert_gossip_cases [of r p k]) (auto simp: protected_def)
qed (auto simp: protected_def insert_direct_def registry_remove_def registry_get_def)

section \<open>Refinement of the abstract registry\<close>

text \<open>
  The registry as its documentation describes it: a map of handshaked keys that nothing
  evicts, and a queue of gossip-learned keys, oldest first, that gives way when the two
  together have reached the bound.
\<close>

record abs_registry =
  handshaked :: "PeerId \<rightharpoonup> bytes32"
  learned :: "(PeerId \<times> bytes32) list"

definition abs_registry_of :: "KeyRegistryState \<Rightarrow> abs_registry" where
  "abs_registry_of r =
     \<lparr>handshaked = (\<lambda>p. if p \<in> set (gossip_order r) then None else registry_get r p),
      learned = map (\<lambda>p. (p, the (registry_get r p))) (gossip_order r)\<rparr>"

definition abs_size :: "abs_registry \<Rightarrow> nat" where
  "abs_size a = card (dom (handshaked a)) + length (learned a)"

definition abs_direct :: "PeerId \<Rightarrow> bytes32 \<Rightarrow> abs_registry \<Rightarrow> abs_registry" where
  "abs_direct p k a =
     \<lparr>handshaked = (handshaked a)(p \<mapsto> k), learned = filter (\<lambda>(q, _). q \<noteq> p) (learned a)\<rparr>"

definition abs_gossip :: "nat option \<Rightarrow> PeerId \<Rightarrow> bytes32 \<Rightarrow> abs_registry \<Rightarrow> abs_registry" where
  "abs_gossip mx p k a =
     (if p \<in> dom (handshaked a) then a\<lparr>handshaked := (handshaked a)(p \<mapsto> k)\<rparr>
      else if p \<in> fst ` set (learned a) then
        a\<lparr>learned := map (\<lambda>(q, k'). (q, if q = p then k else k')) (learned a)\<rparr>
      else if \<exists>m. mx = Some m \<and> m \<le> abs_size a then
        (if learned a = [] then a else a\<lparr>learned := tl (learned a) @ [(p, k)]\<rparr>)
      else a\<lparr>learned := learned a @ [(p, k)]\<rparr>)"

lemma abs_size_entries:
  assumes "registry_inv r"
  shows "abs_size (abs_registry_of r) = length (entries r)"
proof -
  let ?D = "dom (registry_get r)" and ?G = "set (gossip_order r)"
  have dom: "?D = fst ` set (entries r)"
    by (auto simp: dom_def registry_get_def hm_get_Some_iff_key)
  have "dom (handshaked (abs_registry_of r)) = ?D - ?G"
    by (auto simp: abs_registry_of_def split: if_splits)
  then have "abs_size (abs_registry_of r) = card (?D - ?G) + card ?G"
    using registry_invD(2) [OF assms]
    by (simp add: abs_size_def abs_registry_of_def distinct_card)
  also have "\<dots> = card ?D"
    using registry_invD(3) [OF assms] dom
    by (simp add: card_Diff_subset card_mono)
  also have "\<dots> = length (entries r)"
    using registry_invD(1) [OF assms] dom distinct_card [of "map fst (entries r)"] by simp
  finally show ?thesis .
qed

lemma gossip_known:
  assumes "registry_inv r" "p \<in> set (gossip_order r)"
  shows "\<exists>k. registry_get r p = Some k"
  using registry_invD(3) [OF assms(1)] assms(2)
  by (auto simp: registry_get_def hm_get_Some_iff_key)

lemma abs_registry_direct:
  "abs_registry_of (snd (insert_direct p k r)) = abs_direct p k (abs_registry_of r)"
proof -
  have "gossip_order (snd (insert_direct p k r)) = filter (\<lambda>q. q \<noteq> p) (gossip_order r)"
    by (simp add: insert_direct_def)
  then show ?thesis
    by (auto simp: abs_registry_of_def abs_direct_def filter_map o_def fun_eq_iff
        intro!: map_cong)
qed

lemma abs_registry_gossip:
  assumes inv: "registry_inv r"
  shows "abs_registry_of (insert_gossip p k r) = abs_gossip (max_size r) p k (abs_registry_of r)"
proof (cases rule: insert_gossip_cases [of r p k])
  case refresh
  then show ?thesis
    by (auto simp: abs_registry_of_def abs_gossip_def fun_eq_iff image_image)
next
  case (dropped mx)
  then show ?thesis
    using abs_size_entries [OF inv]
    by (auto simp: abs_gossip_def) (auto simp: abs_registry_of_def)
next
  case (evicted oldest rest mx)
  then have "oldest \<noteq> p" "oldest \<notin> set rest" "p \<notin> set rest"
    using registry_invD(2) [OF inv] gossip_known [OF inv, of p] gossip_known [OF inv, of oldest]
    by auto
  with evicted show ?thesis
    using abs_size_entries [OF inv]
    by (auto simp: abs_gossip_def) (auto simp: abs_registry_of_def intro!: ext map_cong split: if_splits)
next
  case added
  have "\<not> (\<exists>m. max_size r = Some m \<and> m \<le> length (entries r))"
  proof
    assume "\<exists>m. max_size r = Some m \<and> m \<le> length (entries r)"
    then have "length (gossip_order (insert_gossip p k r)) \<le> length (gossip_order r)"
      using added(1) by (auto simp: insert_gossip_def registry_get_def push_gossip_def split: list.splits)
    with added(3) show False by simp
  qed
  moreover have "p \<notin> set (gossip_order r)"
    using gossip_known [OF inv, of p] added(1) by auto
  ultimately show ?thesis
    using abs_size_entries [OF inv] added
    by (auto simp: abs_gossip_def) (auto simp: abs_registry_of_def intro!: ext map_cong split: if_splits)
qed

section \<open>Sequences of operations and the bound\<close>

abbreviation run_registry :: "(PeerId, bytes32) key_op list \<Rightarrow> KeyRegistryState \<Rightarrow> KeyRegistryState" where
  "run_registry \<equiv> fold (apply_key_op (\<lambda>p k r. snd (insert_direct p k r)) insert_gossip
      (\<lambda>p r. snd (registry_remove p r)))"

lemma registry_inv_run [inv_intros]: "registry_inv r \<Longrightarrow> registry_inv (run_registry ops r)"
proof (induction ops arbitrary: r)
  case (Cons op ops)
  then show ?case by (cases op) (simp_all add: inv_intros)
qed simp

lemma max_size_run [simp]: "max_size (run_registry ops r) = max_size r"
proof (induction ops arbitrary: r)
  case (Cons op ops)
  then show ?case by (cases op) simp_all
qed simp

lemma length_entries_gossip:
  assumes inv: "registry_inv r" and mx: "max_size r = Some mx"
  shows "length (entries (insert_gossip p k r)) \<le> max mx (length (entries r))"
proof (cases "hm_get (entries r) p")
  case None
  then have "p \<notin> fst ` set (entries r)"
    by (simp add: hm_get_None_iff)
  moreover have "length (hm_remove q (entries r)) < length (entries r)"
    if "gossip_order r = q # rest" for q rest
  proof -
    have q: "q \<in> fst ` set (entries r)"
      using that registry_invD(3) [OF inv] by auto
    then have "entries r \<noteq> []" by auto
    with q show ?thesis
      by (simp add: length_hm_remove [OF registry_invD(1) [OF inv]])
  qed
  ultimately show ?thesis
    using None mx
    by (auto simp: insert_gossip_def push_gossip_def length_hm_insert Suc_le_eq
        simp del: hm_get_None_iff split: list.splits)
next
  case (Some k')
  then have "p \<in> fst ` set (entries r)"
    by (rule hm_get_Some_key)
  with Some show ?thesis
    by (simp add: insert_gossip_def length_hm_insert)
qed

lemma length_entries_direct:
  "length (entries (snd (insert_direct p k r))) =
     (if registry_get r p = None then Suc (length (entries r)) else length (entries r))"
  by (simp add: insert_direct_def registry_get_def length_hm_insert hm_get_None_iff)

section \<open>Properties\<close>



text \<open>
  C24: a key learned by a handshake is never lost to gossip: after the handshake, whatever
  operations on other peers follow, and however small the bound is, the lookup still
  returns that key.
\<close>

theorem handshaked_key_survives:
  assumes "\<forall>op \<in> set ops. \<not> touches p op"
  shows "registry_get (run_registry ops (snd (insert_direct p k r))) p = Some k"
proof -
  have "protected (snd (insert_direct p k r)) p"
    by (simp add: protected_def insert_direct_def registry_get_def)
  with assms show ?thesis
    by (simp add: registry.untouched_run)
qed

theorem handshaked_key_survives_witness:
  "registry_get (run_registry
       [Gossip (PeerId (fill_array 2)) (fill_array 2), Direct (PeerId (fill_array 3)) (fill_array 3)]
       (snd (insert_direct (PeerId (fill_array 1)) (fill_array 1) (registry_new (Some 0)))))
     (PeerId (fill_array 1)) = Some (fill_array 1)"
  by (rule handshaked_key_survives) simp

text \<open>
  The bound bounds the announced keys, whatever operations are run; announcements never
  push the registry over the bound; but a handshake with an unknown peer always grows it by
  one entry, so the registry itself can exceed \<open>max_key_registry_size\<close>.
\<close>

theorem registry_bound:
  assumes "registry_inv r" "max_size r = Some mx"
  shows "length (gossip_order (run_registry ops r)) \<le> mx \<and>
    length (entries (insert_gossip p k r)) \<le> max mx (length (entries r)) \<and>
    (registry_get r p = None \<longrightarrow>
       length (entries (snd (insert_direct p k r))) = length (entries r) + 1)"
  using registry_invD(4) [OF registry_inv_run [OF assms(1)]] length_entries_gossip [OF assms] assms(2)
  by (auto simp: length_entries_direct)

theorem registry_bound_witness:
  "length (entries (snd (insert_direct (PeerId (fill_array 1)) (fill_array 1) (registry_new (Some 0)))))
     = length (entries (registry_new (Some 0))) + 1"
proof -
  have "max_size (registry_new (Some 0)) = Some 0"
    by (simp add: registry_new_def)
  then show ?thesis
    using registry_bound [OF registry_inv_new, of "Some 0" 0 "[]" "PeerId (fill_array 1)" "fill_array 1"]
    by simp
qed

end
