(* ===== verification/Dedup_Cache.thy ===== *)
theory Dedup_Cache
  imports Core_Types
begin

text \<open>
  \<open>DeduplicationCache\<close> of \<open>node.rs\<close>: the two maps from message keys to the time they were
  first seen.  The contract of such a cache is a locale, shared with the packet filter of
  the BLE advertising transport; its lemmas say of every timed sequence of checks which
  messages pass.
\<close>

section \<open>The cache\<close>

definition DEDUP_TTL :: duration where
  "DEDUP_TTL = 60000"

record DeduplicationCache =
  seen :: "(PeerId \<times> u64, instant) hmap"
  seen_routed :: "(u64, instant) hmap"
  ttl :: duration

definition dedup_new :: DeduplicationCache where
  "dedup_new = \<lparr>seen = [], seen_routed = [], ttl = DEDUP_TTL\<rparr>"

text \<open>
  The closure of the two \<open>retain\<close> calls: \<open>checked_duration_since\<close> is \<open>None\<close> for a time in the
  future, which is kept.
\<close>

definition fresh :: "duration \<Rightarrow> instant \<Rightarrow> instant \<Rightarrow> bool" where
  "fresh d now inserted_at \<longleftrightarrow> (if inserted_at \<le> now then now - inserted_at < d else True)"

definition check_and_insert ::
  "instant \<Rightarrow> PeerId \<Rightarrow> u64 \<Rightarrow> DeduplicationCache \<Rightarrow> bool \<times> DeduplicationCache" where
  "check_and_insert now p message_id c =
     (let kept = filter (\<lambda>(_, inserted_at). fresh (ttl c) now inserted_at) (seen c);
          key = (p, message_id) in
      if hm_get kept key \<noteq> None then (True, c\<lparr>seen := kept\<rparr>)
      else (False, c\<lparr>seen := hm_insert key now kept\<rparr>))"

definition check_and_insert_routed ::
  "instant \<Rightarrow> u64 \<Rightarrow> DeduplicationCache \<Rightarrow> bool \<times> DeduplicationCache" where
  "check_and_insert_routed now message_id c =
     (let kept = filter (\<lambda>(_, inserted_at). fresh (ttl c) now inserted_at) (seen_routed c) in
      if hm_get kept message_id \<noteq> None then (True, c\<lparr>seen_routed := kept\<rparr>)
      else (False, c\<lparr>seen_routed := hm_insert message_id now kept\<rparr>))"

lemma fresh_iff: "0 < d \<Longrightarrow> fresh d now t \<longleftrightarrow> now < t + d"
  by (auto simp: fresh_def)

section \<open>The contract of a cache with expiry\<close>

text \<open>
  \<open>accepted\<close> runs a cache over a timed sequence of keys and returns the ones it lets pass.
\<close>

fun accepted ::
  "(instant \<Rightarrow> 'k \<Rightarrow> 's \<Rightarrow> bool \<times> 's) \<Rightarrow> (instant \<times> 'k) list \<Rightarrow> 's \<Rightarrow> (instant \<times> 'k) list" where
  "accepted check [] s = []"
| "accepted check ((now, k) # evs) s =
     (let (duplicate, s') = check now k s in
      if duplicate then accepted check evs s' else (now, k) # accepted check evs s')"

lemma accepted_Cons [simp]:
  "accepted check ((now, k) # evs) s =
     (if fst (check now k s) then accepted check evs (snd (check now k s))
      else (now, k) # accepted check evs (snd (check now k s)))"
  by (simp add: case_prod_beta)

declare accepted.simps(2) [simp del]

lemma set_accepted: "set (accepted check evs s) \<subseteq> set evs"
proof (induction evs arbitrary: s)
  case (Cons ev evs)
  then show ?case by (cases ev) auto
qed simp

locale ttl_cache =
  fixes check :: "instant \<Rightarrow> 'k \<Rightarrow> 's \<Rightarrow> bool \<times> 's"
    and lookup :: "'s \<Rightarrow> 'k \<Rightarrow> instant option"
    and window :: "'s \<Rightarrow> duration"
    and inv :: "'s \<Rightarrow> bool"
  assumes verdict: "inv s \<Longrightarrow>
      fst (check now k s) \<longleftrightarrow> (\<exists>t. lookup s k = Some t \<and> fresh (window s) now t)"
    and keeps: "inv s \<Longrightarrow> lookup s k' = Some t \<Longrightarrow> fresh (window s) now t \<Longrightarrow>
      lookup (snd (check now k s)) k' = Some t"
    and records: "inv s \<Longrightarrow> \<not> fst (check now k s) \<Longrightarrow> lookup (snd (check now k s)) k = Some now"
    and origin: "inv s \<Longrightarrow> lookup (snd (check now k s)) k' = Some t \<Longrightarrow>
      lookup s k' = Some t \<or> k' = k \<and> t = now"
    and window_const: "window (snd (check now k s)) = window s"
    and inv_check: "inv s \<Longrightarrow> inv (snd (check now k s))"
begin

text \<open>Once a key is recorded at \<open>t\<^sub>0\<close>, nothing passes under it before its window has gone by.\<close>

lemma accepted_after_window:
  assumes "inv s" "0 < window s" "sorted (map fst evs)" "\<forall>(t, _) \<in> set evs. t\<^sub>0 \<le> t"
    and "lookup s k = Some t\<^sub>0"
    and "(t, k) \<in> set (accepted check evs s)"
  shows "t\<^sub>0 + window s \<le> t"
  using assms
proof (induction evs arbitrary: s)
  case Nil
  then show ?case by simp
next
  case (Cons ev evs)
  obtain now k' where ev: "ev = (now, k')" by (cases ev)
  let ?s = "snd (check now k' s)"
  show ?case
  proof (cases "t\<^sub>0 + window s \<le> t")
    case False
    moreover have "(t, k) \<in> set (ev # evs)"
      using Cons.prems(6) set_accepted [of check "ev # evs" s] by blast
    then have "now \<le> t"
      using Cons.prems(3) ev by auto
    ultimately have fresh: "fresh (window s) now t\<^sub>0"
      using Cons.prems(2) by (simp add: fresh_iff)
    have dup: "fst (check now k s)"
      using verdict [OF Cons.prems(1)] Cons.prems(5) fresh by blast
    have "(t, k) \<in> set (accepted check evs ?s)"
      using Cons.prems(6) ev dup by (auto split: if_splits)
    then have "t\<^sub>0 + window ?s \<le> t"
      using Cons.prems ev keeps [OF Cons.prems(1,5) fresh]
      by (intro Cons.IH) (auto simp: window_const inv_check)
    then show ?thesis by (simp add: window_const)
  qed
qed

text \<open>At most one delivery of a key in every window.\<close>

lemma accepted_spaced:
  assumes "inv s" "0 < window s" "sorted (map fst evs)"
  shows "sorted_wrt (\<lambda>(t, k) (t', k'). k = k' \<longrightarrow> t + window s \<le> t') (accepted check evs s)"
  using assms
proof (induction evs arbitrary: s)
  case Nil
  then show ?case by simp
next
  case (Cons ev evs)
  obtain now k where ev: "ev = (now, k)" by (cases ev)
  let ?s = "snd (check now k s)"
  note inv' = inv_check [OF Cons.prems(1), of now k]
  have rest: "sorted_wrt (\<lambda>(t, k) (t', k'). k = k' \<longrightarrow> t + window s \<le> t') (accepted check evs ?s)"
    using Cons.IH [OF inv'] Cons.prems by (simp add: window_const)
  show ?case
  proof (cases "fst (check now k s)")
    case True
    with rest ev show ?thesis by simp
  next
    case False
    have "now + window s \<le> t'" if "(t', k) \<in> set (accepted check evs ?s)" for t'
      using accepted_after_window [OF inv' _ _ _ records [OF Cons.prems(1) False] that]
        Cons.prems ev by (simp add: window_const case_prod_beta)
    with rest False ev show ?thesis by auto
  qed
qed

text \<open>
  Every checked key was delivered within the window before the check, by this run or by the
  one that led to the state.
\<close>

lemma accepted_covers:
  assumes "inv s" "0 < window s" "sorted (map fst evs)"
    and "\<forall>k t. lookup s k = Some t \<longrightarrow> (\<forall>(now, _) \<in> set evs. t \<le> now)"
    and "(now, k) \<in> set evs"
  shows "\<exists>t. t \<le> now \<and> now < t + window s \<and> ((t, k) \<in> set (accepted check evs s) \<or> lookup s k = Some t)"
  using assms
proof (induction evs arbitrary: s)
  case Nil
  then show ?case by simp
next
  case (Cons ev evs)
  obtain t\<^sub>1 k\<^sub>1 where ev: "ev = (t\<^sub>1, k\<^sub>1)" by (cases ev)
  let ?s = "snd (check t\<^sub>1 k\<^sub>1 s)"
  show ?case
  proof (cases "(now, k) \<in> set evs")
    case True
    have "\<forall>k t. lookup ?s k = Some t \<longrightarrow> (\<forall>(now, _) \<in> set evs. t \<le> now)"
      using origin [OF Cons.prems(1)] Cons.prems(3,4) ev by fastforce
    then obtain t where t: "t \<le> now" "now < t + window s"
        "(t, k) \<in> set (accepted check evs ?s) \<or> lookup ?s k = Some t"
      using Cons.IH [of ?s] Cons.prems True ev by (auto simp: window_const inv_check)
    have "(t, k) \<in> set (accepted check (ev # evs) s) \<or> lookup s k = Some t"
    proof (cases "(t, k) \<in> set (accepted check evs ?s)")
      case True
      then show ?thesis by (simp add: ev)
    next
      case False
      then have new: "lookup s k = Some t \<or> k = k\<^sub>1 \<and> t = t\<^sub>1"
        using t(3) origin [OF Cons.prems(1)] by blast
      show ?thesis
      proof (cases "fst (check t\<^sub>1 k\<^sub>1 s)")
        case True
        then obtain t' where "lookup s k\<^sub>1 = Some t'" "fresh (window s) t\<^sub>1 t'"
          using verdict [OF Cons.prems(1)] by blast
        then show ?thesis
          using new keeps [OF Cons.prems(1)] False t(3) by (metis option.inject)
      next
        case False
        with new show ?thesis by (auto simp: ev)
      qed
    qed
    with t(1,2) show ?thesis by blast
  next
    case False
    then have here: "now = t\<^sub>1" "k = k\<^sub>1" using Cons.prems(5) ev by auto
    show ?thesis
    proof (cases "fst (check t\<^sub>1 k\<^sub>1 s)")
      case True
      then obtain t where "lookup s k\<^sub>1 = Some t" "fresh (window s) t\<^sub>1 t"
        using verdict [OF Cons.prems(1)] by blast
      with here Cons.prems(2,4) ev show ?thesis by (auto simp: fresh_iff)
    next
      case False
      with here ev Cons.prems(2) show ?thesis
        by (intro exI [of _ t\<^sub>1]) simp
    qed
  qed
qed

end

section \<open>The cache of the node keeps the contract\<close>

text \<open>Direct messages are keyed by sender and id, routed ones by their id alone.\<close>

type_synonym dedup_key = "(PeerId \<times> u64) + u64"

definition dedup_check ::
  "instant \<Rightarrow> dedup_key \<Rightarrow> DeduplicationCache \<Rightarrow> bool \<times> DeduplicationCache" where
  "dedup_check now k c =
     (case k of Inl (p, m) \<Rightarrow> check_and_insert now p m c | Inr m \<Rightarrow> check_and_insert_routed now m c)"

definition dedup_lookup :: "DeduplicationCache \<Rightarrow> dedup_key \<Rightarrow> instant option" where
  "dedup_lookup c k = (case k of Inl pm \<Rightarrow> hm_get (seen c) pm | Inr m \<Rightarrow> hm_get (seen_routed c) m)"

definition dedup_inv :: "DeduplicationCache \<Rightarrow> bool" where
  "dedup_inv c \<longleftrightarrow> hm_wf (seen c) \<and> hm_wf (seen_routed c)"

lemmas dedup_defs = dedup_check_def dedup_lookup_def check_and_insert_def
  check_and_insert_routed_def Let_def hm_get_filter

lemma dedup_inv_new [inv_intros]: "dedup_inv dedup_new"
  by (simp add: dedup_inv_def dedup_new_def)

lemma dedup_inv_check [inv_intros]: "dedup_inv c \<Longrightarrow> dedup_inv (snd (dedup_check now k c))"
  by (auto simp: dedup_inv_def dedup_check_def check_and_insert_def
      check_and_insert_routed_def Let_def split: sum.splits)

interpretation dedup: ttl_cache dedup_check dedup_lookup ttl dedup_inv
proof unfold_locales
  fix c now k k' t
  assume inv: "dedup_inv c"
  then have wf: "hm_wf (seen c)" "hm_wf (seen_routed c)"
    by (simp_all add: dedup_inv_def)
  note defs = dedup_defs
  show "fst (dedup_check now k c) \<longleftrightarrow> (\<exists>t. dedup_lookup c k = Some t \<and> fresh (ttl c) now t)"
    using wf by (auto simp: defs split: sum.splits option.splits)
  show "dedup_lookup c k' = Some t \<Longrightarrow> fresh (ttl c) now t \<Longrightarrow>
      dedup_lookup (snd (dedup_check now k c)) k' = Some t"
    using wf by (auto simp: defs split: sum.splits option.splits)
  show "\<not> fst (dedup_check now k c) \<Longrightarrow> dedup_lookup (snd (dedup_check now k c)) k = Some now"
    using wf by (auto simp: defs split: sum.splits option.splits if_splits)
  show "dedup_lookup (snd (dedup_check now k c)) k' = Some t \<Longrightarrow>
      dedup_lookup c k' = Some t \<or> k' = k \<and> t = now"
    using wf by (auto simp: defs split: sum.splits option.splits if_splits)
  show "dedup_inv (snd (dedup_check now k c))"
    using inv by (rule dedup_inv_check)
next
  fix now k c
  show "ttl (snd (dedup_check now k c)) = ttl c"
    by (auto simp: dedup_check_def check_and_insert_def check_and_insert_routed_def Let_def
        split: sum.splits)
qed

section \<open>Properties\<close>

text \<open>
  C19: over any sequence of direct and routed checks at non-decreasing times on a new cache,
  two deliveries under the same key are at least \<open>DEDUP_TTL\<close> apart, and every message that
  was checked was delivered within \<open>DEDUP_TTL\<close> before its check: duplicates inside the window
  are all suppressed and nothing else is.
\<close>

theorem dedup_delivers_once_per_window:
  assumes "sorted (map fst evs)"
  shows "sorted_wrt (\<lambda>(t, k) (t', k'). k = k' \<longrightarrow> t + DEDUP_TTL \<le> t')
           (accepted dedup_check evs dedup_new) \<and>
    (\<forall>now k. (now, k) \<in> set evs \<longrightarrow>
       (\<exists>t. (t, k) \<in> set (accepted dedup_check evs dedup_new) \<and> t \<le> now \<and> now < t + DEDUP_TTL))"
proof -
  have new: "ttl dedup_new = DEDUP_TTL" "0 < ttl dedup_new" "\<And>k. dedup_lookup dedup_new k = None"
    by (auto simp: dedup_new_def DEDUP_TTL_def dedup_lookup_def split: sum.splits)
  show ?thesis
    using dedup.accepted_spaced [OF dedup_inv_new new(2) assms]
      dedup.accepted_covers [OF dedup_inv_new new(2) assms] new
    by fastforce
qed

theorem dedup_delivers_once_per_window_witness:
  "sorted_wrt (\<lambda>(t, k) (t', k'). k = k' \<longrightarrow> t + DEDUP_TTL \<le> t')
     (accepted dedup_check [(0, Inr 7), (1000, Inl (PeerId (fill_array 1), 7)), (59999, Inr 7),
        (60000, Inr 7)] dedup_new)"
  using dedup_delivers_once_per_window [of "[(0, Inr 7), (1000, Inl (PeerId (fill_array 1), 7)),
      (59999, Inr 7), (60000, Inr 7)]"]
  by simp

end
