(* ===== verification/Async.thy ===== *)
theory Async
  imports Core_Types
begin

text \<open>
  How asynchronous code is modelled.  A future over a state \<open>'s\<close> is a function from the state
  to a \<open>poll\<close> value and the state it leaves: \<open>Ready\<close> with the result, or \<open>Pending\<close> when it does
  not complete, before the enclosing timeout or ever when there is none.  The state of the
  model is everything the awaited code can change, so an awaited operation of the
  environment can also stand for what other tasks do in the meantime.
\<close>

section \<open>Futures\<close>

datatype 'a poll = Ready 'a | Pending

type_synonym ('a, 's) future = "'s \<Rightarrow> 'a poll \<times> 's"

text \<open>\<open>m.await?\<close>, followed by the rest of the function.\<close>

definition try_await ::
  "('a result, 's) future \<Rightarrow> ('a \<Rightarrow> ('b result, 's) future) \<Rightarrow> ('b result, 's) future" where
  "try_await m f s =
     (case m s of
        (Ready (Inr a), s') \<Rightarrow> f a s'
      | (Ready (Inl e), s') \<Rightarrow> (Ready (Inl e), s')
      | (Pending, s') \<Rightarrow> (Pending, s'))"

text \<open>\<open>m.await\<close>, with the result, whatever it is, passed to the rest of the function.\<close>

definition await :: "('a, 's) future \<Rightarrow> ('a \<Rightarrow> ('b, 's) future) \<Rightarrow> ('b, 's) future" where
  "await m f s = (case m s of (Ready a, s') \<Rightarrow> f a s' | (Pending, s') \<Rightarrow> (Pending, s'))"

definition ready :: "'a \<Rightarrow> ('a, 's) future" where
  "ready a s = (Ready a, s)"

text \<open>The \<open>?\<close> operator on a value that is already there.\<close>

definition try_now :: "'a result \<Rightarrow> ('a \<Rightarrow> ('b result, 's) future) \<Rightarrow> ('b result, 's) future" where
  "try_now r f s = (case r of Inr a \<Rightarrow> f a s | Inl e \<Rightarrow> (Ready (Inl e), s))"

lemma try_await_congs [fundef_cong]:
  assumes "s = t" "m t = m' t"
    and "\<And>a s'. m' t = (Ready (Inr a), s') \<Longrightarrow> f a s' = f' a s'"
  shows "try_await m f s = try_await m' f' t"
  using assms by (auto simp: try_await_def split: prod.splits poll.splits sum.splits)

section \<open>Connections and the runtime\<close>

text \<open>
  The trait \<open>Connection\<close>: a boxed connection is the record of its operations, on the state
  that holds what the connection mutates.
\<close>

record 's Connection =
  send_bytes :: "bytes \<Rightarrow> (unit result, 's) future"
  recv_bytes :: "(bytes result, 's) future"
  close_conn :: "(unit result, 's) future"
  mtu :: nat

text \<open>
  What the code uses of the runtime: the clock, sleeping (during which other tasks run) and
  the entropy source.
\<close>

record 's Runtime =
  now :: "'s \<Rightarrow> instant"
  sleep_until :: "instant \<Rightarrow> 's \<Rightarrow> 's"
  getrandom :: "'s \<Rightarrow> bytes8 \<times> 's"

definition sleep :: "'s Runtime \<Rightarrow> duration \<Rightarrow> 's \<Rightarrow> 's" where
  "sleep rt d s = sleep_until rt (now rt s + d) s"

text \<open>
  \<open>tokio::time::timeout\<close>: \<open>None\<close> when the deadline passes first; the future is then dropped
  where it stands.
\<close>

definition timeout :: "'s Runtime \<Rightarrow> duration \<Rightarrow> ('a, 's) future \<Rightarrow> ('a option, 's) future" where
  "timeout rt d m s =
     (case m s of
        (Ready a, s') \<Rightarrow> (Ready (Some a), s')
      | (Pending, s') \<Rightarrow> (Ready None, sleep_until rt (now rt s + d) s'))"

lemma timeout_Ready: "\<exists>r s'. timeout rt d m s = (Ready r, s')"
  by (simp add: timeout_def split: prod.splits poll.splits)

text \<open>A future that runs on a part of the state: the second component of a pair.\<close>

definition on_snd :: "('a, 's) future \<Rightarrow> ('a, 't \<times> 's) future" where
  "on_snd m = (\<lambda>(t, s). let (r, s') = m s in (r, (t, s')))"

lemma on_snd_apply [simp]: "on_snd m (t, s) = (fst (m s), (t, snd (m s)))"
  by (simp add: on_snd_def case_prod_beta)

section \<open>Invariants of futures\<close>

text \<open>A future keeps a predicate when the state it leaves has it, whatever the outcome.\<close>

definition keeps :: "('s \<Rightarrow> bool) \<Rightarrow> ('a, 's) future \<Rightarrow> bool" where
  "keeps I m \<longleftrightarrow> (\<forall>s. I s \<longrightarrow> I (snd (m s)))"

lemma keepsD: "keeps I m \<Longrightarrow> I s \<Longrightarrow> m s = (r, s') \<Longrightarrow> I s'"
  by (metis keeps_def snd_conv)

lemma keeps_snd: "keeps I m \<Longrightarrow> I s \<Longrightarrow> I (snd (m s))"
  by (simp add: keeps_def)

named_theorems keeps_intros

lemma keeps_ready [keeps_intros]: "keeps I (ready a)"
  by (simp add: keeps_def ready_def)

lemma keeps_try_await [keeps_intros]:
  "keeps I m \<Longrightarrow> (\<And>a. keeps I (f a)) \<Longrightarrow> keeps I (try_await m f)"
  by (auto simp: keeps_def try_await_def split: prod.splits poll.splits sum.splits)

lemma keeps_await [keeps_intros]:
  "keeps I m \<Longrightarrow> (\<And>a. keeps I (f a)) \<Longrightarrow> keeps I (await m f)"
  by (auto simp: keeps_def await_def split: prod.splits poll.splits)

lemma keeps_try_now [keeps_intros]:
  "(\<And>a. keeps I (f a)) \<Longrightarrow> keeps I (try_now r f)"
  by (auto simp: keeps_def try_now_def split: sum.splits)

lemma keeps_timeout [keeps_intros]:
  "keeps I m \<Longrightarrow> (\<And>t s. I s \<Longrightarrow> I (sleep_until rt t s)) \<Longrightarrow> keeps I (timeout rt d m)"
  by (auto simp: keeps_def timeout_def split: prod.splits poll.splits)

lemma keeps_on_snd [keeps_intros]:
  "keeps I m \<Longrightarrow> keeps (\<lambda>(_, s). I s) (on_snd m)"
  by (auto simp: keeps_def)

section \<open>Sequences of messages\<close>

text \<open>A future yields a list when running it again and again gives its elements in order.\<close>

fun yields :: "('a result, 's) future \<Rightarrow> 'a list \<Rightarrow> 's \<Rightarrow> 's \<Rightarrow> bool" where
  "yields m [] s s' \<longleftrightarrow> s = s'"
| "yields m (a # as) s s' \<longleftrightarrow> fst (m s) = Ready (Inr a) \<and> yields m as (snd (m s)) s'"

lemma yields_append:
  "yields m (as @ bs) s s' \<longleftrightarrow> (\<exists>t. yields m as s t \<and> yields m bs t s')"
  by (induction as arbitrary: s) auto

fun send_all :: "'s Connection \<Rightarrow> bytes list \<Rightarrow> (unit result, 's) future" where
  "send_all c [] s = (Ready (Inr ()), s)"
| "send_all c (f # fs) s = try_await (send_bytes c f) (\<lambda>_. send_all c fs) s"

lemma send_all_single [simp]: "send_all c [f] = send_bytes c f"
  by (rule ext) (auto simp: try_await_def split: prod.splits poll.splits sum.splits)

end
