(* ===== verification/Bundle_Layer.thy ===== *)
theory Bundle_Layer
  imports Async
begin

text \<open>
  \<open>crates/pathweave-core/src/bundle.rs\<close>: BPv7 framing, fragmentation and reassembly over a
  connection.  The crate \<open>bp7\<close> is an argument of the model: endpoint ids, the builder of
  primary blocks, and the two directions of its CBOR coding.
\<close>

section \<open>The bp7 crate as the layer uses it\<close>

record 'e PrimaryBlock =
  bundle_control_flags :: u64
  destination :: 'e
  source :: 'e
  report_to :: 'e
  creation_timestamp :: "nat \<times> u64"
  lifetime :: duration
  fragmentation_offset :: u64
  total_data_length :: u64

record BundleView =
  view_flags :: u64
  view_seqno :: u64
  view_offset :: u64
  view_total :: u64
  view_payload :: "bytes option"

text \<open>
  \<open>encode\<close> is the CBOR of the bundle of a primary block and one payload block, with no CRC and
  sorted canonical blocks; \<open>decode\<close> is \<open>Bundle::try_from\<close>, read through the accessors.
\<close>

record 'e bp7 =
  with_dtn :: "string \<Rightarrow> string + 'e"
  eid_none :: 'e
  build :: "'e PrimaryBlock \<Rightarrow> string + 'e PrimaryBlock"
  encode :: "'e PrimaryBlock \<Rightarrow> bytes \<Rightarrow> bytes"
  decode :: "bytes \<Rightarrow> string + BundleView"

definition BUNDLE_IS_FRAGMENT :: u64 where
  "BUNDLE_IS_FRAGMENT = 1"

definition DTN_TIME_EPOCH :: nat where
  "DTN_TIME_EPOCH = 0"

section \<open>State\<close>

definition PW_NODE :: string where
  "PW_NODE = ''pathweave/local''"

definition BUNDLE_LIFETIME :: duration where
  "BUNDLE_LIFETIME = 3600000"

text \<open>A \<open>BTreeMap\<close> is its list of entries in the order of the keys.\<close>

fun btree_insert :: "'k::linorder \<Rightarrow> 'v \<Rightarrow> ('k \<times> 'v) list \<Rightarrow> ('k \<times> 'v) list" where
  "btree_insert k v [] = [(k, v)]"
| "btree_insert k v ((k', v') # m) =
     (if k < k' then (k, v) # (k', v') # m
      else if k = k' then (k, v) # m
      else (k', v') # btree_insert k v m)"

record PendingBundle =
  pending_total :: u64
  fragments :: "(u64 \<times> bytes) list"

definition received_len :: "PendingBundle \<Rightarrow> nat" where
  "received_len p = sum_list (map (\<lambda>(_, v). length v) (fragments p))"

definition is_complete :: "PendingBundle \<Rightarrow> bool" where
  "is_complete p \<longleftrightarrow> unat (pending_total p) \<le> received_len p"

definition reassemble :: "PendingBundle \<Rightarrow> bytes" where
  "reassemble p = concat (map snd (fragments p))"

record BundleLayer =
  seq :: u64
  pending :: "(u64, PendingBundle) hmap"

definition bundle_new :: BundleLayer where
  "bundle_new = \<lparr>seq = 0, pending = []\<rparr>"

definition bundle_err :: "string + 'a \<Rightarrow> 'a result" where
  "bundle_err r = (case r of Inl e \<Rightarrow> Inl (Bundle e) | Inr a \<Rightarrow> Inr a)"

definition pw_eid :: "'e bp7 \<Rightarrow> 'e result" where
  "pw_eid bp = bundle_err (with_dtn bp PW_NODE)"

section \<open>Sending\<close>

text \<open>The primary block of a fragment, and of an unfragmented bundle (default flags).\<close>

definition fragment_primary :: "'e bp7 \<Rightarrow> 'e \<Rightarrow> nat \<times> u64 \<Rightarrow> u64 \<Rightarrow> u64 \<Rightarrow> 'e PrimaryBlock" where
  "fragment_primary bp eid ts offset total_len =
     \<lparr>bundle_control_flags = BUNDLE_IS_FRAGMENT, destination = eid, source = eid,
      report_to = eid_none bp, creation_timestamp = ts, lifetime = BUNDLE_LIFETIME,
      fragmentation_offset = offset, total_data_length = total_len\<rparr>"

definition whole_primary :: "'e bp7 \<Rightarrow> 'e \<Rightarrow> nat \<times> u64 \<Rightarrow> 'e PrimaryBlock" where
  "whole_primary bp eid ts =
     \<lparr>bundle_control_flags = 0, destination = eid, source = eid,
      report_to = eid_none bp, creation_timestamp = ts, lifetime = BUNDLE_LIFETIME,
      fragmentation_offset = 0, total_data_length = 0\<rparr>"

definition fragment_header_overhead :: "'e bp7 \<Rightarrow> 'e \<Rightarrow> nat \<times> u64 \<Rightarrow> u64 \<Rightarrow> nat result" where
  "fragment_header_overhead bp eid ts total_len =
     (case bundle_err (build bp (fragment_primary bp eid ts total_len total_len)) of
        Inl e \<Rightarrow> Inl e
      | Inr pblock \<Rightarrow> Inr (length (encode bp pblock [])))"

text \<open>The loop of \<open>send_bytes\<close> over the chunks.\<close>

function send_fragments ::
  "'e bp7 \<Rightarrow> 's Connection \<Rightarrow> 'e \<Rightarrow> nat \<times> u64 \<Rightarrow> bytes \<Rightarrow> nat \<Rightarrow> nat \<Rightarrow> (unit result, 's) future" where
  "send_fragments bp c eid ts bs max_payload offset s =
     (if offset < length bs \<and> 0 < max_payload then
        let stop = min (offset + max_payload) (length bs);
            chunk = take (stop - offset) (drop offset bs) in
        (case bundle_err (build bp (fragment_primary bp eid ts (of_nat offset) (of_nat (length bs)))) of
           Inl e \<Rightarrow> (Ready (Inl e), s)
         | Inr pblock \<Rightarrow>
             try_await (send_bytes c (encode bp pblock chunk))
               (\<lambda>_ s'. send_fragments bp c eid ts bs max_payload stop s') s)
      else (Ready (Inr ()), s))"
  by auto
termination
  by (relation "measure (\<lambda>(bp, c, eid, ts, bs, max_payload, offset, s). length bs - offset)") auto

declare send_fragments.simps [simp del]

definition bundle_send :: "'e bp7 \<Rightarrow> 's Connection \<Rightarrow> bytes \<Rightarrow> (unit result, BundleLayer \<times> 's) future" where
  "bundle_send bp c bs = (\<lambda>(bl, s).
     let sq = seq bl; bl' = bl\<lparr>seq := seq bl + 1\<rparr>; ts = (DTN_TIME_EPOCH, sq) in
     try_now (pw_eid bp) (\<lambda>eid.
     try_now (bundle_err (build bp (whole_primary bp eid ts))) (\<lambda>pblock.
       let cbor = encode bp pblock bs in
       if mtu c = 0 \<or> length cbor \<le> mtu c then on_snd (send_bytes c cbor)
       else
         try_now (fragment_header_overhead bp eid ts (of_nat (length bs))) (\<lambda>overhead.
           let max_payload = mtu c - overhead in
           if max_payload = 0 then
             ready (Inl (Bundle ''MTU too small for BPv7 bundle framing overhead''))
           else on_snd (send_fragments bp c eid ts bs max_payload 0)))) (bl', s))"

section \<open>Receiving\<close>

text \<open>What one received raw bundle does: a payload to return, or \<open>None\<close> to go on reading.\<close>

definition absorb :: "'e bp7 \<Rightarrow> bytes \<Rightarrow> BundleLayer \<Rightarrow> bytes option result \<times> BundleLayer" where
  "absorb bp raw bl =
     (case decode bp raw of
        Inl e \<Rightarrow> (Inl (Bundle e), bl)
      | Inr b \<Rightarrow>
          if \<not> bit (view_flags b) 0 then
            (case view_payload b of
               None \<Rightarrow> (Inl (Bundle ''bundle missing payload''), bl)
             | Some p \<Rightarrow> (Inr (Some p), bl))
          else
            (case view_payload b of
               None \<Rightarrow> (Inl (Bundle ''fragment missing payload''), bl)
             | Some chunk \<Rightarrow>
                 let sq = view_seqno b;
                     p = hm_or_default \<lparr>pending_total = view_total b, fragments = []\<rparr> sq (pending bl);
                     p' = p\<lparr>fragments := btree_insert (view_offset b) chunk (fragments p)\<rparr> in
                 if is_complete p' then
                   (Inr (Some (reassemble p')), bl\<lparr>pending := hm_remove sq (pending bl)\<rparr>)
                 else (Inr None, bl\<lparr>pending := hm_insert sq p' (pending bl)\<rparr>)))"

text \<open>The loop of \<open>recv_bytes\<close>, for at most \<open>n\<close> receptions of the inner connection.\<close>

fun bundle_recv :: "nat \<Rightarrow> 'e bp7 \<Rightarrow> 's Connection \<Rightarrow> (bytes result, BundleLayer \<times> 's) future" where
  "bundle_recv 0 bp c st = (Pending, st)"
| "bundle_recv (Suc n) bp c st =
     try_await (on_snd (recv_bytes c)) (\<lambda>raw (bl, s).
       case absorb bp raw bl of
         (Inl e, bl') \<Rightarrow> (Ready (Inl e), (bl', s))
       | (Inr (Some p), bl') \<Rightarrow> (Ready (Inr p), (bl', s))
       | (Inr None, bl') \<Rightarrow> bundle_recv n bp c (bl', s)) st"

definition bundle_connection :: "nat \<Rightarrow> 'e bp7 \<Rightarrow> 's Connection \<Rightarrow> (BundleLayer \<times> 's) Connection" where
  "bundle_connection n bp c =
     \<lparr>send_bytes = bundle_send bp c, recv_bytes = bundle_recv n bp c,
      close_conn = on_snd (close_conn c), mtu = mtu c\<rparr>"

section \<open>Sorted maps\<close>

lemma btree_insert_less:
  "\<forall>x \<in> set m. k < fst x \<Longrightarrow> btree_insert k v m = (k, v) # m"
  by (cases m) auto

lemma btree_insert_filter:
  assumes "sorted_wrt (<) (map fst cs)" "(k, v) \<in> set cs"
  shows "btree_insert k v (filter P cs) = filter (\<lambda>x. x = (k, v) \<or> P x) cs"
  using assms
proof (induction cs)
  case Nil
  then show ?case by simp
next
  case (Cons x cs)
  show ?case
  proof (cases "x = (k, v)")
    case True
    have "filter (\<lambda>x. x = (k, v) \<or> P x) cs = filter P cs"
      using Cons.prems(1) True by (intro filter_cong) auto
    moreover have "btree_insert k v (filter P cs) = (k, v) # filter P cs"
      using Cons.prems(1) True by (intro btree_insert_less) auto
    ultimately show ?thesis using True by auto
  next
    case False
    with Cons have "(k, v) \<in> set cs" "fst x < k" by auto
    with False Cons show ?thesis by (cases x) auto
  qed
qed

lemma sum_list_filter_less:
  fixes f :: "'a \<Rightarrow> nat"
  assumes "x \<in> set xs" "\<not> P x" "0 < f x"
  shows "sum_list (map f (filter P xs)) < sum_list (map f xs)"
  using assms
proof (induction xs)
  case Nil
  then show ?case by simp
next
  case (Cons y ys)
  have le: "sum_list (map f (filter P ys)) \<le> sum_list (map f ys)"
    by (induction ys) auto
  with Cons show ?case by (cases "x = y") (auto simp: add_strict_mono)
qed

section \<open>The frames of a message\<close>

text \<open>The chunks \<open>send_bytes\<close> cuts a message into, with their offsets.\<close>

function chunks :: "nat \<Rightarrow> bytes \<Rightarrow> nat \<Rightarrow> (nat \<times> bytes) list" where
  "chunks mp bs offset =
     (if offset < length bs \<and> 0 < mp
      then (offset, take mp (drop offset bs)) # chunks mp bs (offset + mp) else [])"
  by auto
termination
  by (relation "measure (\<lambda>(mp, bs, offset). length bs - offset)") auto

declare chunks.simps [simp del]

lemma chunks_end: "length bs \<le> offset \<Longrightarrow> chunks mp bs offset = []"
  by (subst chunks.simps) simp

lemma chunks_concat: "0 < mp \<Longrightarrow> concat (map snd (chunks mp bs offset)) = drop offset bs"
proof (induction mp bs offset rule: chunks.induct)
  case (1 mp bs offset)
  show ?case
  proof (cases "offset < length bs")
    case True
    with 1 have "concat (map snd (chunks mp bs (offset + mp))) = drop mp (drop offset bs)"
      by (simp add: add.commute)
    with True 1(2) append_take_drop_id [of mp "drop offset bs"] show ?thesis
      by (subst chunks.simps) simp
  qed (simp add: chunks_end)
qed

lemma chunks_bounds: "(off, ch) \<in> set (chunks mp bs offset) \<Longrightarrow>
    offset \<le> off \<and> off < length bs \<and> ch \<noteq> [] \<and> length ch \<le> mp"
proof (induction mp bs offset rule: chunks.induct)
  case (1 mp bs offset)
  show ?case
  proof (cases "offset < length bs \<and> 0 < mp")
    case True
    with 1 show ?thesis by (subst (asm) (2) chunks.simps) auto
  next
    case False
    with 1(2) show ?thesis by (subst (asm) chunks.simps) auto
  qed
qed

lemma chunks_sorted: "sorted_wrt (<) (map fst (chunks mp bs offset))"
proof (induction mp bs offset rule: chunks.induct)
  case (1 mp bs offset)
  then show ?case
    by (subst chunks.simps) (auto dest: chunks_bounds)
qed

text \<open>
  The documented behaviour of \<open>bp7\<close> the layer relies on: the builder accepts a block with a
  destination, the fixed endpoint id parses to one, and decoding inverts encoding.
\<close>

definition has_fragment_fields :: "'e PrimaryBlock \<Rightarrow> bool" where
  "has_fragment_fields pb \<longleftrightarrow>
     bit (bundle_control_flags pb) 0 \<or> fragmentation_offset pb = 0 \<and> total_data_length pb = 0"

definition view_of :: "'e PrimaryBlock \<Rightarrow> bytes \<Rightarrow> BundleView" where
  "view_of pb p =
     \<lparr>view_flags = bundle_control_flags pb, view_seqno = snd (creation_timestamp pb),
      view_offset = fragmentation_offset pb, view_total = total_data_length pb,
      view_payload = Some p\<rparr>"

definition bp7_ok :: "'e bp7 \<Rightarrow> 'e \<Rightarrow> bool" where
  "bp7_ok bp eid \<longleftrightarrow>
     with_dtn bp PW_NODE = Inr eid \<and> eid \<noteq> eid_none bp \<and>
     (\<forall>pb. destination pb \<noteq> eid_none bp \<longrightarrow> build bp pb = Inr pb) \<and>
     (\<forall>pb p. has_fragment_fields pb \<longrightarrow> decode bp (encode bp pb p) = Inr (view_of pb p))"

lemma bp7_okD:
  assumes "bp7_ok bp eid"
  shows "pw_eid bp = Inr eid"
    and "bundle_err (build bp (fragment_primary bp eid ts off tot)) = Inr (fragment_primary bp eid ts off tot)"
    and "bundle_err (build bp (whole_primary bp eid ts)) = Inr (whole_primary bp eid ts)"
    and "decode bp (encode bp (fragment_primary bp eid ts off tot) p) =
           Inr (view_of (fragment_primary bp eid ts off tot) p)"
    and "decode bp (encode bp (whole_primary bp eid ts) p) = Inr (view_of (whole_primary bp eid ts) p)"
  using assms
  by (simp_all add: bp7_ok_def pw_eid_def bundle_err_def fragment_primary_def whole_primary_def
      has_fragment_fields_def BUNDLE_IS_FRAGMENT_def bit_0)

definition fragment_frame :: "'e bp7 \<Rightarrow> 'e \<Rightarrow> u64 \<Rightarrow> bytes \<Rightarrow> nat \<times> bytes \<Rightarrow> bytes" where
  "fragment_frame bp eid sq bs = (\<lambda>(off, ch).
     encode bp (fragment_primary bp eid (DTN_TIME_EPOCH, sq) (of_nat off) (of_nat (length bs))) ch)"

definition overhead_of :: "'e bp7 \<Rightarrow> 'e \<Rightarrow> u64 \<Rightarrow> bytes \<Rightarrow> nat" where
  "overhead_of bp eid sq bs =
     length (encode bp (fragment_primary bp eid (DTN_TIME_EPOCH, sq) (of_nat (length bs)) (of_nat (length bs))) [])"

text \<open>The frames of message \<open>bs\<close> with sequence number \<open>sq\<close> on a connection with MTU \<open>m\<close>.\<close>

definition bundle_frames :: "'e bp7 \<Rightarrow> 'e \<Rightarrow> nat \<Rightarrow> u64 \<Rightarrow> bytes \<Rightarrow> bytes list result" where
  "bundle_frames bp eid m sq bs =
     (let whole = encode bp (whole_primary bp eid (DTN_TIME_EPOCH, sq)) bs in
      if m = 0 \<or> length whole \<le> m then Inr [whole]
      else if m \<le> overhead_of bp eid sq bs then
        Inl (Bundle ''MTU too small for BPv7 bundle framing overhead'')
      else Inr (map (fragment_frame bp eid sq bs) (chunks (m - overhead_of bp eid sq bs) bs 0)))"

lemma send_fragments_frames:
  assumes "bp7_ok bp eid" "0 < mp"
  shows "send_fragments bp c eid (DTN_TIME_EPOCH, sq) bs mp off s =
     send_all c (map (fragment_frame bp eid sq bs) (chunks mp bs off)) s"
proof (induction "length bs - off" arbitrary: off s rule: less_induct)
  case less
  show ?case
  proof (cases "off < length bs")
    case True
    have "chunks mp bs (min (off + mp) (length bs)) = chunks mp bs (off + mp)"
      by (cases "off + mp \<le> length bs") (simp_all add: chunks_end min_def)
    moreover have "length bs - min (off + mp) (length bs) < length bs - off"
      using True assms(2) by auto
    ultimately have "send_fragments bp c eid (DTN_TIME_EPOCH, sq) bs mp (min (off + mp) (length bs)) =
        send_all c (map (fragment_frame bp eid sq bs) (chunks mp bs (off + mp)))"
      using less [of "min (off + mp) (length bs)"] by (intro ext) simp
    moreover have "take (min (off + mp) (length bs) - off) (drop off bs) = take mp (drop off bs)"
      using True by (simp add: min_def)
    ultimately show ?thesis
      using True assms(2)
      by (subst send_fragments.simps, subst chunks.simps)
         (simp add: bp7_okD [OF assms(1)] Let_def fragment_frame_def)
  next
    case False
    then show ?thesis
      by (subst send_fragments.simps) (simp add: chunks_end)
  qed
qed

lemma bundle_send_frames:
  assumes "bp7_ok bp eid"
  shows "bundle_send bp c bs (bl, s) =
    (case bundle_frames bp eid (mtu c) (seq bl) bs of
       Inl e \<Rightarrow> (Ready (Inl e), (bl\<lparr>seq := seq bl + 1\<rparr>, s))
     | Inr fs \<Rightarrow> on_snd (send_all c fs) (bl\<lparr>seq := seq bl + 1\<rparr>, s))"
  by (simp add: bundle_send_def bundle_frames_def bp7_okD [OF assms] Let_def try_now_def
      fragment_header_overhead_def overhead_of_def ready_def send_fragments_frames [OF assms])

section \<open>Reassembly\<close>

text \<open>The messages a list of raw bundles gives, read one after the other.\<close>

fun absorb_all :: "'e bp7 \<Rightarrow> bytes list \<Rightarrow> BundleLayer \<Rightarrow> bytes list result \<times> BundleLayer" where
  "absorb_all bp [] bl = (Inr [], bl)"
| "absorb_all bp (raw # raws) bl =
     (case absorb bp raw bl of
        (Inl e, bl') \<Rightarrow> (Inl e, bl')
      | (Inr None, bl') \<Rightarrow> absorb_all bp raws bl'
      | (Inr (Some p), bl') \<Rightarrow>
          (case absorb_all bp raws bl' of (Inl e, bl'') \<Rightarrow> (Inl e, bl'') | (Inr ps, bl'') \<Rightarrow> (Inr (p # ps), bl'')))"

text \<open>The chunks with the offsets at their width on the wire.\<close>

definition wire_chunks :: "nat \<Rightarrow> bytes \<Rightarrow> (u64 \<times> bytes) list" where
  "wire_chunks mp bs = map (\<lambda>(off, ch). (of_nat off, ch)) (chunks mp bs 0)"

lemma wire_chunks_sorted:
  assumes "length bs < 2 ^ 64"
  shows "sorted_wrt (<) (map fst (wire_chunks mp bs))"
proof -
  have "sorted_wrt (\<lambda>x y. (of_nat x :: u64) < of_nat y) (map fst (chunks mp bs 0))"
  proof (rule sorted_wrt_mono_rel [OF _ chunks_sorted])
    fix x y assume xy: "x \<in> set (map fst (chunks mp bs 0))" "y \<in> set (map fst (chunks mp bs 0))" "x < y"
    then have "x < length bs" "y < length bs"
      by (auto dest: chunks_bounds)
    with xy(3) assms show "(of_nat x :: u64) < of_nat y"
      by (simp add: word_less_nat_alt unat_of_nat)
  qed
  then show ?thesis
    by (simp add: wire_chunks_def sorted_wrt_map case_prod_beta)
qed

lemma wire_chunks_concat: "0 < mp \<Longrightarrow> concat (map snd (wire_chunks mp bs)) = bs"
  using chunks_concat [of mp bs 0]
  by (simp add: wire_chunks_def case_prod_beta comp_def)

lemma wire_chunks_nonempty: "x \<in> set (wire_chunks mp bs) \<Longrightarrow> 0 < length (snd x)"
  by (auto simp: wire_chunks_def dest: chunks_bounds)

lemma received_len_concat: "received_len p = length (reassemble p)"
  by (simp add: received_len_def reassemble_def length_concat case_prod_unfold comp_def)

lemma complete_iff_all:
  assumes "length bs < 2 ^ 64" "0 < mp"
  shows "is_complete \<lparr>pending_total = of_nat (length bs), fragments = filter P (wire_chunks mp bs)\<rparr>
    \<longleftrightarrow> (\<forall>x \<in> set (wire_chunks mp bs). P x)"
proof
  assume "\<forall>x \<in> set (wire_chunks mp bs). P x"
  then have "filter P (wire_chunks mp bs) = wire_chunks mp bs" by simp
  with assms show "is_complete \<lparr>pending_total = of_nat (length bs), fragments = filter P (wire_chunks mp bs)\<rparr>"
    by (simp add: is_complete_def received_len_concat reassemble_def wire_chunks_concat unat_of_nat)
next
  assume complete: "is_complete \<lparr>pending_total = of_nat (length bs), fragments = filter P (wire_chunks mp bs)\<rparr>"
  show "\<forall>x \<in> set (wire_chunks mp bs). P x"
  proof (rule ccontr)
    assume "\<not> ?thesis"
    then obtain x where x: "x \<in> set (wire_chunks mp bs)" "\<not> P x" by blast
    have "sum_list (map (length \<circ> snd) (filter P (wire_chunks mp bs))) <
        sum_list (map (length \<circ> snd) (wire_chunks mp bs))"
      using x wire_chunks_nonempty [OF x(1)] by (intro sum_list_filter_less) auto
    also have "\<dots> = length bs"
      using wire_chunks_concat [OF assms(2), of bs] by (metis length_concat map_map)
    finally show False
      using complete assms(1)
      by (simp add: is_complete_def received_len_def unat_of_nat case_prod_unfold comp_def)
  qed
qed

text \<open>The state in which the chunks satisfying \<open>P\<close> have arrived.\<close>

definition partial :: "nat \<Rightarrow> u64 \<Rightarrow> bytes \<Rightarrow> (u64 \<times> bytes) set \<Rightarrow> BundleLayer \<Rightarrow> BundleLayer" where
  "partial mp sq bs S bl =
     (if S = {} then bl
      else bl\<lparr>pending := hm_insert sq \<lparr>pending_total = of_nat (length bs),
                fragments = filter (\<lambda>x. x \<in> S) (wire_chunks mp bs)\<rparr> (pending bl)\<rparr>)"

lemma absorb_fragment:
  assumes ok: "bp7_ok bp eid" and len: "length bs < 2 ^ 64" and mp: "0 < mp"
    and ch: "x \<in> set (chunks mp bs 0)" and new: "hm_get (pending bl) sq = None"
    and X: "X = (of_nat (fst x), snd x)"
  shows "absorb bp (fragment_frame bp eid sq bs x) (partial mp sq bs S bl) =
     (if set (wire_chunks mp bs) \<subseteq> insert X S then (Inr (Some bs), bl)
      else (Inr None, partial mp sq bs (insert X S) bl))"
proof -
  let ?cs = "wire_chunks mp bs"
  let ?p = "\<lambda>P. \<lparr>pending_total = of_nat (length bs), fragments = filter P ?cs\<rparr>"
  have X_mem: "X \<in> set ?cs"
    using ch X by (force simp: wire_chunks_def)
  have start: "hm_or_default \<lparr>pending_total = of_nat (length bs), fragments = []\<rparr> sq
      (pending (partial mp sq bs S bl)) = ?p (\<lambda>x. x \<in> S)"
    using new by (simp add: partial_def hm_or_default_def)
  have step: "btree_insert (fst X) (snd X) (filter (\<lambda>x. x \<in> S) ?cs) = filter (\<lambda>x. x \<in> insert X S) ?cs"
    using btree_insert_filter [OF wire_chunks_sorted [OF len], of "fst X" "snd X" mp] X_mem by simp
  have held: "pending (partial mp sq bs S bl) = pending bl \<or>
      pending (partial mp sq bs S bl) = hm_insert sq (?p (\<lambda>x. x \<in> S)) (pending bl)"
    by (simp add: partial_def)
  have removed: "(partial mp sq bs S bl)\<lparr>pending := hm_remove sq (pending (partial mp sq bs S bl))\<rparr> = bl"
    using new held by (auto simp: partial_def hm_remove_absent hm_get_None_iff)
  have inserted: "(partial mp sq bs S bl)
      \<lparr>pending := hm_insert sq (?p (\<lambda>x. x \<in> insert X S)) (pending (partial mp sq bs S bl))\<rparr> =
      partial mp sq bs (insert X S) bl"
    using held by (auto simp: partial_def)
  have total: "reassemble (?p (\<lambda>x. x \<in> insert X S)) = bs" if "set ?cs \<subseteq> insert X S"
  proof -
    have "filter (\<lambda>x. x \<in> insert X S) ?cs = ?cs"
      using that by (intro filter_True) auto
    then show ?thesis by (simp add: reassemble_def wire_chunks_concat [OF mp])
  qed
  have complete: "is_complete (?p (\<lambda>x. x \<in> insert X S)) \<longleftrightarrow> set ?cs \<subseteq> insert X S"
    unfolding complete_iff_all [OF len mp] by blast
  have "decode bp (fragment_frame bp eid sq bs x) =
      Inr (view_of (fragment_primary bp eid (DTN_TIME_EPOCH, sq) (fst X) (of_nat (length bs))) (snd X))"
    using bp7_okD(4) [OF ok] X by (simp add: fragment_frame_def case_prod_beta)
  then show ?thesis
    using total complete removed inserted start step
    by (auto simp: absorb_def view_of_def fragment_primary_def BUNDLE_IS_FRAGMENT_def bit_0 Let_def)
qed

text \<open>
  Fragments may arrive in any order and more than once: while one is missing nothing comes
  out, and the message comes out with the last missing one.
\<close>

abbreviation wire_chunk :: "nat \<times> bytes \<Rightarrow> u64 \<times> bytes" where
  "wire_chunk x \<equiv> (of_nat (fst x), snd x)"

lemma set_wire_chunks: "set (wire_chunks mp bs) = wire_chunk ` set (chunks mp bs 0)"
  by (simp add: wire_chunks_def case_prod_beta)

lemma wire_chunk_inj:
  assumes "length bs < 2 ^ 64"
  shows "inj_on wire_chunk (set (chunks mp bs 0))"
proof (rule inj_onI)
  fix x y assume xy: "x \<in> set (chunks mp bs 0)" "y \<in> set (chunks mp bs 0)"
    "wire_chunk x = wire_chunk y"
  have "fst x < length bs" "fst y < length bs"
    using xy(1,2) chunks_bounds [of "fst x" "snd x" mp bs 0] chunks_bounds [of "fst y" "snd y" mp bs 0]
    by simp_all
  then have "fst x < 2 ^ 64" "fst y < 2 ^ 64"
    using assms by simp_all
  moreover have "take_bit 64 (fst x) = take_bit 64 (fst y)"
    using xy(3) by (simp add: word_of_nat_eq_iff)
  ultimately have "fst x = fst y"
    by (simp add: take_bit_nat_eq_self)
  with xy(3) show "x = y" by (simp add: prod_eq_iff)
qed

lemma absorb_incomplete:
  assumes ok: "bp7_ok bp eid" and len: "length bs < 2 ^ 64" and mp: "0 < mp"
    and new: "hm_get (pending bl) sq = None" and z: "z \<in> set (wire_chunks mp bs)"
  shows "set xs \<subseteq> set (chunks mp bs 0) \<Longrightarrow> z \<notin> wire_chunk ` set xs \<union> S \<Longrightarrow>
    absorb_all bp (map (fragment_frame bp eid sq bs) xs) (partial mp sq bs S bl) =
      (Inr [], partial mp sq bs (wire_chunk ` set xs \<union> S) bl)"
proof (induction xs arbitrary: S)
  case (Cons x xs)
  have "\<not> set (wire_chunks mp bs) \<subseteq> insert (wire_chunk x) S"
    using Cons.prems(2) z by auto
  then have "absorb bp (fragment_frame bp eid sq bs x) (partial mp sq bs S bl) =
      (Inr None, partial mp sq bs (insert (wire_chunk x) S) bl)"
    using absorb_fragment [OF ok len mp _ new refl, of x S] Cons.prems(1) by simp
  moreover have "wire_chunk ` set xs \<union> insert (wire_chunk x) S = wire_chunk ` set (x # xs) \<union> S"
    by auto
  ultimately show ?case
    using Cons.IH [of "insert (wire_chunk x) S"] Cons.prems by simp
qed simp

lemma absorb_arrivals:
  assumes ok: "bp7_ok bp eid" and len: "length bs < 2 ^ 64" and mp: "0 < mp"
    and new: "hm_get (pending bl) sq = None"
    and all: "set (xs @ [z]) = set (chunks mp bs 0)" and z: "z \<notin> set xs"
  shows "\<exists>bl'. absorb_all bp (map (fragment_frame bp eid sq bs) xs) bl = (Inr [], bl') \<and>
    absorb bp (fragment_frame bp eid sq bs z) bl' = (Inr (Some bs), bl)"
proof -
  have mem: "z \<in> set (chunks mp bs 0)" "set xs \<subseteq> set (chunks mp bs 0)"
    using all by auto
  have "wire_chunk z \<notin> wire_chunk ` set xs"
    using wire_chunk_inj [OF len, of mp] mem z by (auto simp: inj_on_def)
  then have first: "absorb_all bp (map (fragment_frame bp eid sq bs) xs) (partial mp sq bs {} bl) =
      (Inr [], partial mp sq bs (wire_chunk ` set xs \<union> {}) bl)"
    using mem by (intro absorb_incomplete [OF ok len mp new, of "wire_chunk z"])
      (auto simp: set_wire_chunks)
  have covered: "set (wire_chunks mp bs) \<subseteq> insert (wire_chunk z) (wire_chunk ` set xs)"
    using all by (auto simp: set_wire_chunks)
  have "absorb bp (fragment_frame bp eid sq bs z) (partial mp sq bs (wire_chunk ` set xs) bl) =
      (Inr (Some bs), bl)"
    unfolding absorb_fragment [OF ok len mp mem(1) new refl] using covered by simp
  with first show ?thesis
    by (simp add: partial_def)
qed

lemma absorb_whole:
  assumes "bp7_ok bp eid"
  shows "absorb bp (encode bp (whole_primary bp eid ts) bs) bl = (Inr (Some bs), bl)"
  by (simp add: absorb_def bp7_okD [OF assms]) (simp add: view_of_def whole_primary_def)

lemma fragment_frame_inj:
  assumes "bp7_ok bp eid" "length bs < 2 ^ 64"
  shows "inj_on (fragment_frame bp eid sq bs) (set (chunks mp bs 0))"
proof (rule inj_onI)
  fix x y assume xy: "x \<in> set (chunks mp bs 0)" "y \<in> set (chunks mp bs 0)"
    "fragment_frame bp eid sq bs x = fragment_frame bp eid sq bs y"
  then have "decode bp (fragment_frame bp eid sq bs x) = decode bp (fragment_frame bp eid sq bs y)"
    by simp
  then have "wire_chunk x = wire_chunk y"
    by (simp add: fragment_frame_def case_prod_beta bp7_okD(4) [OF assms(1)])
       (simp add: view_of_def fragment_primary_def)
  then show "x = y"
    using wire_chunk_inj [OF assms(2), of mp] xy(1,2) by (simp add: inj_on_def)
qed

text \<open>The reassembly of the frames of a message, in any order and with repetitions.\<close>

lemma absorb_frames:
  assumes ok: "bp7_ok bp eid" and len: "length bs < 2 ^ 64"
    and fs: "bundle_frames bp eid m sq bs = Inr fs" and new: "hm_get (pending bl) sq = None"
    and raws: "set (raws @ [z]) = set fs" "z \<notin> set raws"
  shows "\<exists>bl'. absorb_all bp raws bl = (Inr [], bl') \<and> absorb bp z bl' = (Inr (Some bs), bl)"
proof (cases "m = 0 \<or> length (encode bp (whole_primary bp eid (DTN_TIME_EPOCH, sq)) bs) \<le> m")
  case True
  with fs have "fs = [encode bp (whole_primary bp eid (DTN_TIME_EPOCH, sq)) bs]"
    by (simp add: bundle_frames_def Let_def)
  with raws have "raws = []" "z = encode bp (whole_primary bp eid (DTN_TIME_EPOCH, sq)) bs"
    by (cases raws; auto)+
  then show ?thesis by (simp add: absorb_whole [OF ok])
next
  case False
  define mp where "mp = m - overhead_of bp eid sq bs"
  let ?f = "fragment_frame bp eid sq bs"
  from False fs have mp: "0 < mp" and fs': "fs = map ?f (chunks mp bs 0)"
    by (auto simp: bundle_frames_def mp_def Let_def split: if_splits)
  have "set raws \<subseteq> ?f ` set (chunks mp bs 0)" "z \<in> ?f ` set (chunks mp bs 0)"
    using raws(1) fs' by auto
  then obtain xs x where xs: "raws = map ?f xs" "z = ?f x" "set (xs @ [x]) \<subseteq> set (chunks mp bs 0)"
    using map_preimage [of raws ?f "set (chunks mp bs 0)"] by auto
  have "?f ` set (xs @ [x]) = ?f ` set (chunks mp bs 0)"
    using raws(1) fs' xs by simp
  then have "set (xs @ [x]) = set (chunks mp bs 0)"
    by (simp only: inj_on_image_eq_iff [OF fragment_frame_inj [OF ok len] xs(3) subset_refl])
  moreover have "x \<notin> set xs"
    using raws(2) xs by auto
  ultimately show ?thesis
    using absorb_arrivals [OF ok len mp new] xs by simp
qed

section \<open>Messages over a connection\<close>

lemma bundle_recv_absorb:
  assumes "absorb_all bp raws bl = (Inr [], bl\<^sub>1)" "absorb bp z bl\<^sub>1 = (Inr (Some p), bl\<^sub>2)"
    and "yields (recv_bytes c) (raws @ [z]) s s'" "length raws < n"
  shows "bundle_recv n bp c (bl, s) = (Ready (Inr p), (bl\<^sub>2, s'))"
  using assms
proof (induction raws arbitrary: bl s n)
  case Nil
  then show ?case
    by (cases n) (auto simp: try_await_def prod_eq_iff split: prod.splits)
next
  case (Cons raw raws)
  obtain n' where n: "n = Suc n'" "length raws < n'"
    using Cons.prems(4) by (cases n) auto
  obtain bl' where bl': "absorb bp raw bl = (Inr None, bl')" "absorb_all bp raws bl' = (Inr [], bl\<^sub>1)"
    using Cons.prems(1) by (auto split: prod.splits sum.splits option.splits)
  have "yields (recv_bytes c) (raws @ [z]) (snd (recv_bytes c s)) s'"
    using Cons.prems(3) by simp
  from Cons.IH [OF bl'(2) Cons.prems(2) this n(2)] show ?case
    using Cons.prems(3) bl'(1) n(1) by (simp add: try_await_def)
qed

text \<open>The frames of a sequence of messages, numbered from \<open>sq\<close> on.\<close>

fun stream_frames :: "'e bp7 \<Rightarrow> 'e \<Rightarrow> nat \<Rightarrow> u64 \<Rightarrow> bytes list \<Rightarrow> bytes list list result" where
  "stream_frames bp eid m sq [] = Inr []"
| "stream_frames bp eid m sq (b # bs) =
     (case bundle_frames bp eid m sq b of
        Inl e \<Rightarrow> Inl e
      | Inr fs \<Rightarrow> (case stream_frames bp eid m (sq + 1) bs of Inl e \<Rightarrow> Inl e | Inr fss \<Rightarrow> Inr (fs # fss)))"

lemma send_all_append:
  "send_all c (fs @ gs) s = try_await (send_all c fs) (\<lambda>_. send_all c gs) s"
proof (induction fs arbitrary: s)
  case (Cons f fs)
  then show ?case
    by (auto simp: try_await_def fun_eq_iff split: prod.splits poll.splits sum.splits)
qed (simp add: try_await_def)

lemma bundle_stream_send:
  assumes "bp7_ok bp eid" "stream_frames bp eid (mtu c) (seq bl) msgs = Inr fss"
  shows "map_prod id snd (send_all (bundle_connection n bp c) msgs (bl, s)) = send_all c (concat fss) s"
  using assms(2)
proof (induction msgs arbitrary: bl s fss)
  case (Cons b msgs)
  then obtain fs fss' where fs: "bundle_frames bp eid (mtu c) (seq bl) b = Inr fs" "fss = fs # fss'"
      "stream_frames bp eid (mtu c) (seq (bl\<lparr>seq := seq bl + 1\<rparr>)) msgs = Inr fss'"
    by (auto split: sum.splits)
  have "bundle_send bp c b (bl, s) =
      (fst (send_all c fs s), bl\<lparr>seq := seq bl + 1\<rparr>, snd (send_all c fs s))"
    by (simp add: bundle_send_frames [OF assms(1)] fs)
  with Cons.IH [OF fs(3)] show ?case
    by (auto simp: bundle_connection_def try_await_def send_all_append fs(2)
        split: prod.splits poll.splits sum.splits)
qed simp

lemma bundle_stream_recv:
  assumes ok: "bp7_ok bp eid" and frames: "stream_frames bp eid m sq msgs = Inr fss"
    and len: "\<forall>b \<in> set msgs. length b < 2 ^ 64" and clean: "pending bl = []"
    and nonempty: "\<forall>fs \<in> set fss. fs \<noteq> []"
    and fuel: "\<forall>fs \<in> set fss. length fs \<le> n"
    and inner: "yields (recv_bytes c) (concat fss) s s'"
  shows "yields (recv_bytes (bundle_connection n bp c)) msgs (bl, s) (bl, s')"
  using frames len nonempty fuel inner
proof (induction msgs arbitrary: sq s fss)
  case (Cons b msgs)
  then obtain fs fss' where fs: "bundle_frames bp eid m sq b = Inr fs" "fss = fs # fss'"
      "stream_frames bp eid m (sq + 1) msgs = Inr fss'"
    by (auto split: sum.splits)
  obtain t where t: "yields (recv_bytes c) fs s t" "yields (recv_bytes c) (concat fss') t s'"
    using Cons.prems(5) fs(2) by (auto simp: yields_append)
  obtain raws z where raws: "fs = raws @ [z]"
    using Cons.prems(3) fs(2) by (cases fs rule: rev_cases) auto
  have "distinct fs"
  proof (cases "m = 0 \<or> length (encode bp (whole_primary bp eid (DTN_TIME_EPOCH, sq)) b) \<le> m")
    case False
    then obtain mp where "fs = map (fragment_frame bp eid sq b) (chunks mp b 0)"
      using fs(1) by (auto simp: bundle_frames_def Let_def split: if_splits)
    moreover have "distinct (map fst (chunks mp b 0))"
      using chunks_sorted [of mp b 0] by (simp add: strict_sorted_iff)
    ultimately show ?thesis
      using fragment_frame_inj [OF ok] Cons.prems(2) by (simp add: distinct_map)
  qed (use fs(1) in \<open>auto simp: bundle_frames_def Let_def\<close>)
  then obtain bl' where bl': "absorb_all bp raws bl = (Inr [], bl')" "absorb bp z bl' = (Inr (Some b), bl)"
    using absorb_frames [OF ok _ fs(1), of bl raws z] Cons.prems(2) clean raws by auto
  have "bundle_recv n bp c (bl, s) = (Ready (Inr b), (bl, t))"
    using bundle_recv_absorb [OF bl' t(1) [unfolded raws]] Cons.prems(4) fs(2) raws by simp
  moreover have "yields (recv_bytes (bundle_connection n bp c)) msgs (bl, t) (bl, s')"
    using Cons.IH [OF fs(3)] Cons.prems fs(2) t(2) by simp
  ultimately show ?case
    by (simp add: bundle_connection_def)
qed simp

lemma frames_nonempty:
  assumes "bundle_frames bp eid m sq b = Inr fs" "b \<noteq> []"
  shows "fs \<noteq> []"
proof -
  have "chunks mp b 0 \<noteq> []" if "0 < mp" for mp
    using assms(2) that by (subst chunks.simps) simp
  then show ?thesis
    using assms(1) by (auto simp: bundle_frames_def Let_def split: if_splits)
qed

lemma stream_frames_nonempty:
  "stream_frames bp eid m sq msgs = Inr fss \<Longrightarrow> [] \<notin> set msgs \<Longrightarrow> fs \<in> set fss \<Longrightarrow> fs \<noteq> []"
proof (induction msgs arbitrary: sq fss)
  case (Cons b msgs)
  then obtain gs gss where "bundle_frames bp eid m sq b = Inr gs" "fss = gs # gss"
      "stream_frames bp eid m (sq + 1) msgs = Inr gss"
    by (auto split: sum.splits)
  with Cons frames_nonempty [of bp eid m sq b gs] show ?case by auto
qed simp

section \<open>Properties\<close>

text \<open>
  A concrete codec and a concrete connection, for the instances below: fixed-width fields
  followed by the payload, and a queue of messages.
\<close>

definition plain_bp7 :: "bool bp7" where
  "plain_bp7 =
     \<lparr>with_dtn = (\<lambda>_. Inr True), eid_none = False,
      build = (\<lambda>pb. if destination pb then Inr pb else Inl ''destination''),
      encode = (\<lambda>pb p. u64_to_be_bytes (bundle_control_flags pb)
        @ u64_to_be_bytes (snd (creation_timestamp pb))
        @ u64_to_be_bytes (fragmentation_offset pb) @ u64_to_be_bytes (total_data_length pb) @ p),
      decode = (\<lambda>raw. Inr \<lparr>view_flags = u64_from_be_bytes (take 8 raw),
        view_seqno = u64_from_be_bytes (take 8 (drop 8 raw)),
        view_offset = u64_from_be_bytes (take 8 (drop 16 raw)),
        view_total = u64_from_be_bytes (take 8 (drop 24 raw)),
        view_payload = Some (drop 32 raw)\<rparr>)\<rparr>"

lemma plain_bp7_ok: "bp7_ok plain_bp7 True"
  by (simp add: bp7_ok_def plain_bp7_def view_of_def)

definition queue_connection :: "nat \<Rightarrow> bytes list Connection" where
  "queue_connection m =
     \<lparr>send_bytes = (\<lambda>b q. (Ready (Inr ()), q @ [b])),
      recv_bytes = (\<lambda>q. case q of [] \<Rightarrow> (Pending, q) | b # q' \<Rightarrow> (Ready (Inr b), q')),
      close_conn = (\<lambda>q. (Ready (Inr ()), q)), mtu = m\<rparr>"

lemma queue_yields: "yields (recv_bytes (queue_connection m)) fs (fs @ q) q"
  by (induction fs) (simp_all add: queue_connection_def)

lemma plain_frames:
  "bundle_frames plain_bp7 True m sq bs =
     (if m = 0 \<or> length bs + 32 \<le> m then
        Inr [encode plain_bp7 (whole_primary plain_bp7 True (DTN_TIME_EPOCH, sq)) bs]
      else if m \<le> 32 then Inl (Bundle ''MTU too small for BPv7 bundle framing overhead'')
      else Inr (map (fragment_frame plain_bp7 True sq bs) (chunks (m - 32) bs 0)))"
proof -
  have "length (encode plain_bp7 pb p) = 32 + length p" for pb p
    by (simp add: plain_bp7_def)
  then show ?thesis
    by (simp add: bundle_frames_def overhead_of_def Let_def add.commute)
qed

text \<open>
  C5: a bundle layer on each end carries messages faithfully.  Whatever sequence of
  non-empty messages is sent, the inner connection is given the frames of each message, in
  order; and a peer whose inner connection yields those frames receives exactly the messages,
  in order, with no fragment left over.
\<close>

theorem bundle_stream_roundtrip:
  assumes "bp7_ok bp eid" "stream_frames bp eid (mtu c) (seq bl) msgs = Inr fss"
    and "\<forall>b \<in> set msgs. b \<noteq> [] \<and> length b < 2 ^ 64"
    and "\<forall>fs \<in> set fss. length fs \<le> n" and "pending bl' = []"
  shows "map_prod id snd (send_all (bundle_connection n bp c) msgs (bl, s)) = send_all c (concat fss) s \<and>
    (\<forall>(d :: 'd Connection) t t'. yields (recv_bytes d) (concat fss) t t' \<longrightarrow>
       yields (recv_bytes (bundle_connection n bp d)) msgs (bl', t) (bl', t'))"
proof (intro conjI allI impI)
  show "map_prod id snd (send_all (bundle_connection n bp c) msgs (bl, s)) = send_all c (concat fss) s"
    by (rule bundle_stream_send [OF assms(1,2)])
next
  fix d :: "'d Connection" and t t'
  assume inner: "yields (recv_bytes d) (concat fss) t t'"
  have "\<forall>b \<in> set msgs. length b < 2 ^ 64" "[] \<notin> set msgs"
    using assms(3) by auto
  moreover from this have "\<forall>fs \<in> set fss. fs \<noteq> []"
    using stream_frames_nonempty [OF assms(2)] by simp
  ultimately show "yields (recv_bytes (bundle_connection n bp d)) msgs (bl', t) (bl', t')"
    by (intro bundle_stream_recv [OF assms(1,2) _ assms(5) _ assms(4) inner])
qed

theorem bundle_stream_roundtrip_witness:
  "yields (recv_bytes (bundle_connection 3 plain_bp7 (queue_connection 34))) [[1, 2, 3, 4, 5], [6]]
     (bundle_new, concat (projr (stream_frames plain_bp7 True 34 0 [[1, 2, 3, 4, 5], [6]])))
     (bundle_new, [])"
proof -
  let ?msgs = "[[1, 2, 3, 4, 5], [6]] :: bytes list"
  have "chunks 2 [1, 2, 3, 4, 5 :: u8] 0 = [(0, [1, 2]), (2, [3, 4]), (4, [5])]"
    by (simp add: chunks.simps)
  then obtain fss where fss: "stream_frames plain_bp7 True 34 0 ?msgs = Inr fss" "\<forall>fs \<in> set fss. length fs \<le> 3"
    by (simp add: plain_frames)
  have frames: "stream_frames plain_bp7 True (mtu (queue_connection 34)) (seq bundle_new) ?msgs = Inr fss"
    using fss(1) by (simp only: queue_connection_def bundle_new_def Connection.simps BundleLayer.simps)
  have msgs: "\<forall>b \<in> set ?msgs. b \<noteq> [] \<and> length b < 2 ^ 64"
    by simp
  have clean: "pending bundle_new = []"
    by (simp add: bundle_new_def)
  have inner: "yields (recv_bytes (queue_connection 34)) (concat fss) (concat fss) []"
    using queue_yields [of 34 "concat fss" "[]"] by simp
  show ?thesis
    unfolding fss(1) sum.sel
    by (rule bundle_stream_roundtrip [OF plain_bp7_ok frames msgs fss(2) clean, THEN conjunct2,
          rule_format, OF inner])
qed

text \<open>
  C25: reassembly does not depend on the order of arrival: for every sequence of receptions
  that has all the frames of a message and repeats any of them but the last, \<open>recv_bytes\<close>
  returns the message at the last one, with the pending table as it was.
\<close>

theorem bundle_reassembles_any_order:
  assumes "bp7_ok bp eid" "length bs < 2 ^ 64" "bundle_frames bp eid m sq bs = Inr fs"
    and "hm_get (pending bl) sq = None" "set (raws @ [z]) = set fs" "z \<notin> set raws"
    and "yields (recv_bytes c) (raws @ [z]) s s'" "length raws < n"
  shows "bundle_recv n bp c (bl, s) = (Ready (Inr bs), (bl, s'))"
  using absorb_frames [OF assms(1-6)] bundle_recv_absorb [OF _ _ assms(7,8)] by blast

theorem bundle_reassembles_any_order_witness:
  "\<exists>f\<^sub>1 f\<^sub>2. bundle_frames plain_bp7 True 34 7 [1, 2, 3] = Inr [f\<^sub>1, f\<^sub>2] \<and>
     bundle_recv 3 plain_bp7 (queue_connection 34) (bundle_new, [f\<^sub>2, f\<^sub>2, f\<^sub>1]) =
       (Ready (Inr [1, 2, 3]), (bundle_new, []))"
proof -
  let ?f = "fragment_frame plain_bp7 True 7 [1, 2, 3]"
  have cs: "chunks 2 [1, 2, 3 :: u8] 0 = [(0, [1, 2]), (2, [3])]"
    by (simp add: chunks.simps)
  then have "?f (0, [1, 2]) \<noteq> ?f (2, [3])"
    using fragment_frame_inj [OF plain_bp7_ok, of "[1, 2, 3]" 7 2] by (simp add: inj_on_def)
  with cs obtain f\<^sub>1 f\<^sub>2 where fs: "bundle_frames plain_bp7 True 34 7 [1, 2, 3] = Inr [f\<^sub>1, f\<^sub>2]" "f\<^sub>1 \<noteq> f\<^sub>2"
    by (simp add: plain_frames)
  have "bundle_recv 3 plain_bp7 (queue_connection 34) (bundle_new, [f\<^sub>2, f\<^sub>2, f\<^sub>1]) =
      (Ready (Inr [1, 2, 3]), (bundle_new, []))"
    using fs queue_yields [of 34 "[f\<^sub>2, f\<^sub>2, f\<^sub>1]" "[]"]
    by (intro bundle_reassembles_any_order [OF plain_bp7_ok _ fs(1), where raws = "[f\<^sub>2, f\<^sub>2]"])
       (auto simp: bundle_new_def)
  with fs show ?thesis by blast
qed

text \<open>
  The size of a CBOR byte string's head (RFC 8949), and what it means for a codec to write
  the payload as one byte string after a part that depends on the primary block only, and
  does not shrink when the fragment offset grows.
\<close>

definition cbor_head :: "nat \<Rightarrow> nat" where
  "cbor_head n = (if n < 24 then 1 else if n < 2 ^ 8 then 2 else if n < 2 ^ 16 then 3
     else if n < 2 ^ 32 then 5 else 9)"

definition cbor_sized :: "'e bp7 \<Rightarrow> ('e PrimaryBlock \<Rightarrow> nat) \<Rightarrow> bool" where
  "cbor_sized bp head \<longleftrightarrow>
     (\<forall>pb p. length (encode bp pb p) = head pb + cbor_head (length p) + length p) \<and>
     (\<forall>pb off. off \<le> fragmentation_offset pb \<longrightarrow> head (pb\<lparr>fragmentation_offset := off\<rparr>) \<le> head pb)"

lemma cbor_head_pos: "1 \<le> cbor_head n"
  by (simp add: cbor_head_def)

lemma cbor_head_mono: "a \<le> b \<Longrightarrow> cbor_head a \<le> cbor_head b"
  by (auto simp: cbor_head_def)


definition sized_bp7 :: "unit bp7" where
  "sized_bp7 =
     \<lparr>with_dtn = (\<lambda>_. Inr ()), eid_none = (), build = Inr,
      encode = (\<lambda>pb p. replicate (40 + cbor_head (length p)) 0 @ p),
      decode = (\<lambda>_. Inl [])\<rparr>"


end
