(* ===== verification/Noise_Session.thy ===== *)
theory Noise_Session
  imports Async
begin

text \<open>
  \<open>crates/pathweave-core/src/session.rs\<close>: the Noise handshakes over a connection, the
  encrypted session, and the one-shot sealing of routed payloads.  The crate \<open>snow\<close> is an
  argument of the model; where it draws an ephemeral key the drawn value is an argument.
\<close>

section \<open>The snow crate as the session uses it\<close>

text \<open>
  Building takes the pattern, the local private key, the remote key where there is one and
  the ephemeral; reading and writing a message take the size of the output buffer.
\<close>

record ('h, 't) snow =
  build_initiator :: "string \<Rightarrow> bytes \<Rightarrow> bytes32 option \<Rightarrow> bytes32 \<Rightarrow> string + 'h"
  build_responder :: "string \<Rightarrow> bytes \<Rightarrow> bytes32 option \<Rightarrow> bytes32 \<Rightarrow> string + 'h"
  hs_write :: "'h \<Rightarrow> bytes \<Rightarrow> nat \<Rightarrow> string + bytes \<times> 'h"
  hs_read :: "'h \<Rightarrow> bytes \<Rightarrow> nat \<Rightarrow> string + bytes \<times> 'h"
  get_remote_static :: "'h \<Rightarrow> bytes32 option"
  into_transport_mode :: "'h \<Rightarrow> string + 't"
  tr_write :: "'t \<Rightarrow> bytes \<Rightarrow> nat \<Rightarrow> string + bytes \<times> 't"
  tr_read :: "'t \<Rightarrow> bytes \<Rightarrow> nat \<Rightarrow> string + bytes \<times> 't"

definition NOISE_PARAMS :: string where
  "NOISE_PARAMS = ''Noise_XX_25519_ChaChaPoly_BLAKE2s''"

definition NOISE_XK_PARAMS :: string where
  "NOISE_XK_PARAMS = ''Noise_XK_25519_ChaChaPoly_BLAKE2s''"

definition NOISE_K_PARAMS :: string where
  "NOISE_K_PARAMS = ''Noise_K_25519_ChaChaPoly_BLAKE2s''"

definition NOISE_MSG_MAX :: nat where
  "NOISE_MSG_MAX = 65535"

definition PROTO_XX :: u8 where
  "PROTO_XX = 0x00"

definition PROTO_XK :: u8 where
  "PROTO_XK = 0x01"

section \<open>Sessions\<close>

record 't Session =
  session_peer_id :: PeerId
  remote_static_key :: bytes32
  transport_state :: 't

definition session_err :: "string + 'a \<Rightarrow> 'a result" where
  "session_err r = (case r of Inl e \<Rightarrow> Inl (Session e) | Inr a \<Rightarrow> Inr a)"

definition finish ::
  "(bytes \<Rightarrow> bytes32) \<Rightarrow> ('h, 't) snow \<Rightarrow> 'h \<Rightarrow> 't Session result" where
  "finish blake3 sn h =
     (case get_remote_static sn h of
        None \<Rightarrow> Inl (Session ''remote static key unavailable after handshake'')
      | Some remote \<Rightarrow>
          (case session_err (into_transport_mode sn h) of
             Inl e \<Rightarrow> Inl e
           | Inr t \<Rightarrow>
               Inr \<lparr>session_peer_id = peer_id_from_public_key blake3 (bytes_of remote),
                    remote_static_key = remote, transport_state = t\<rparr>))"

definition initiate ::
  "(bytes \<Rightarrow> bytes32) \<Rightarrow> ('h, 't) snow \<Rightarrow> NodeIdentity \<Rightarrow> 's Connection \<Rightarrow> bytes32 option \<Rightarrow> bytes32 \<Rightarrow>
     ('t Session result, 's) future" where
  "initiate blake3 sn ident c remote_key ephemeral =
     (let (prefix, built) =
        (case remote_key of
           Some key \<Rightarrow>
             (PROTO_XK, build_initiator sn NOISE_XK_PARAMS (private_key ident) (Some key) ephemeral)
         | None \<Rightarrow> (PROTO_XX, build_initiator sn NOISE_PARAMS (private_key ident) None ephemeral)) in
      try_now (session_err built) (\<lambda>h\<^sub>0.
      try_await (send_bytes c [prefix]) (\<lambda>_.
      try_now (session_err (hs_write sn h\<^sub>0 [] NOISE_MSG_MAX)) (\<lambda>(msg\<^sub>1, h\<^sub>1).
      try_await (send_bytes c msg\<^sub>1) (\<lambda>_.
      try_await (recv_bytes c) (\<lambda>msg\<^sub>2.
      try_now (session_err (hs_read sn h\<^sub>1 msg\<^sub>2 NOISE_MSG_MAX)) (\<lambda>(_, h\<^sub>2).
      try_now (session_err (hs_write sn h\<^sub>2 [] NOISE_MSG_MAX)) (\<lambda>(msg\<^sub>3, h\<^sub>3).
      try_await (send_bytes c msg\<^sub>3) (\<lambda>_. ready (finish blake3 sn h\<^sub>3))))))))))"

definition respond ::
  "(bytes \<Rightarrow> bytes32) \<Rightarrow> ('h, 't) snow \<Rightarrow> NodeIdentity \<Rightarrow> 's Connection \<Rightarrow> bytes32 \<Rightarrow>
     ('t Session result, 's) future" where
  "respond blake3 sn ident c ephemeral =
     try_await (recv_bytes c) (\<lambda>prefix_msg.
     try_now
       (case prefix_msg of
          [] \<Rightarrow> Inl (Session ''missing protocol prefix byte'')
        | prefix # _ \<Rightarrow>
            if prefix = PROTO_XX then Inr NOISE_PARAMS
            else if prefix = PROTO_XK then Inr NOISE_XK_PARAMS
            else Inl (Session (''unknown protocol prefix: 0x'' @ map (char_of \<circ> unat) (hex_byte prefix)))) (\<lambda>params.
     try_now (session_err (build_responder sn params (private_key ident) None ephemeral)) (\<lambda>h\<^sub>0.
     try_await (recv_bytes c) (\<lambda>msg\<^sub>1.
     try_now (session_err (hs_read sn h\<^sub>0 msg\<^sub>1 NOISE_MSG_MAX)) (\<lambda>(_, h\<^sub>1).
     try_now (session_err (hs_write sn h\<^sub>1 [] NOISE_MSG_MAX)) (\<lambda>(msg\<^sub>2, h\<^sub>2).
     try_await (send_bytes c msg\<^sub>2) (\<lambda>_.
     try_await (recv_bytes c) (\<lambda>msg\<^sub>3.
     try_now (session_err (hs_read sn h\<^sub>2 msg\<^sub>3 NOISE_MSG_MAX)) (\<lambda>(_, h\<^sub>3).
     ready (finish blake3 sn h\<^sub>3))))))))))"

text \<open>
  Sending and receiving take the session and return it with the cipher state after the
  message; a failed cipher operation leaves it as it was.
\<close>

definition session_send ::
  "('h, 't) snow \<Rightarrow> 's Connection \<Rightarrow> bytes \<Rightarrow> (unit result, 't Session \<times> 's) future" where
  "session_send sn c plaintext = (\<lambda>(ses, s).
     case session_err (tr_write sn (transport_state ses) plaintext (length plaintext + 16)) of
       Inl e \<Rightarrow> (Ready (Inl e), (ses, s))
     | Inr (ciphertext, t') \<Rightarrow> on_snd (send_bytes c ciphertext) (ses\<lparr>transport_state := t'\<rparr>, s))"

definition session_recv ::
  "('h, 't) snow \<Rightarrow> 's Connection \<Rightarrow> (bytes result, 't Session \<times> 's) future" where
  "session_recv sn c =
     try_await (on_snd (recv_bytes c)) (\<lambda>ciphertext (ses, s).
       case session_err (tr_read sn (transport_state ses) ciphertext (length ciphertext)) of
         Inl e \<Rightarrow> (Ready (Inl e), (ses, s))
       | Inr (plaintext, t') \<Rightarrow> (Ready (Inr plaintext), (ses\<lparr>transport_state := t'\<rparr>, s)))"

definition session_close :: "'s Connection \<Rightarrow> (unit result, 't Session \<times> 's) future" where
  "session_close c = on_snd (close_conn c)"

section \<open>Sealed payloads\<close>

definition seal :: "('h, 't) snow \<Rightarrow> NodeIdentity \<Rightarrow> bytes32 \<Rightarrow> bytes \<Rightarrow> bytes32 \<Rightarrow> bytes result" where
  "seal sn ident dest_public_key payload ephemeral =
     (case session_err (build_initiator sn NOISE_K_PARAMS (private_key ident) (Some dest_public_key) ephemeral) of
        Inl e \<Rightarrow> Inl e
      | Inr h \<Rightarrow>
          (case session_err (hs_write sn h payload NOISE_MSG_MAX) of
             Inl e \<Rightarrow> Inl e
           | Inr (msg, _) \<Rightarrow> Inr msg))"

text \<open>
  The error text of a failed \<open>read_message\<close> names the sender; the sender's id is in it as its
  display form, which \<open>show_id\<close> stands for.  The responder of the one-way pattern draws no
  ephemeral: the builder gets a value it does not use.
\<close>

definition unseal ::
  "('h, 't) snow \<Rightarrow> (PeerId \<Rightarrow> string) \<Rightarrow> NodeIdentity \<Rightarrow> PeerId \<Rightarrow> bytes32 \<Rightarrow> bytes \<Rightarrow> bytes result" where
  "unseal sn show_id ident sender_peer_id sender_public_key sealed =
     (case session_err (build_responder sn NOISE_K_PARAMS (private_key ident) (Some sender_public_key) (fill_array 0)) of
        Inl e \<Rightarrow> Inl e
      | Inr h \<Rightarrow>
          (case hs_read sn h sealed (length sealed) of
             Inl e \<Rightarrow> Inl (Session (''unseal failed for sender '' @ show_id sender_peer_id @ '': '' @ e))
           | Inr (payload, _) \<Rightarrow> Inr payload))"

section \<open>The exchange the two ends perform\<close>

text \<open>
  The three messages of an interactive pattern as Noise prescribes them, with the states of
  the two ends before they are turned into transport states.
\<close>

definition noise_exchange ::
  "('h, 't) snow \<Rightarrow> 'h \<Rightarrow> 'h \<Rightarrow> (string + (bytes \<times> bytes \<times> bytes) \<times> 'h \<times> 'h)" where
  "noise_exchange sn i\<^sub>0 r\<^sub>0 =
     (case hs_write sn i\<^sub>0 [] NOISE_MSG_MAX of Inl e \<Rightarrow> Inl e | Inr (msg\<^sub>1, i\<^sub>1) \<Rightarrow>
     (case hs_read sn r\<^sub>0 msg\<^sub>1 NOISE_MSG_MAX of Inl e \<Rightarrow> Inl e | Inr (_, r\<^sub>1) \<Rightarrow>
     (case hs_write sn r\<^sub>1 [] NOISE_MSG_MAX of Inl e \<Rightarrow> Inl e | Inr (msg\<^sub>2, r\<^sub>2) \<Rightarrow>
     (case hs_read sn i\<^sub>1 msg\<^sub>2 NOISE_MSG_MAX of Inl e \<Rightarrow> Inl e | Inr (_, i\<^sub>2) \<Rightarrow>
     (case hs_write sn i\<^sub>2 [] NOISE_MSG_MAX of Inl e \<Rightarrow> Inl e | Inr (msg\<^sub>3, i\<^sub>3) \<Rightarrow>
     (case hs_read sn r\<^sub>2 msg\<^sub>3 NOISE_MSG_MAX of Inl e \<Rightarrow> Inl e | Inr (_, r\<^sub>3) \<Rightarrow>
        Inr ((msg\<^sub>1, msg\<^sub>2, msg\<^sub>3), i\<^sub>3, r\<^sub>3)))))))"

text \<open>The pattern and the prefix the initiator uses, by whether it knows the remote key.\<close>

definition pattern_of :: "bytes32 option \<Rightarrow> string" where
  "pattern_of remote_key = (if remote_key = None then NOISE_PARAMS else NOISE_XK_PARAMS)"

definition prefix_of :: "bytes32 option \<Rightarrow> u8" where
  "prefix_of remote_key = (if remote_key = None then PROTO_XX else PROTO_XK)"

text \<open>
  Two transport states are linked when what the first encrypts the second decrypts, message
  after message, up to the size limit of a Noise message; the tag takes 16 bytes.
\<close>

coinductive linked :: "('h, 't) snow \<Rightarrow> 't \<Rightarrow> 't \<Rightarrow> bool" for sn where
  linkedI: "(\<And>m. length m + 16 \<le> NOISE_MSG_MAX \<Longrightarrow>
      \<exists>ct t' u'. tr_write sn t m (length m + 16) = Inr (ct, t') \<and>
        tr_read sn u ct (length ct) = Inr (m, u') \<and> linked sn t' u') \<Longrightarrow>
    linked sn t u"

text \<open>
  What the documentation of the patterns promises of two honest ends: the exchange succeeds,
  each learns the other's static key, and the transport states are linked both ways.  The
  initiator of XK starts from the responder's key.
\<close>

definition noise_ok :: "('h, 't) snow \<Rightarrow> NodeIdentity \<Rightarrow> NodeIdentity \<Rightarrow> bytes32 option \<Rightarrow> bool" where
  "noise_ok sn a b rk \<longleftrightarrow>
     (\<forall>e f. \<exists>i\<^sub>0 r\<^sub>0 msgs i r ka kb t u.
        build_initiator sn (pattern_of rk) (private_key a) rk e = Inr i\<^sub>0 \<and>
        build_responder sn (pattern_of rk) (private_key b) None f = Inr r\<^sub>0 \<and>
        noise_exchange sn i\<^sub>0 r\<^sub>0 = Inr (msgs, i, r) \<and>
        get_remote_static sn i = Some kb \<and> bytes_of kb = public_key b \<and>
        get_remote_static sn r = Some ka \<and> bytes_of ka = public_key a \<and>
        into_transport_mode sn i = Inr t \<and> into_transport_mode sn r = Inr u \<and>
        linked sn t u \<and> linked sn u t)"

text \<open>
  An in-memory duplex link, each end with its inbox and its outbox.
\<close>

definition duplex :: "(bytes list \<times> bytes list) Connection" where
  "duplex =
     \<lparr>send_bytes = (\<lambda>b (inbox, outbox). (Ready (Inr ()), (inbox, outbox @ [b]))),
      recv_bytes = (\<lambda>(inbox, outbox). case inbox of [] \<Rightarrow> (Pending, (inbox, outbox))
                      | b # rest \<Rightarrow> (Ready (Inr b), (rest, outbox))),
      close_conn = (\<lambda>s. (Ready (Inr ()), s)), mtu = 0\<rparr>"

lemma duplex_ops [simp]:
  "send_bytes duplex b (i, out) = (Ready (Inr ()), (i, out @ [b]))"
  "recv_bytes duplex ([], out) = (Pending, ([], out))"
  "recv_bytes duplex (b # i, out) = (Ready (Inr b), (i, out))"
  by (simp_all add: duplex_def)

lemma try_now_Inr [simp]: "try_now (Inr a) f s = f a s"
  by (simp add: try_now_def)

lemma session_err_Inr [simp]: "session_err (Inr a) = Inr a"
  by (simp add: session_err_def)

lemma finish_Inr:
  assumes "get_remote_static sn h = Some k" "into_transport_mode sn h = Inr t"
  shows "finish blake3 sn h = Inr \<lparr>session_peer_id = peer_id_from_public_key blake3 (bytes_of k),
    remote_static_key = k, transport_state = t\<rparr>"
  by (simp add: finish_def assms)

lemma noise_exchangeE:
  assumes "noise_exchange sn i\<^sub>0 r\<^sub>0 = Inr ((msg\<^sub>1, msg\<^sub>2, msg\<^sub>3), i\<^sub>3, r\<^sub>3)"
  obtains i\<^sub>1 r\<^sub>1 r\<^sub>2 i\<^sub>2 p\<^sub>1 p\<^sub>2 p\<^sub>3 where
    "hs_write sn i\<^sub>0 [] NOISE_MSG_MAX = Inr (msg\<^sub>1, i\<^sub>1)"
    "hs_read sn r\<^sub>0 msg\<^sub>1 NOISE_MSG_MAX = Inr (p\<^sub>1, r\<^sub>1)"
    "hs_write sn r\<^sub>1 [] NOISE_MSG_MAX = Inr (msg\<^sub>2, r\<^sub>2)"
    "hs_read sn i\<^sub>1 msg\<^sub>2 NOISE_MSG_MAX = Inr (p\<^sub>2, i\<^sub>2)"
    "hs_write sn i\<^sub>2 [] NOISE_MSG_MAX = Inr (msg\<^sub>3, i\<^sub>3)"
    "hs_read sn r\<^sub>2 msg\<^sub>3 NOISE_MSG_MAX = Inr (p\<^sub>3, r\<^sub>3)"
  using assms by (auto simp: noise_exchange_def split: sum.splits prod.splits)

lemma initiate_exchange:
  assumes "build_initiator sn (pattern_of rk) (private_key a) rk e = Inr i\<^sub>0"
    and "noise_exchange sn i\<^sub>0 r\<^sub>0 = Inr ((msg\<^sub>1, msg\<^sub>2, msg\<^sub>3), i, r)"
  shows "initiate blake3 sn a duplex rk e (msg\<^sub>2 # inbox, out) =
    (Ready (finish blake3 sn i), (inbox, out @ [[prefix_of rk], msg\<^sub>1, msg\<^sub>3]))"
  using assms(2)
proof (rule noise_exchangeE)
  fix i\<^sub>1 r\<^sub>1 r\<^sub>2 i\<^sub>2 p\<^sub>1 p\<^sub>2 p\<^sub>3
  assume "hs_write sn i\<^sub>0 [] NOISE_MSG_MAX = Inr (msg\<^sub>1, i\<^sub>1)"
    "hs_read sn i\<^sub>1 msg\<^sub>2 NOISE_MSG_MAX = Inr (p\<^sub>2, i\<^sub>2)"
    "hs_write sn i\<^sub>2 [] NOISE_MSG_MAX = Inr (msg\<^sub>3, i)"
  with assms(1) show ?thesis
    by (cases rk) (simp_all add: initiate_def pattern_of_def prefix_of_def try_await_def ready_def)
qed

lemma respond_exchange:
  assumes "build_responder sn (pattern_of rk) (private_key b) None f = Inr r\<^sub>0"
    and "noise_exchange sn i\<^sub>0 r\<^sub>0 = Inr ((msg\<^sub>1, msg\<^sub>2, msg\<^sub>3), i, r)"
  shows "respond blake3 sn b duplex f ([prefix_of rk] # msg\<^sub>1 # msg\<^sub>3 # inbox, out) =
    (Ready (finish blake3 sn r), (inbox, out @ [msg\<^sub>2]))"
  using assms(2)
proof (rule noise_exchangeE)
  fix i\<^sub>1 r\<^sub>1 r\<^sub>2 i\<^sub>2 p\<^sub>1 p\<^sub>2 p\<^sub>3
  assume "hs_read sn r\<^sub>0 msg\<^sub>1 NOISE_MSG_MAX = Inr (p\<^sub>1, r\<^sub>1)"
    "hs_write sn r\<^sub>1 [] NOISE_MSG_MAX = Inr (msg\<^sub>2, r\<^sub>2)"
    "hs_read sn r\<^sub>2 msg\<^sub>3 NOISE_MSG_MAX = Inr (p\<^sub>3, r)"
  with assms(1) show ?thesis
    by (cases rk) (simp_all add: respond_def pattern_of_def prefix_of_def PROTO_XX_def PROTO_XK_def
        try_await_def ready_def)
qed

section \<open>Messages over a session\<close>

fun session_send_all ::
  "('h, 't) snow \<Rightarrow> 's Connection \<Rightarrow> bytes list \<Rightarrow> (unit result, 't Session \<times> 's) future" where
  "session_send_all sn c [] st = (Ready (Inr ()), st)"
| "session_send_all sn c (m # ms) st =
     try_await (session_send sn c m) (\<lambda>_. session_send_all sn c ms) st"

lemma linkedD:
  assumes "linked sn t u" "length m + 16 \<le> NOISE_MSG_MAX"
  shows "\<exists>ct t' u'. tr_write sn t m (length m + 16) = Inr (ct, t') \<and>
    tr_read sn u ct (length ct) = Inr (m, u') \<and> linked sn t' u'"
  using assms by (cases rule: linked.cases) blast

lemma session_messages:
  assumes "linked sn (transport_state sa) (transport_state sb)"
    and "\<forall>m \<in> set msgs. length m + 16 \<le> NOISE_MSG_MAX"
  shows "\<exists>cts sa' sb'.
    session_send_all sn duplex msgs (sa, (i, out)) = (Ready (Inr ()), (sa', (i, out @ cts))) \<and>
    yields (session_recv sn duplex) msgs (sb, (cts @ later, out')) (sb', (later, out')) \<and>
    linked sn (transport_state sa') (transport_state sb')"
  using assms
proof (induction msgs arbitrary: sa sb out)
  case Nil
  then show ?case by (intro exI [of _ "[]"] exI [of _ sa] exI [of _ sb]) simp
next
  case (Cons m msgs)
  obtain ct t' u' where ct: "tr_write sn (transport_state sa) m (length m + 16) = Inr (ct, t')"
      "tr_read sn (transport_state sb) ct (length ct) = Inr (m, u')" "linked sn t' u'"
    using Cons.prems linkedD [of sn "transport_state sa" "transport_state sb" m] by auto
  obtain cts sa' sb' where rest:
      "session_send_all sn duplex msgs (sa\<lparr>transport_state := t'\<rparr>, (i, out @ [ct])) =
         (Ready (Inr ()), (sa', (i, (out @ [ct]) @ cts)))"
      "yields (session_recv sn duplex) msgs (sb\<lparr>transport_state := u'\<rparr>, (cts @ later, out')) (sb', (later, out'))"
      "linked sn (transport_state sa') (transport_state sb')"
    using Cons.IH [of "sa\<lparr>transport_state := t'\<rparr>" "sb\<lparr>transport_state := u'\<rparr>" "out @ [ct]"]
      Cons.prems(2) ct(3) by auto
  have "session_send_all sn duplex (m # msgs) (sa, (i, out)) =
      (Ready (Inr ()), (sa', (i, out @ (ct # cts))))"
    using rest(1) ct(1) by (simp add: try_await_def session_send_def)
  moreover have "yields (session_recv sn duplex) (m # msgs) (sb, ((ct # cts) @ later, out')) (sb', (later, out'))"
    using rest(2) ct(2) by (simp add: session_recv_def try_await_def)
  ultimately show ?case using rest(3) by blast
qed

section \<open>Properties\<close>

text \<open>A concrete cipher without secrecy, for the instances: a message names its sender's key.\<close>

definition plain_snow :: "(bytes \<times> bytes32 option, unit) snow" where
  "plain_snow =
     \<lparr>build_initiator = (\<lambda>_ key rk _. Inr (key, rk)), build_responder = (\<lambda>_ key rk _. Inr (key, rk)),
      hs_write = (\<lambda>(key, rs) p _. if length p + 48 \<le> NOISE_MSG_MAX then Inr (key @ p, (key, rs)) else Inl ''input''),
      hs_read = (\<lambda>(key, _) m _. Inr (drop 32 m, (key, array_of (take 32 m)))),
      get_remote_static = snd, into_transport_mode = (\<lambda>_. Inr ()),
      tr_write = (\<lambda>t p n. if length p + 16 \<le> NOISE_MSG_MAX then Inr (p @ replicate 16 0, t) else Inl ''input''),
      tr_read = (\<lambda>t ct _. Inr (take (length ct - 16) ct, t))\<rparr>"

lemma plain_linked: "linked plain_snow () ()"
  by (rule linked.coinduct [of "\<lambda>_ _. True"]) (simp_all add: plain_snow_def)

definition plain_identity :: "(bytes \<Rightarrow> bytes32) \<Rightarrow> u8 \<Rightarrow> NodeIdentity" where
  "plain_identity blake3 x = generate blake3 (replicate 32 x, replicate 32 x)"

lemma plain_noise_ok: "noise_ok plain_snow (plain_identity h x) (plain_identity h y) rk"
proof -
  have key: "array_of (replicate 32 z) = Some (fill_array z :: bytes32)" for z
    by (simp add: array_of_Some_iff)
  show ?thesis
    using plain_linked key [of x] key [of y]
    by (simp add: noise_ok_def noise_exchange_def plain_identity_def generate_def)
       (simp add: plain_snow_def NOISE_MSG_MAX_def)
qed

text \<open>
  C12: the two ends perform the Noise exchange and authenticate each other.  Over a link, what
  the initiator sends (the pattern's prefix and messages one and three) is what the responder
  reads, and its message two is what the initiator reads; both handshakes succeed, each
  session names the other end by the hash of its static key, and the ciphers are linked both
  ways.
\<close>

theorem handshake_authenticates_both_ends:
  assumes "noise_ok sn a b rk" "identity_wf blake3 a" "identity_wf blake3 b"
  shows "\<exists>msg\<^sub>1 msg\<^sub>2 msg\<^sub>3 sa sb.
    initiate blake3 sn a duplex rk e ([msg\<^sub>2], []) = (Ready (Inr sa), ([], [[prefix_of rk], msg\<^sub>1, msg\<^sub>3])) \<and>
    respond blake3 sn b duplex f ([[prefix_of rk], msg\<^sub>1, msg\<^sub>3], []) = (Ready (Inr sb), ([], [msg\<^sub>2])) \<and>
    session_peer_id sa = peer_id b \<and> bytes_of (remote_static_key sa) = public_key b \<and>
    session_peer_id sb = peer_id a \<and> bytes_of (remote_static_key sb) = public_key a \<and>
    linked sn (transport_state sa) (transport_state sb) \<and> linked sn (transport_state sb) (transport_state sa)"
proof -
  obtain i\<^sub>0 r\<^sub>0 msg\<^sub>1 msg\<^sub>2 msg\<^sub>3 i r ka kb t u where run:
      "build_initiator sn (pattern_of rk) (private_key a) rk e = Inr i\<^sub>0"
      "build_responder sn (pattern_of rk) (private_key b) None f = Inr r\<^sub>0"
      "noise_exchange sn i\<^sub>0 r\<^sub>0 = Inr ((msg\<^sub>1, msg\<^sub>2, msg\<^sub>3), i, r)"
      "get_remote_static sn i = Some kb" "bytes_of kb = public_key b"
      "get_remote_static sn r = Some ka" "bytes_of ka = public_key a"
      "into_transport_mode sn i = Inr t" "into_transport_mode sn r = Inr u"
      "linked sn t u" "linked sn u t"
    using assms(1) unfolding noise_ok_def by (metis prod_cases3)
  show ?thesis
    using initiate_exchange [OF run(1,3), of blake3 "[]" "[]"] respond_exchange [OF run(2,3), of blake3 "[]" "[]"]
      finish_Inr [OF run(4,8)] finish_Inr [OF run(6,9)] assms(2,3) run(5,7,10,11)
    by (intro exI [of _ msg\<^sub>1] exI [of _ msg\<^sub>2] exI [of _ msg\<^sub>3]) (auto simp: identity_wf_def)
qed

theorem handshake_authenticates_both_ends_witness:
  "\<exists>msg\<^sub>2 sa. fst (initiate (\<lambda>_. fill_array 9) plain_snow (plain_identity (\<lambda>_. fill_array 9) 1) duplex None
     (fill_array 0) ([msg\<^sub>2], [])) = Ready (Inr sa) \<and> bytes_of (remote_static_key sa) = replicate 32 2"
proof -
  have wf: "identity_wf (\<lambda>_. fill_array 9) (plain_identity (\<lambda>_. fill_array 9) x)" for x
    by (simp add: plain_identity_def generate_wf)
  have pub: "public_key (plain_identity (\<lambda>_. fill_array 9) 2) = replicate 32 2"
    by (simp add: plain_identity_def generate_def)
  show ?thesis
    using handshake_authenticates_both_ends [OF plain_noise_ok [of "\<lambda>_. fill_array 9" 1 2 None] wf wf, of "fill_array 0" "fill_array 0"] pub
    by (metis fst_conv)
qed

text \<open>
  C26: after a handshake, whatever messages of at most 65519 bytes one end sends come out at
  the other end, decrypted, in order and nothing more, and the ciphers stay linked.
\<close>

theorem session_carries_messages:
  assumes "linked sn (transport_state sa) (transport_state sb)"
    and "\<forall>m \<in> set msgs. length m \<le> 65519"
  shows "\<exists>cts sa' sb'.
    session_send_all sn duplex msgs (sa, (i, out)) = (Ready (Inr ()), (sa', (i, out @ cts))) \<and>
    yields (session_recv sn duplex) msgs (sb, (cts, out')) (sb', ([], out')) \<and>
    linked sn (transport_state sa') (transport_state sb')"
  using session_messages [OF assms(1), of msgs i out "[]" out'] assms(2)
  by (simp add: NOISE_MSG_MAX_def)

theorem session_carries_messages_witness:
  "\<exists>cts sa' sb'.
    session_send_all plain_snow duplex [[1, 2], [3]] (\<lparr>session_peer_id = PeerId (fill_array 1),
      remote_static_key = fill_array 1, transport_state = ()\<rparr>, ([], [])) = (Ready (Inr ()), (sa', ([], [] @ cts))) \<and>
    yields (session_recv plain_snow duplex) [[1, 2], [3]] (\<lparr>session_peer_id = PeerId (fill_array 2),
      remote_static_key = fill_array 2, transport_state = ()\<rparr>, (cts, [])) (sb', ([], [])) \<and>
    linked plain_snow (transport_state sa') (transport_state sb')"
  by (rule session_carries_messages) (simp_all add: plain_linked)

end
