(* ===== verification/Wire.thy ===== *)
theory Wire
  imports Core_Types
begin

text \<open>
  The wire formats of \<open>router.rs\<close>: message ids, the address exchange frame (ADR 017) and the
  key announcement body (ADR 020), and the update of the peer table from an address
  exchange.  A locale states what a self-delimiting code promises; its lemmas carry the
  round trip of the address list here and of the stream framings of the transports.
\<close>

unbundle bit_operations_syntax

section \<open>Message ids\<close>

definition ADDR_EXCHANGE_CTRL :: bytes where
  "ADDR_EXCHANGE_CTRL = [0, 0, 0, 0, 0, 0, 0, 1]"

text \<open>\<open>new_message_id\<close>, on the eight bytes the entropy source gives.\<close>

definition new_message_id :: "bytes8 \<Rightarrow> u64" where
  "new_message_id entropy =
     (let bs = bytes_of entropy in u64_from_be_bytes (bs[0 := (bs ! 0) OR 0x80]))"

section \<open>The address exchange\<close>

definition encode_string :: "u8 \<Rightarrow> rstring \<Rightarrow> bytes" where
  "encode_string tag i =
     (let bs = str_bytes i; len = (of_nat (min (length bs) 255) :: u8) in
      tag # len # take (unat len) bs)"

fun encode_addr :: "PeerAddress \<Rightarrow> bytes" where
  "encode_addr (Quic (V4 ip port)) = 0x00 # bytes_of ip @ u16_to_be_bytes port"
| "encode_addr (Quic (V6 ip port _ _)) = 0x01 # bytes_of ip @ u16_to_be_bytes port"
| "encode_addr (Ble i) = encode_string 0x02 i"
| "encode_addr (WifiDirect i) = encode_string 0x03 i"
| "encode_addr (BleAdvertising i) = encode_string 0x04 i"

definition encode_addr_exchange :: "PeerAddress list \<Rightarrow> bytes" where
  "encode_addr_exchange addrs =
     ADDR_EXCHANGE_CTRL @ [of_nat (min (length addrs) 255)] @ concat (map encode_addr (take 255 addrs))"

text \<open>The three length-prefixed cases of the decoder, after the tag.\<close>

definition decode_string :: "bytes \<Rightarrow> (rstring \<times> bytes) option" where
  "decode_string bs =
     (case bs of
        [] \<Rightarrow> None
      | len # bs' \<Rightarrow>
          if length bs' < unat len then None
          else (case from_utf8 (take (unat len) bs') of
                  None \<Rightarrow> None
                | Some i \<Rightarrow> Some (i, drop (unat len) bs')))"

text \<open>One turn of the decoder's loop, on the bytes from \<open>pos\<close> on.\<close>

definition decode_addr :: "bytes \<Rightarrow> (PeerAddress \<times> bytes) option" where
  "decode_addr bs =
     (case bs of
        [] \<Rightarrow> None
      | tag # bs' \<Rightarrow>
          if tag = 0x00 then
            (case array_of (take 4 bs') :: bytes4 option of
               Some ip \<Rightarrow>
                 if length bs' < 6 then None
                 else Some (Quic (V4 ip (u16_from_be_bytes (take 2 (drop 4 bs')))), drop 6 bs')
             | None \<Rightarrow> None)
          else if tag = 0x01 then
            (case array_of (take 16 bs') :: bytes16 option of
               Some ip \<Rightarrow>
                 if length bs' < 18 then None
                 else Some (Quic (V6 ip (u16_from_be_bytes (take 2 (drop 16 bs'))) 0 0), drop 18 bs')
             | None \<Rightarrow> None)
          else if tag = 0x02 then map_option (apfst Ble) (decode_string bs')
          else if tag = 0x03 then map_option (apfst WifiDirect) (decode_string bs')
          else if tag = 0x04 then map_option (apfst BleAdvertising) (decode_string bs')
          else None)"

text \<open>The loop: \<open>n\<close> items one after the other, none of them missing.\<close>

fun decode_n :: "(bytes \<Rightarrow> ('a \<times> bytes) option) \<Rightarrow> nat \<Rightarrow> bytes \<Rightarrow> ('a list \<times> bytes) option" where
  "decode_n dec 0 bs = Some ([], bs)"
| "decode_n dec (Suc n) bs =
     (case dec bs of
        None \<Rightarrow> None
      | Some (a, bs') \<Rightarrow> map_option (apfst (Cons a)) (decode_n dec n bs'))"

definition decode_addr_exchange :: "bytes \<Rightarrow> PeerAddress list option" where
  "decode_addr_exchange bs =
     (if length bs < 9 \<or> take 8 bs \<noteq> ADDR_EXCHANGE_CTRL then None
      else map_option fst (decode_n decode_addr (unat (bs ! 8)) (drop 9 bs)))"

section \<open>Key announcements\<close>

definition encode_key_announcement :: "PeerId \<Rightarrow> bytes32 \<Rightarrow> u8 \<Rightarrow> bytes" where
  "encode_key_announcement p key ttl = 0x02 # bytes_of (as_bytes p) @ bytes_of key @ [ttl]"

definition decode_key_announcement :: "bytes \<Rightarrow> (PeerId \<times> bytes32 \<times> u8) option" where
  "decode_key_announcement payload =
     (if length payload \<noteq> 32 + 32 + 1 then None
      else case array_of (take 32 payload) of
        None \<Rightarrow> None
      | Some peer_id_bytes \<Rightarrow>
          (case array_of (take 32 (drop 32 payload)) of
             None \<Rightarrow> None
           | Some key \<Rightarrow> Some (from_bytes peer_id_bytes, key, payload ! 64)))"

definition validate_key_announcement :: "(bytes \<Rightarrow> bytes32) \<Rightarrow> PeerId \<Rightarrow> bytes32 \<Rightarrow> bool" where
  "validate_key_announcement blake3 p key \<longleftrightarrow> peer_id_from_public_key blake3 (bytes_of key) = p"

section \<open>The peer table\<close>

definition push_address :: "PeerAnnouncement list \<Rightarrow> PeerAddress \<Rightarrow> PeerAnnouncement list" where
  "push_address anns addr =
     (if list_ex (\<lambda>a. address a = addr) anns then anns
      else anns @ [\<lparr>address = addr, short_id = None\<rparr>])"

definition upsert_peer_addresses :: "PeerId \<Rightarrow> PeerAddress list \<Rightarrow> peer_table \<Rightarrow> peer_table" where
  "upsert_peer_addresses p addrs peers =
     hm_insert p (foldl push_address (hm_or_default [] p peers) addrs) peers"

section \<open>Self-delimiting codes\<close>

text \<open>
  A code is self-delimiting when the decoder reads back the (normalised) value and leaves the
  rest of the input alone; \<open>norm a = None\<close> where it refuses what the encoder wrote.
\<close>

locale prefix_codec =
  fixes enc :: "'a \<Rightarrow> bytes"
    and dec :: "bytes \<Rightarrow> ('a \<times> bytes) option"
    and norm :: "'a \<Rightarrow> 'a option"
    and fits :: "'a \<Rightarrow> bool"
  assumes dec_enc: "fits a \<Longrightarrow> dec (enc a @ rest) = map_option (\<lambda>a'. (a', rest)) (norm a)"
begin

lemma decode_n_concat:
  assumes "\<forall>a \<in> set as. fits a"
  shows "decode_n dec (length as) (concat (map enc as) @ rest) =
    map_option (\<lambda>as'. (as', rest)) (those (map norm as))"
  using assms
proof (induction as)
  case (Cons a as)
  let ?rest = "concat (map enc as) @ rest"
  have head: "dec (enc a @ ?rest) = map_option (\<lambda>a'. (a', ?rest)) (norm a)"
    using Cons.prems by (intro dec_enc) simp
  have tail: "decode_n dec (length as) ?rest = map_option (\<lambda>as'. (as', rest)) (those (map norm as))"
    using Cons.prems by (intro Cons.IH) simp
  have "decode_n dec (length (a # as)) (concat (map enc (a # as)) @ rest) =
      (case dec (enc a @ ?rest) of
         None \<Rightarrow> None
       | Some (a, bs') \<Rightarrow> map_option (apfst (Cons a)) (decode_n dec (length as) bs'))"
    by simp
  then show ?case
    unfolding head by (cases "norm a") (simp_all add: tail option.map_comp comp_def)
qed simp

lemma enc_inj:
  assumes "enc a @ r = enc b @ r'" "norm a = Some a" "norm b = Some b" "fits a" "fits b"
  shows "a = b \<and> r = r'"
proof -
  have "map_option (\<lambda>a'. (a', r)) (norm a) = map_option (\<lambda>a'. (a', r')) (norm b)"
    unfolding dec_enc [OF assms(4), symmetric] dec_enc [OF assms(5), symmetric] assms(1) ..
  then show ?thesis
    unfolding assms(2,3) by simp
qed

end

section \<open>The address code\<close>

text \<open>
  What an address looks like to the peer: the flow information and the scope of an IPv6
  address are not sent, and an identifier is cut after 255 bytes, which the decoder refuses
  when the cut falls inside a character.
\<close>

fun wire_form :: "PeerAddress \<Rightarrow> PeerAddress option" where
  "wire_form (Quic (V4 ip port)) = Some (Quic (V4 ip port))"
| "wire_form (Quic (V6 ip port _ _)) = Some (Quic (V6 ip port 0 0))"
| "wire_form (Ble i) = map_option Ble (from_utf8 (take 255 (str_bytes i)))"
| "wire_form (WifiDirect i) = map_option WifiDirect (from_utf8 (take 255 (str_bytes i)))"
| "wire_form (BleAdvertising i) = map_option BleAdvertising (from_utf8 (take 255 (str_bytes i)))"

lemma unat_min_255 [simp]: "unat (of_nat (min n 255) :: u8) = min n 255"
  by (simp add: unat_of_nat)

lemma decode_encode_string [wire_simps]:
  "\<exists>len. encode_string tag i = tag # len \<and>
     decode_string (len @ rest) = map_option (\<lambda>i'. (i', rest)) (from_utf8 (take 255 (str_bytes i)))"
proof -
  have "take (min (length (str_bytes i)) 255) (str_bytes i) = take 255 (str_bytes i)"
    by (simp add: min_def)
  then show ?thesis
    by (auto simp: encode_string_def decode_string_def Let_def split: option.splits)
qed

lemma decode_encode_addr: "decode_addr (encode_addr a @ rest) = map_option (\<lambda>a'. (a', rest)) (wire_form a)"
proof (cases a rule: encode_addr.cases)
  case (1 ip port)
  then show ?thesis by (simp add: decode_addr_def)
next
  case (2 ip port)
  then show ?thesis by (simp add: decode_addr_def)
next
  case (3 i)
  then show ?thesis
    using decode_encode_string [of 2 i rest] by (auto simp: decode_addr_def option.map_comp comp_def)
next
  case (4 i)
  then show ?thesis
    using decode_encode_string [of 3 i rest] by (auto simp: decode_addr_def option.map_comp comp_def)
next
  case (5 i)
  then show ?thesis
    using decode_encode_string [of 4 i rest] by (auto simp: decode_addr_def option.map_comp comp_def)
qed

interpretation addr_code: prefix_codec encode_addr decode_addr wire_form "\<lambda>_. True"
  by unfold_locales (rule decode_encode_addr)

lemma decode_encode_addr_exchange:
  "decode_addr_exchange (encode_addr_exchange addrs @ rest) = those (map wire_form (take 255 addrs))"
proof -
  let ?as = "take 255 addrs"
  have ctrl: "length ADDR_EXCHANGE_CTRL = 8"
    by (simp add: ADDR_EXCHANGE_CTRL_def)
  have "decode_n decode_addr (length ?as) (concat (map encode_addr ?as) @ rest) =
      map_option (\<lambda>as'. (as', rest)) (those (map wire_form ?as))"
    by (rule addr_code.decode_n_concat) simp
  then show ?thesis
    by (simp add: decode_addr_exchange_def encode_addr_exchange_def ctrl nth_append option.map_comp
        comp_def min.commute option.map_ident)
qed

lemma wire_form_id:
  "wire_form a = Some a \<longleftrightarrow>
     (case a of
        Quic (V6 _ _ flow scope) \<Rightarrow> flow = 0 \<and> scope = 0
      | Quic (V4 _ _) \<Rightarrow> True
      | Ble i \<Rightarrow> length (str_bytes i) \<le> 255
      | WifiDirect i \<Rightarrow> length (str_bytes i) \<le> 255
      | BleAdvertising i \<Rightarrow> length (str_bytes i) \<le> 255)"
proof -
  have cut: "from_utf8 (take 255 (str_bytes i)) = Some i \<longleftrightarrow> length (str_bytes i) \<le> 255" for i
    by (auto simp: from_utf8_Some_iff) (metis length_take min.bounded_iff order_refl)
  show ?thesis
    by (cases a rule: encode_addr.cases) (auto simp: cut)
qed

section \<open>Message ids and control frames\<close>

lemma new_message_id_bytes:
  "u64_to_be_bytes (new_message_id r) = (bytes_of r)[0 := (bytes_of r ! 0) OR 0x80]"
  by (simp add: new_message_id_def Let_def u64_to_be_from_be)

lemma message_id_not_control:
  "decode_addr_exchange (u64_to_be_bytes (new_message_id r) @ payload) = None"
proof -
  obtain b bs where r: "bytes_of r = b # bs"
    using length_bytes_of [of r] by (cases "bytes_of r") auto
  have "bit (b OR 0x80 :: u8) 7"
    by (simp add: bit_or_iff)
  then have "(b OR 0x80 :: u8) \<noteq> 0"
    by auto
  then show ?thesis
    by (simp add: decode_addr_exchange_def new_message_id_bytes r ADDR_EXCHANGE_CTRL_def)
qed

section \<open>The key announcement code\<close>

lemma decode_key_announcement_iff:
  "decode_key_announcement body = Some (p, key, ttl) \<longleftrightarrow> encode_key_announcement p key ttl = 0x02 # body"
proof
  assume "decode_key_announcement body = Some (p, key, ttl)"
  then have len: "length body = 65" and p: "bytes_of (as_bytes p) = take 32 body"
    and key: "bytes_of key = take 32 (drop 32 body)" and ttl: "ttl = body ! 64"
    by (auto simp: decode_key_announcement_def array_of_Some_iff split: if_splits option.splits)
  have "body = take 32 body @ take 32 (drop 32 body) @ drop 64 body"
    by (metis append_take_drop_id drop_drop numeral_Bit0)
  also have "drop 64 body = [body ! 64]"
    using len Cons_nth_drop_Suc [of 64 body] by simp
  finally show "encode_key_announcement p key ttl = 0x02 # body"
    using p key ttl by (simp add: encode_key_announcement_def)
next
  assume "encode_key_announcement p key ttl = 0x02 # body"
  then have "body = bytes_of (as_bytes p) @ bytes_of key @ [ttl]"
    by (simp add: encode_key_announcement_def)
  then show "decode_key_announcement body = Some (p, key, ttl)"
    by (simp add: decode_key_announcement_def nth_append)
qed

section \<open>Lemmas on the peer table\<close>

lemma push_address_addresses [simp]:
  "address ` set (push_address anns a) = insert a (address ` set anns)"
  by (auto simp: push_address_def list_ex_iff)

lemma distinct_push_address:
  "distinct (map address anns) \<Longrightarrow> distinct (map address (push_address anns a))"
  by (auto simp: push_address_def list_ex_iff)

lemma foldl_push_addresses:
  "address ` set (foldl push_address anns addrs) = address ` set anns \<union> set addrs"
  by (induction addrs arbitrary: anns) auto

lemma distinct_foldl_push:
  "distinct (map address anns) \<Longrightarrow> distinct (map address (foldl push_address anns addrs))"
  by (induction addrs arbitrary: anns) (simp_all add: distinct_push_address)

lemma foldl_push_prefix: "\<exists>new. foldl push_address anns addrs = anns @ new"
proof (induction addrs arbitrary: anns)
  case (Cons a addrs)
  then obtain new where "foldl push_address (push_address anns a) addrs = push_address anns a @ new"
    by blast
  moreover have "\<exists>ys. push_address anns a = anns @ ys"
    by (simp add: push_address_def)
  ultimately show ?case by (metis append.assoc foldl_Cons)
qed simp

text \<open>No peer has an address twice.\<close>

definition addresses_distinct :: "peer_table \<Rightarrow> bool" where
  "addresses_distinct peers \<longleftrightarrow> (\<forall>anns \<in> snd ` set peers. distinct (map address anns))"

lemma addresses_distinct_get:
  "addresses_distinct peers \<Longrightarrow> distinct (map address (hm_or_default [] p peers))"
  by (auto simp: addresses_distinct_def hm_or_default_def image_iff split: option.splits
      dest!: hm_get_Some_mem)

lemma snd_set_hm_insert: "snd ` set (hm_insert k v m) \<subseteq> insert v (snd ` set m)"
  by (induction m) auto

lemma addresses_distinct_upsert [inv_intros]:
  assumes "addresses_distinct peers"
  shows "addresses_distinct (upsert_peer_addresses p addrs peers)"
proof -
  let ?new = "foldl push_address (hm_or_default [] p peers) addrs"
  have "distinct (map address ?new)"
    by (rule distinct_foldl_push [OF addresses_distinct_get [OF assms]])
  with assms have "\<forall>anns \<in> insert ?new (snd ` set peers). distinct (map address anns)"
    by (simp add: addresses_distinct_def)
  with snd_set_hm_insert [of p ?new peers] show ?thesis
    unfolding addresses_distinct_def upsert_peer_addresses_def by blast
qed

section \<open>Properties\<close>

text \<open>
  C27: the address exchange round trip, for every list of addresses, also the ones the format
  does not carry whole: the peer reads the first 255 addresses in their wire form, or refuses
  the frame when one of them has no wire form.
\<close>

theorem addr_exchange_roundtrip:
  "decode_addr_exchange (encode_addr_exchange addrs) = those (map wire_form (take 255 addrs))"
  using decode_encode_addr_exchange [of addrs "[]"] by simp

text \<open>
  The key announcement body is decoded exactly where it was encoded: a body is accepted
  with a given peer, key and TTL if and only if it is the encoding of them after the flag
  byte.
\<close>

theorem key_announcement_bijective:
  "decode_key_announcement body = Some (p, key, ttl) \<longleftrightarrow> encode_key_announcement p key ttl = 0x02 # body"
  by (rule decode_key_announcement_iff)

text \<open>
  A message that starts with a generated message id is never taken for an address
  exchange, whatever its payload and whatever the entropy source gave.
\<close>

theorem message_id_never_control:
  "decode_addr_exchange (u64_to_be_bytes (new_message_id entropy) @ payload) = None"
  by (rule message_id_not_control)

text \<open>
  An address exchange adds exactly the addresses that were not there, behind the known
  ones, keeps every peer free of repeated addresses, and leaves the other peers alone.
\<close>

theorem upsert_adds_missing_addresses:
  assumes "addresses_distinct peers"
  shows "addresses_distinct (upsert_peer_addresses p addrs peers) \<and>
    (\<exists>new. hm_get (upsert_peer_addresses p addrs peers) p = Some (hm_or_default [] p peers @ new) \<and>
       address ` set new = set addrs - address ` set (hm_or_default [] p peers)) \<and>
    (\<forall>q. q \<noteq> p \<longrightarrow> hm_get (upsert_peer_addresses p addrs peers) q = hm_get peers q)"
proof -
  let ?old = "hm_or_default [] p peers"
  obtain new where new: "foldl push_address ?old addrs = ?old @ new"
    using foldl_push_prefix by blast
  have "distinct (map address (?old @ new))"
    using distinct_foldl_push [OF addresses_distinct_get [OF assms], of p addrs] new by simp
  moreover have "address ` set ?old \<union> address ` set new = address ` set ?old \<union> set addrs"
    using foldl_push_addresses [of ?old addrs] new by auto
  ultimately have "address ` set new = set addrs - address ` set ?old"
    by auto
  with new have "\<exists>new. hm_get (upsert_peer_addresses p addrs peers) p = Some (?old @ new) \<and>
      address ` set new = set addrs - address ` set ?old"
    by (simp add: upsert_peer_addresses_def)
  then show ?thesis
    using addresses_distinct_upsert [OF assms, of p addrs] by (auto simp: upsert_peer_addresses_def)
qed

theorem upsert_adds_missing_addresses_witness:
  "addresses_distinct (upsert_peer_addresses (PeerId (fill_array 1))
     [Quic (V4 (fill_array 1) 9000), Quic (V4 (fill_array 2) 9000), Quic (V4 (fill_array 1) 9000)]
     [(PeerId (fill_array 1), [\<lparr>address = Quic (V4 (fill_array 2) 9000), short_id = None\<rparr>])])"
  using upsert_adds_missing_addresses
    [of "[(PeerId (fill_array 1), [\<lparr>address = Quic (V4 (fill_array 2) 9000), short_id = None\<rparr>])]"]
  by (simp add: addresses_distinct_def)

end
