(* ===== verification/Node_State.thy ===== *)
theory Node_State
  imports Key_Registry Dedup_Cache Bundle_Layer Noise_Session Wire
begin

text \<open>
  The state the tasks of a node share (the fields of \<open>PathweaveNode\<close> and \<open>Router\<close> behind their
  mutexes, with the events broadcast and the messages delivered so far), the environment
  they call (transports, the runtime, the third-party crates), and the combinators that
  open a bundle layer and a session inside a function and drop them at its end.
\<close>

section \<open>Transports\<close>

text \<open>
  The trait \<open>Transport\<close>.  The streams of \<open>discover\<close> and \<open>departures\<close> are inputs of the loop that
  reads them and are not operations here.
\<close>

record 's Transport =
  transport_kind :: TransportKind
  transport_cost :: "'s \<Rightarrow> TransportCost"
  transport_connect :: "PeerAnnouncement \<Rightarrow> ('s Connection result, 's) future"
  transport_accept :: "('s Connection result, 's) future"
  transport_start :: "NodeIdentity \<Rightarrow> (unit result, 's) future"
  transport_stop :: "(unit result, 's) future"
  transport_addresses :: "'s \<Rightarrow> PeerAddress list"

section \<open>Shared state\<close>

text \<open>An entry of \<open>Router::transports\<close>: which transport, and its \<open>available\<close> flag.\<close>

record TransportEntry =
  entry_transport :: nat
  available :: bool

text \<open>A queued payload of the store-and-forward queues: message id, payload, enqueue time.\<close>

type_synonym queued = "u64 \<times> bytes \<times> instant"

type_synonym pending_store = "(PeerId, queued list) hmap"

text \<open>A send handed to a background task: the neighbour and its addresses, the body, the id.\<close>

record RelayTask =
  task_peer :: PeerId
  task_announcements :: "PeerAnnouncement list"
  task_body :: bytes
  task_msg_id :: u64

record 'w NodeState =
  transports :: "TransportEntry list"
  event_log :: "TransportEvent list"
  key_registry :: KeyRegistryState
  peers :: peer_table
  known_addrs :: "PeerAddress set"
  dedup :: DeduplicationCache
  handler :: bool
  delivered :: "(PeerId \<times> bytes) list"
  pending_direct :: pending_store
  pending_routed :: pending_store
  relay_tasks :: "RelayTask list"
  world :: 'w

text \<open>\<open>event_tx.send\<close>.\<close>

definition emit :: "TransportEvent \<Rightarrow> 'w NodeState \<Rightarrow> 'w NodeState" where
  "emit e s = s\<lparr>event_log := event_log s @ [e]\<rparr>"

section \<open>The environment\<close>

record ('e, 'h, 't, 's) Env =
  env_blake3 :: "bytes \<Rightarrow> bytes32"
  env_bp7 :: "'e bp7"
  env_snow :: "('h, 't) snow"
  runtime :: "'s Runtime"
  draw_ephemeral :: "'s \<Rightarrow> bytes32 \<times> 's"
  transport :: "nat \<Rightarrow> 's Transport"
  show_id :: "PeerId \<Rightarrow> string"
  recv_fuel :: nat

text \<open>
  A synchronous step, and a local variable (a bundle layer, a session) opened around a
  future and dropped with it.
\<close>

definition update :: "('s \<Rightarrow> 'a \<times> 's) \<Rightarrow> ('a, 's) future" where
  "update f s = (let (a, s') = f s in (Ready a, s'))"

definition modify :: "('s \<Rightarrow> 's) \<Rightarrow> (unit, 's) future" where
  "modify f = update (\<lambda>s. ((), f s))"

definition scoped :: "'t \<Rightarrow> ('a, 't \<times> 's) future \<Rightarrow> ('a, 's) future" where
  "scoped x m s = (let (r, (_, s')) = m (x, s) in (r, s'))"

definition lift_runtime :: "'s Runtime \<Rightarrow> ('t \<times> 's) Runtime" where
  "lift_runtime rt =
     \<lparr>now = now rt \<circ> snd, sleep_until = (\<lambda>t (x, s). (x, sleep_until rt t s)),
      getrandom = (\<lambda>(x, s). let (r, s') = getrandom rt s in (r, (x, s')))\<rparr>"

lemma update_apply: "update f s = (Ready (fst (f s)), snd (f s))"
  by (simp add: update_def case_prod_beta)

lemma modify_apply [simp]: "modify f s = (Ready (), f s)"
  by (simp add: modify_def update_def)

lemma scoped_apply: "scoped x m s = (fst (m (x, s)), snd (snd (m (x, s))))"
  by (simp add: scoped_def case_prod_beta)

section \<open>Invariants under the environment\<close>

text \<open>
  The rely condition of the proofs about the node: the operations of a connection, of the
  transports and of the runtime, which include what other tasks do while they are awaited,
  keep the invariant.
\<close>

definition conn_keeps :: "('s \<Rightarrow> bool) \<Rightarrow> 's Connection \<Rightarrow> bool" where
  "conn_keeps I c \<longleftrightarrow>
     (\<forall>b. keeps I (send_bytes c b)) \<and> keeps I (recv_bytes c) \<and> keeps I (close_conn c)"

definition yields_conn :: "('s \<Rightarrow> bool) \<Rightarrow> ('s Connection result, 's) future \<Rightarrow> bool" where
  "yields_conn I m \<longleftrightarrow>
     keeps I m \<and> (\<forall>s c s'. I s \<longrightarrow> m s = (Ready (Inr c), s') \<longrightarrow> conn_keeps I c)"

definition transport_keeps :: "('s \<Rightarrow> bool) \<Rightarrow> 's Transport \<Rightarrow> bool" where
  "transport_keeps I t \<longleftrightarrow>
     (\<forall>ann. yields_conn I (transport_connect t ann)) \<and> yields_conn I (transport_accept t) \<and>
     (\<forall>i. keeps I (transport_start t i)) \<and> keeps I (transport_stop t)"

definition env_keeps :: "('s \<Rightarrow> bool) \<Rightarrow> ('e, 'h, 't, 's) Env \<Rightarrow> bool" where
  "env_keeps I env \<longleftrightarrow>
     (\<forall>n. transport_keeps I (transport env n)) \<and>
     (\<forall>t s. I s \<longrightarrow> I (sleep_until (runtime env) t s)) \<and>
     (\<forall>s. I s \<longrightarrow> I (snd (getrandom (runtime env) s))) \<and>
     (\<forall>s. I s \<longrightarrow> I (snd (draw_ephemeral env s)))"

lemma env_keepsD:
  assumes "env_keeps I env"
  shows "\<And>n. transport_keeps I (transport env n)"
    and "\<And>t s. I s \<Longrightarrow> I (sleep_until (runtime env) t s)"
    and "\<And>s. I s \<Longrightarrow> I (snd (getrandom (runtime env) s))"
    and "\<And>s. I s \<Longrightarrow> I (snd (draw_ephemeral env s))"
  using assms by (auto simp: env_keeps_def)

abbreviation (input) local_inv :: "('s \<Rightarrow> bool) \<Rightarrow> 't \<times> 's \<Rightarrow> bool" where
  "local_inv I \<equiv> (\<lambda>x. I (snd x))"

lemma keeps_update [keeps_intros]: "(\<And>s. I s \<Longrightarrow> I (snd (f s))) \<Longrightarrow> keeps I (update f)"
  by (simp add: keeps_def update_apply)

lemma keeps_modify [keeps_intros]: "(\<And>s. I s \<Longrightarrow> I (f s)) \<Longrightarrow> keeps I (modify f)"
  by (simp add: keeps_def)

lemma keeps_scoped [keeps_intros]: "keeps (local_inv I) m \<Longrightarrow> keeps I (scoped x m)"
  by (simp add: keeps_def scoped_apply)

lemma keeps_on_snd_local [keeps_intros]: "keeps I m \<Longrightarrow> keeps (local_inv I) (on_snd m)"
  by (auto simp: keeps_def)

lemma keeps_timeout_lifted [keeps_intros]:
  "keeps (local_inv I) m \<Longrightarrow> (\<And>t s. I s \<Longrightarrow> I (sleep_until rt t s)) \<Longrightarrow>
     keeps (local_inv I) (timeout (lift_runtime rt) d m)"
  by (rule keeps_timeout) (auto simp: lift_runtime_def)

section \<open>Bundle layers and sessions keep invariants\<close>

lemma conn_keepsD:
  assumes "conn_keeps I c"
  shows "keeps I (send_bytes c b)" "keeps I (recv_bytes c)" "keeps I (close_conn c)"
  using assms by (auto simp: conn_keeps_def)

lemma keeps_send_fragments:
  assumes "conn_keeps I c"
  shows "keeps I (send_fragments bp c eid ts bs mp off)"
proof (induction "length bs - off" arbitrary: off rule: less_induct)
  case less
  let ?stop = "min (off + mp) (length bs)"
  have "send_fragments bp c eid ts bs mp off =
      (if off < length bs \<and> 0 < mp then
         (case bundle_err (build bp (fragment_primary bp eid ts (of_nat off) (of_nat (length bs)))) of
            Inl e \<Rightarrow> ready (Inl e)
          | Inr pb \<Rightarrow> try_await (send_bytes c (encode bp pb (take (?stop - off) (drop off bs))))
              (\<lambda>_. send_fragments bp c eid ts bs mp ?stop))
       else ready (Inr ()))"
    by (rule ext, subst send_fragments.simps) (simp add: ready_def Let_def split: sum.splits)
  then show ?case
    using less by (auto split: sum.splits intro!: keeps_intros conn_keepsD(1) [OF assms])
qed

lemma keeps_bundle_send:
  assumes "conn_keeps I c"
  shows "keeps (local_inv I) (bundle_send bp c bs)"
  unfolding keeps_def
  by (auto simp: bundle_send_def try_now_def ready_def Let_def split: sum.splits
      intro!: keeps_snd [OF keeps_send_fragments [OF assms]] keeps_snd [OF conn_keepsD(1) [OF assms]])

lemma keeps_bundle_recv:
  assumes "conn_keeps I c"
  shows "keeps (local_inv I) (bundle_recv n bp c)"
proof (induction n)
  case (Suc n)
  have "I (snd (recv_bytes c s))" if "I s" for s
    using conn_keepsD(2) [OF assms] that by (simp add: keeps_def)
  with Suc show ?case
    by (auto simp: keeps_def try_await_def split: prod.splits poll.splits sum.splits option.splits)
qed (simp add: keeps_def)

lemma conn_keeps_bundle:
  "conn_keeps I c \<Longrightarrow> conn_keeps (local_inv I) (bundle_connection n bp c)"
  by (simp add: conn_keeps_def bundle_connection_def keeps_bundle_send keeps_bundle_recv
      keeps_on_snd_local)

lemma keeps_initiate:
  assumes "conn_keeps I c"
  shows "keeps I (initiate h sn ident c rk e)"
  by (auto simp: initiate_def split: option.splits
      intro!: keeps_intros conn_keepsD [OF assms] simp: case_prod_beta)

lemma keeps_respond:
  assumes "conn_keeps I c"
  shows "keeps I (respond h sn ident c e)"
  by (auto simp: respond_def case_prod_beta intro!: keeps_intros conn_keepsD [OF assms])

lemma keeps_session_send:
  assumes "conn_keeps I c"
  shows "keeps (local_inv I) (session_send sn c m)"
  using conn_keepsD(1) [OF assms]
  by (auto simp: keeps_def session_send_def split: sum.splits)

lemma keeps_session_recv:
  assumes "conn_keeps I c"
  shows "keeps (local_inv I) (session_recv sn c)"
  using conn_keepsD(2) [OF assms]
  by (auto simp: keeps_def session_recv_def try_await_def split: prod.splits poll.splits sum.splits)

lemma keeps_session_close:
  "conn_keeps I c \<Longrightarrow> keeps (local_inv I) (session_close c)"
  by (simp add: session_close_def conn_keepsD keeps_on_snd_local)

section \<open>What a future returns\<close>

definition returns :: "('a \<Rightarrow> bool) \<Rightarrow> ('a result, 's) future \<Rightarrow> bool" where
  "returns P m \<longleftrightarrow> (\<forall>s a s'. m s = (Ready (Inr a), s') \<longrightarrow> P a)"

named_theorems returns_intros

lemma returns_ready [returns_intros]: "(\<And>a. r = Inr a \<Longrightarrow> P a) \<Longrightarrow> returns P (ready r)"
  by (simp add: returns_def ready_def)

lemma returns_try_now [returns_intros]: "(\<And>a. returns P (f a)) \<Longrightarrow> returns P (try_now r f)"
  by (auto simp: returns_def try_now_def split: sum.splits)

lemma returns_try_await [returns_intros]: "(\<And>a. returns P (f a)) \<Longrightarrow> returns P (try_await m f)"
  by (auto simp: returns_def try_await_def split: prod.splits poll.splits sum.splits)

text \<open>Every session names its peer by the hash of the peer's key.\<close>

definition session_wf :: "(bytes \<Rightarrow> bytes32) \<Rightarrow> 't Session \<Rightarrow> bool" where
  "session_wf h ses \<longleftrightarrow>
     session_peer_id ses = peer_id_from_public_key h (bytes_of (remote_static_key ses))"

lemma finish_wf: "finish h sn st = Inr ses \<Longrightarrow> session_wf h ses"
  by (auto simp: finish_def session_wf_def split: option.splits sum.splits)

lemma initiate_wf: "returns (session_wf h) (initiate h sn ident c rk e)"
  by (auto simp: initiate_def case_prod_beta split: option.splits
      intro!: returns_intros dest: finish_wf)

lemma respond_wf: "returns (session_wf h) (respond h sn ident c e)"
  by (auto simp: respond_def case_prod_beta intro!: returns_intros dest: finish_wf)

end
