(* ===== verification/Router.thy ===== *)
theory Router
  imports Node_State "HOL-Library.Multiset" "HOL-Library.Sublist"
begin

text \<open>
  \<open>crates/pathweave-core/src/router.rs\<close>: the choice of transports, \<open>try_connect\<close>, \<open>try_send\<close>,
  \<open>Router::send\<close> with its retries, \<open>Router::connect\<close> and the flooding of key announcements.
\<close>

section \<open>Candidates\<close>

definition MAX_SEND_ATTEMPTS :: nat where
  "MAX_SEND_ATTEMPTS = 3"

definition RETRY_BACKOFF :: duration where
  "RETRY_BACKOFF = 1000"

definition ADDR_EXCHANGE_TIMEOUT :: duration where
  "ADDR_EXCHANGE_TIMEOUT = 2000"

definition ACK_TIMEOUT :: duration where
  "ACK_TIMEOUT = 5000"

definition any_available :: "'w NodeState \<Rightarrow> bool" where
  "any_available s \<longleftrightarrow> list_ex available (transports s)"

text \<open>The pairs of an available transport and an address of its kind.\<close>

definition matching ::
  "('e, 'h, 't, 'w NodeState) Env \<Rightarrow> PeerAnnouncement list \<Rightarrow> 'w NodeState \<Rightarrow> (nat \<times> PeerAnnouncement) list" where
  "matching env anns s =
     concat (map (\<lambda>entry. map (Pair (entry_transport entry))
       (filter (\<lambda>ann. kind (address ann) = transport_kind (transport env (entry_transport entry))) anns))
       (filter available (transports s)))"

definition sort_candidates ::
  "('e, 'h, 't, 'w NodeState) Env \<Rightarrow> 'w NodeState \<Rightarrow> (nat \<times> PeerAnnouncement) list \<Rightarrow>
     (nat \<times> PeerAnnouncement) list" where
  "sort_candidates env s = sort_key (\<lambda>(n, _). cost_key (transport_cost (transport env n) s))"

section \<open>One connection\<close>

text \<open>
  The part \<open>try_connect\<close> and \<open>try_send\<close> have in common after the handshake: the key goes into
  the registry, the local addresses are sent (the result is ignored) and the answer, if it
  comes in time and parses, goes into the peer table under \<open>p\<close>.  Returns the key if it was new.
\<close>

definition record_key :: "'t Session \<Rightarrow> 'w NodeState \<Rightarrow> bytes32 option \<times> 'w NodeState" where
  "record_key ses s =
     (let (is_new, reg) = insert_direct (session_peer_id ses) (remote_static_key ses) (key_registry s) in
      (if is_new then Some (remote_static_key ses) else None, s\<lparr>key_registry := reg\<rparr>))"

definition exchange_addresses ::
  "('e, 'h, 't, 'w NodeState) Env \<Rightarrow> nat \<Rightarrow> (BundleLayer \<times> 'w NodeState) Connection \<Rightarrow> PeerId \<Rightarrow>
     (unit, 't Session \<times> BundleLayer \<times> 'w NodeState) future" where
  "exchange_addresses env n c p =
     await (\<lambda>st. session_send (env_snow env) c
              (encode_addr_exchange (transport_addresses (transport env n) (snd (snd st)))) st) (\<lambda>_.
     await (timeout (lift_runtime (lift_runtime (runtime env))) ADDR_EXCHANGE_TIMEOUT
              (session_recv (env_snow env) c)) (\<lambda>r.
       case r of
         Some (Inr bs) \<Rightarrow>
           (case decode_addr_exchange bs of
              Some addrs \<Rightarrow>
                on_snd (on_snd (modify (\<lambda>s. s\<lparr>peers := upsert_peer_addresses p addrs (peers s)\<rparr>)))
            | None \<Rightarrow> ready ())
       | _ \<Rightarrow> ready ()))"

text \<open>
  A connection through transport \<open>n\<close>, wrapped in a bundle layer, with the ephemeral the
  handshake will use drawn; both are dropped when the function ends.
\<close>

definition with_connection ::
  "('e, 'h, 't, 'w NodeState) Env \<Rightarrow> nat \<Rightarrow> PeerAnnouncement \<Rightarrow>
     ((BundleLayer \<times> 'w NodeState) Connection \<Rightarrow> bytes32 \<Rightarrow> ('a result, BundleLayer \<times> 'w NodeState) future) \<Rightarrow>
     ('a result, 'w NodeState) future" where
  "with_connection env n ann body =
     try_await (transport_connect (transport env n) ann) (\<lambda>raw.
     await (update (draw_ephemeral env)) (\<lambda>ephemeral.
     scoped bundle_new (body (bundle_connection (recv_fuel env) (env_bp7 env) raw) ephemeral)))"

definition try_connect ::
  "('e, 'h, 't, 'w NodeState) Env \<Rightarrow> nat \<Rightarrow> PeerAnnouncement \<Rightarrow> NodeIdentity \<Rightarrow>
     ((PeerId \<times> bytes32 option) result, 'w NodeState) future" where
  "try_connect env n ann ident =
     with_connection env n ann (\<lambda>c ephemeral.
       try_await (initiate (env_blake3 env) (env_snow env) ident c None ephemeral) (\<lambda>ses.
       scoped ses (
         await (on_snd (on_snd (update (record_key ses)))) (\<lambda>learned_key.
         await (exchange_addresses env n c (session_peer_id ses)) (\<lambda>_.
         await (session_close c) (\<lambda>_.
         ready (Inr (session_peer_id ses, learned_key))))))))"

text \<open>A failed handshake with a known key evicts the key, so that the next attempt uses XX.\<close>

definition try_send ::
  "('e, 'h, 't, 'w NodeState) Env \<Rightarrow> nat \<Rightarrow> PeerAnnouncement \<Rightarrow> NodeIdentity \<Rightarrow> bytes \<Rightarrow> u64 \<Rightarrow> PeerId \<Rightarrow>
     (bytes32 option result, 'w NodeState) future" where
  "try_send env n ann ident payload message_id p =
     (\<lambda>s\<^sub>0. let remote_key = registry_get (key_registry s\<^sub>0) p in
     with_connection env n ann (\<lambda>c ephemeral.
       await (initiate (env_blake3 env) (env_snow env) ident c remote_key ephemeral) (\<lambda>r.
       case r of
         Inl e \<Rightarrow>
           await (on_snd (modify (\<lambda>s. if remote_key \<noteq> None
                    then s\<lparr>key_registry := snd (registry_remove p (key_registry s))\<rparr> else s)))
             (\<lambda>_. ready (Inl e))
       | Inr ses \<Rightarrow>
           scoped ses (
             await (on_snd (on_snd (update (record_key ses)))) (\<lambda>learned_key.
             await (exchange_addresses env n c p) (\<lambda>_.
             try_await (session_send (env_snow env) c (u64_to_be_bytes message_id @ payload)) (\<lambda>_.
             await (timeout (lift_runtime (lift_runtime (runtime env))) ACK_TIMEOUT
                      (session_recv (env_snow env) c)) (\<lambda>ack.
               case ack of
                 Some (Inr _) \<Rightarrow> ready (Inr learned_key)
               | Some (Inl e) \<Rightarrow> ready (Inl e)
               | None \<Rightarrow> ready (Inl (Transport ''delivery ACK timed out''))))))))) s\<^sub>0)"

section \<open>Sending with retries\<close>

definition announce_sent ::
  "PeerId \<Rightarrow> TransportKind \<Rightarrow> bytes32 option \<Rightarrow> 'w NodeState \<Rightarrow> 'w NodeState" where
  "announce_sent p k learned_key s =
     (let s' = emit (MessageDelivered p k) s in
      case learned_key of None \<Rightarrow> s' | Some key \<Rightarrow> emit (KeyLearned p key) s')"

text \<open>The inner loop of \<open>send\<close>: true as soon as one candidate has delivered.\<close>

fun send_candidates ::
  "('e, 'h, 't, 'w NodeState) Env \<Rightarrow> (nat \<times> PeerAnnouncement) list \<Rightarrow> NodeIdentity \<Rightarrow> bytes \<Rightarrow> u64 \<Rightarrow> PeerId \<Rightarrow>
     (bool, 'w NodeState) future" where
  "send_candidates env [] ident payload message_id p s = (Ready False, s)"
| "send_candidates env ((n, ann) # cs) ident payload message_id p s =
     await (try_send env n ann ident payload message_id p) (\<lambda>r.
       case r of
         Inr learned_key \<Rightarrow>
           (\<lambda>s'. (Ready True, announce_sent p (transport_kind (transport env n)) learned_key s'))
       | Inl _ \<Rightarrow> send_candidates env cs ident payload message_id p) s"

text \<open>The outer loop, with the number of attempts that are left.\<close>

fun send_attempts ::
  "nat \<Rightarrow> ('e, 'h, 't, 'w NodeState) Env \<Rightarrow> PeerAnnouncement list \<Rightarrow> NodeIdentity \<Rightarrow> bytes \<Rightarrow> u64 \<Rightarrow> PeerId \<Rightarrow>
     (unit result, 'w NodeState) future" where
  "send_attempts 0 env anns ident payload message_id p s = (Ready (Inl DeliveryFailed), s)"
| "send_attempts (Suc attempts) env anns ident payload message_id p s =
     (let candidates = matching env anns s in
      if candidates = [] then (Ready (Inl NoTransportAvailable), s)
      else
        await (send_candidates env (sort_candidates env s candidates) ident payload message_id p) (\<lambda>sent s'.
          if sent then (Ready (Inr ()), s')
          else send_attempts attempts env anns ident payload message_id p
                 (if 0 < attempts then sleep (runtime env) RETRY_BACKOFF s' else s')) s)"

definition router_send ::
  "('e, 'h, 't, 'w NodeState) Env \<Rightarrow> PeerAnnouncement list \<Rightarrow> NodeIdentity \<Rightarrow> bytes \<Rightarrow> PeerId \<Rightarrow> u64 option \<Rightarrow>
     (unit result, 'w NodeState) future" where
  "router_send env anns ident payload p message_id s =
     (if \<not> any_available s then (Ready (Inl NoTransportAvailable), s)
      else
        let (mid, s') = (case message_id of
              Some mid \<Rightarrow> (mid, s)
            | None \<Rightarrow> (let (entropy, s') = getrandom (runtime env) s in (new_message_id entropy, s'))) in
        send_attempts MAX_SEND_ATTEMPTS env anns ident payload mid p s')"

section \<open>Connecting\<close>

fun connect_candidates ::
  "('e, 'h, 't, 'w NodeState) Env \<Rightarrow> (nat \<times> PeerAnnouncement) list \<Rightarrow> NodeIdentity \<Rightarrow>
     (PeerId result, 'w NodeState) future" where
  "connect_candidates env [] ident s = (Ready (Inl NoTransportAvailable), s)"
| "connect_candidates env ((n, ann) # cs) ident s =
     await (try_connect env n ann ident) (\<lambda>r.
       case r of
         Inr (p, learned_key) \<Rightarrow>
           (\<lambda>s'. (Ready (Inr p), case learned_key of None \<Rightarrow> s' | Some key \<Rightarrow> emit (KeyLearned p key) s'))
       | Inl _ \<Rightarrow> connect_candidates env cs ident) s"

definition router_connect ::
  "('e, 'h, 't, 'w NodeState) Env \<Rightarrow> PeerAnnouncement list \<Rightarrow> NodeIdentity \<Rightarrow>
     (PeerId result, 'w NodeState) future" where
  "router_connect env anns ident s =
     connect_candidates env (sort_candidates env s (matching env anns s)) ident s"

definition local_addresses :: "('e, 'h, 't, 'w NodeState) Env \<Rightarrow> 'w NodeState \<Rightarrow> PeerAddress list" where
  "local_addresses env s =
     concat (map (\<lambda>entry. transport_addresses (transport env (entry_transport entry)) s) (transports s))"

section \<open>Flooding a key\<close>

definition MAX_TTL :: u8 where
  "MAX_TTL = 7"

text \<open>
  \<open>join_all\<close>: every send runs, each from the state the ones before it have left; the whole is
  complete when all are.  The results are dropped.
\<close>

fun join_sends ::
  "('e, 'h, 't, 'w NodeState) Env \<Rightarrow> (PeerId \<times> PeerAnnouncement list) list \<Rightarrow> NodeIdentity \<Rightarrow> bytes \<Rightarrow> u64 \<Rightarrow>
     (unit, 'w NodeState) future" where
  "join_sends env [] ident body msg_id s = (Ready (), s)"
| "join_sends env ((p, anns) # ns) ident body msg_id s =
     (let (r, s\<^sub>1) = router_send env anns ident body p (Some msg_id) s;
          (q, s\<^sub>2) = join_sends env ns ident body msg_id s\<^sub>1 in
      (case r of Ready _ \<Rightarrow> q | Pending \<Rightarrow> Pending, s\<^sub>2))"

definition flood_key_announcement ::
  "('e, 'h, 't, 'w NodeState) Env \<Rightarrow> NodeIdentity \<Rightarrow> PeerId \<Rightarrow> PeerId \<Rightarrow> bytes32 \<Rightarrow> (unit, 'w NodeState) future" where
  "flood_key_announcement env ident local_peer_id learned_peer_id learned_key s =
     (let (entropy, s') = getrandom (runtime env) s;
          msg_id = new_message_id entropy;
          body = encode_key_announcement learned_peer_id learned_key MAX_TTL;
          neighbors = filter (\<lambda>(p, _). p \<noteq> learned_peer_id \<and> p \<noteq> local_peer_id) (peers s') in
      join_sends env neighbors ident body msg_id s')"

section \<open>Candidates are what the documentation says\<close>

lemma set_matching:
  "(n, ann) \<in> set (matching env anns s) \<longleftrightarrow>
     (\<exists>entry \<in> set (transports s). available entry \<and> entry_transport entry = n) \<and>
     ann \<in> set anns \<and> kind (address ann) = transport_kind (transport env n)"
  by (auto simp: matching_def)

lemma sort_candidates_sorted:
  "sorted (map (\<lambda>(n, _). cost_key (transport_cost (transport env n) s)) (sort_candidates env s cs))"
  by (simp add: sort_candidates_def)

lemma mset_sort_candidates [simp]: "mset (sort_candidates env s cs) = mset cs"
  by (simp add: sort_candidates_def)

lemma set_sort_candidates [simp]: "set (sort_candidates env s cs) = set cs"
  by (simp add: sort_candidates_def)

section \<open>Invariants of the shared state\<close>

lemma keepsI: "(\<And>s. I s \<Longrightarrow> I (snd (m s))) \<Longrightarrow> keeps I m"
  by (simp add: keeps_def)

lemma returnsD: "returns P m \<Longrightarrow> m s = (Ready (Inr a), s') \<Longrightarrow> P a"
  by (auto simp: returns_def)

lemma keeps_try_await_returns:
  assumes m: "keeps I m" "returns P m" and f: "\<And>a. P a \<Longrightarrow> keeps I (f a)"
  shows "keeps I (try_await m f)"
proof (rule keepsI)
  fix s assume "I s"
  obtain r s' where run: "m s = (r, s')" by (cases "m s")
  with m(1) \<open>I s\<close> have "I s'" by (rule keepsD)
  with run returnsD [OF m(2)] show "I (snd (try_await m f s))"
    by (cases r rule: poll.exhaust [case_names Ready Pending])
       (auto simp: try_await_def split: sum.splits intro!: keeps_snd [OF f])
qed

lemma keeps_await_returns:
  assumes m: "keeps I m" "returns P m" and f: "\<And>a. P a \<Longrightarrow> keeps I (f (Inr a))" "\<And>e. keeps I (f (Inl e))"
  shows "keeps I (await m f)"
proof (rule keepsI)
  fix s assume "I s"
  obtain r s' where run: "m s = (r, s')" by (cases "m s")
  with m(1) \<open>I s\<close> have inv: "I s'" by (rule keepsD)
  show "I (snd (await m f s))"
  proof (cases r)
    case (Ready x)
    show ?thesis
    proof (cases x)
      case (Inl e)
      with run Ready inv show ?thesis by (simp add: await_def keeps_snd [OF f(2)])
    next
      case (Inr a)
      with run Ready inv returnsD [OF m(2)] show ?thesis by (simp add: await_def keeps_snd [OF f(1)])
    qed
  qed (use run inv in \<open>simp add: await_def\<close>)
qed

lemma keeps_yields_conn:
  "yields_conn I m \<Longrightarrow> (\<And>c. conn_keeps I c \<Longrightarrow> keeps I (f c)) \<Longrightarrow> keeps I (try_await m f)"
  by (auto simp: keeps_def yields_conn_def try_await_def split: prod.splits poll.splits sum.splits)

text \<open>
  What an invariant of the shared state has to withstand from the router itself; what comes
  from outside is the rely condition \<open>env_keeps\<close>.
\<close>

locale router_invariant =
  fixes h :: "bytes \<Rightarrow> bytes32" and I :: "'w NodeState \<Rightarrow> bool"
  assumes inv_record: "I s \<Longrightarrow>
      I (s\<lparr>key_registry := snd (insert_direct (peer_id_from_public_key h (bytes_of k)) k (key_registry s))\<rparr>)"
    and inv_evict: "I s \<Longrightarrow> I (s\<lparr>key_registry := snd (registry_remove p (key_registry s))\<rparr>)"
    and inv_upsert: "I s \<Longrightarrow> I (s\<lparr>peers := upsert_peer_addresses p addrs (peers s)\<rparr>)"
    and inv_emit: "I s \<Longrightarrow> I (emit e s)"
begin

lemma keeps_exchange:
  assumes "env_keeps I env" "conn_keeps (local_inv I) c"
  shows "keeps (local_inv (local_inv I)) (exchange_addresses env n c p)"
  unfolding exchange_addresses_def
proof (rule keeps_await)
  show "keeps (local_inv (local_inv I)) (\<lambda>st. session_send (env_snow env) c
      (encode_addr_exchange (transport_addresses (transport env n) (snd (snd st)))) st)"
    by (auto simp: keeps_def intro: keeps_snd [OF keeps_session_send [OF assms(2)]])
next
  fix r :: "unit result"
  show "keeps (local_inv (local_inv I))
      (await (timeout (lift_runtime (lift_runtime (runtime env))) ADDR_EXCHANGE_TIMEOUT (session_recv (env_snow env) c))
        (\<lambda>r. case r of Some (Inr bs) \<Rightarrow>
               (case decode_addr_exchange bs of
                  Some addrs \<Rightarrow> on_snd (on_snd (modify (\<lambda>s. s\<lparr>peers := upsert_peer_addresses p addrs (peers s)\<rparr>)))
                | None \<Rightarrow> ready ())
             | _ \<Rightarrow> ready ()))"
    using env_keepsD(2) [OF assms(1)]
    by (auto intro!: keeps_intros keeps_session_recv [OF assms(2)] inv_upsert
        simp: lift_runtime_def split: option.splits sum.splits)
qed

lemma keeps_with_connection:
  assumes "env_keeps I env"
    and "\<And>c e. conn_keeps (local_inv I) c \<Longrightarrow> keeps (local_inv I) (body c e)"
  shows "keeps I (with_connection env n ann body)"
  unfolding with_connection_def
proof (rule keeps_yields_conn)
  show "yields_conn I (transport_connect (transport env n) ann)"
    using env_keepsD(1) [OF assms(1)] by (simp add: transport_keeps_def)
next
  fix raw assume "conn_keeps I raw"
  then show "keeps I (await (update (draw_ephemeral env)) (\<lambda>ephemeral.
      scoped bundle_new (body (bundle_connection (recv_fuel env) (env_bp7 env) raw) ephemeral)))"
    using env_keepsD(4) [OF assms(1)]
    by (intro keeps_intros assms(2) conn_keeps_bundle) auto
qed

lemma keeps_record:
  "session_wf h ses \<Longrightarrow> keeps (local_inv (local_inv I)) (on_snd (on_snd (update (record_key ses))))"
  using inv_record by (auto intro!: keeps_intros simp: record_key_def session_wf_def case_prod_beta)

lemma keeps_try_connect:
  assumes "env_keeps I env" "env_blake3 env = h"
  shows "keeps I (try_connect env n ann ident)"
  unfolding try_connect_def
proof (rule keeps_with_connection [OF assms(1)])
  fix c :: "(BundleLayer \<times> 'w NodeState) Connection" and e
  assume c: "conn_keeps (local_inv I) c"
  show "keeps (local_inv I) (try_await (initiate (env_blake3 env) (env_snow env) ident c None e) (\<lambda>ses.
      scoped ses (
         await (on_snd (on_snd (update (record_key ses)))) (\<lambda>learned_key.
         await (exchange_addresses env n c (session_peer_id ses)) (\<lambda>_.
         await (session_close c) (\<lambda>_.
         ready (Inr (session_peer_id ses, learned_key))))))))"
    by (rule keeps_try_await_returns [OF keeps_initiate [OF c] initiate_wf])
       (intro keeps_scoped keeps_await keeps_record keeps_exchange [OF assms(1) c]
          keeps_session_close [OF c] keeps_ready; simp add: assms(2))
qed

lemma keeps_deliver:
  assumes env: "env_keeps I env" and c: "conn_keeps (local_inv I) c"
  shows "keeps (local_inv (local_inv I))
    (await (exchange_addresses env n c p) (\<lambda>_.
     try_await (session_send (env_snow env) c m) (\<lambda>_.
     await (timeout (lift_runtime (lift_runtime (runtime env))) ACK_TIMEOUT (session_recv (env_snow env) c)) (\<lambda>ack.
       case ack of
         Some (Inr _) \<Rightarrow> ready (Inr learned_key)
       | Some (Inl e) \<Rightarrow> ready (Inl e)
       | None \<Rightarrow> ready (Inl (Transport ''delivery ACK timed out''))))))"
  using env_keepsD(2) [OF env]
  by (intro keeps_await keeps_try_await keeps_exchange [OF env c] keeps_session_send [OF c]
      keeps_timeout keeps_session_recv [OF c])
     (auto simp: lift_runtime_def split: option.splits sum.splits intro!: keeps_ready)

lemma keeps_try_send:
  assumes "env_keeps I env" "env_blake3 env = h"
  shows "keeps I (try_send env n ann ident payload mid p)"
proof (rule keepsI)
  fix s assume "I s"
  then show "I (snd (try_send env n ann ident payload mid p s))"
    unfolding try_send_def Let_def
  proof (rule keeps_snd [OF keeps_with_connection [OF assms(1)], rotated])
    fix c :: "(BundleLayer \<times> 'w NodeState) Connection" and e
    assume c: "conn_keeps (local_inv I) c"
    let ?rk = "registry_get (key_registry s) p"
    show "keeps (local_inv I) (await (initiate (env_blake3 env) (env_snow env) ident c ?rk e) (\<lambda>r.
       case r of
         Inl e \<Rightarrow>
           await (on_snd (modify (\<lambda>s. if ?rk \<noteq> None
                    then s\<lparr>key_registry := snd (registry_remove p (key_registry s))\<rparr> else s)))
             (\<lambda>_. ready (Inl e))
       | Inr ses \<Rightarrow>
           scoped ses (
             await (on_snd (on_snd (update (record_key ses)))) (\<lambda>learned_key.
             await (exchange_addresses env n c p) (\<lambda>_.
             try_await (session_send (env_snow env) c (u64_to_be_bytes mid @ payload)) (\<lambda>_.
             await (timeout (lift_runtime (lift_runtime (runtime env))) ACK_TIMEOUT
                      (session_recv (env_snow env) c)) (\<lambda>ack.
               case ack of
                 Some (Inr _) \<Rightarrow> ready (Inr learned_key)
               | Some (Inl e) \<Rightarrow> ready (Inl e)
               | None \<Rightarrow> ready (Inl (Transport ''delivery ACK timed out'')))))))))"
    proof (rule keeps_await_returns [OF keeps_initiate [OF c] initiate_wf], goal_cases)
      case (1 ses)
      then show ?case
        unfolding sum.case
        by (intro keeps_scoped keeps_await [OF keeps_record] keeps_deliver [OF assms(1) c])
           (simp add: assms(2))
    next
      case (2 err)
      show ?case by (auto intro!: keeps_intros inv_evict)
    qed
  qed
qed

lemma keeps_send_candidates:
  assumes "env_keeps I env" "env_blake3 env = h"
  shows "keeps I (send_candidates env cs ident payload mid p)"
proof (induction cs)
  case (Cons c cs)
  obtain n ann where c: "c = (n, ann)" by (cases c)
  have ok: "keeps I (\<lambda>s'. (Ready True, announce_sent p k learned s'))" for k learned
    by (auto simp: keeps_def announce_sent_def Let_def split: option.splits intro!: inv_emit)
  have "send_candidates env ((n, ann) # cs) ident payload mid p =
      await (try_send env n ann ident payload mid p) (\<lambda>r.
       case r of
         Inr learned_key \<Rightarrow>
           (\<lambda>s'. (Ready True, announce_sent p (transport_kind (transport env n)) learned_key s'))
       | Inl _ \<Rightarrow> send_candidates env cs ident payload mid p)"
    by (rule ext) simp
  then show ?case
    using Cons.IH ok
    by (auto simp: c intro!: keeps_await keeps_try_send [OF assms] split: sum.splits)
qed (simp add: keeps_def)

lemma keeps_send_attempts:
  assumes "env_keeps I env" "env_blake3 env = h"
  shows "keeps I (send_attempts k env anns ident payload mid p)"
proof (induction k)
  case (Suc k)
  show ?case
  proof (rule keepsI)
    fix s assume "I s"
    let ?cs = "sort_candidates env s (matching env anns s)"
    have "keeps I (await (send_candidates env ?cs ident payload mid p) (\<lambda>sent s'.
          if sent then (Ready (Inr ()), s')
          else send_attempts k env anns ident payload mid p
                 (if 0 < k then sleep (runtime env) RETRY_BACKOFF s' else s')))"
    proof (rule keeps_await [OF keeps_send_candidates [OF assms]])
      fix sent
      show "keeps I (\<lambda>s'. if sent then (Ready (Inr ()), s')
          else send_attempts k env anns ident payload mid p
                 (if 0 < k then sleep (runtime env) RETRY_BACKOFF s' else s'))"
        using env_keepsD(2) [OF assms(1)]
        by (auto simp: sleep_def intro!: keepsI keeps_snd [OF Suc])
    qed
    with \<open>I s\<close> show "I (snd (send_attempts (Suc k) env anns ident payload mid p s))"
      by (auto simp: Let_def dest: keeps_snd)
  qed
qed (simp add: keeps_def)

lemma keeps_router_send:
  assumes "env_keeps I env" "env_blake3 env = h"
  shows "keeps I (router_send env anns ident payload p mid)"
  unfolding router_send_def
  using env_keepsD(3) [OF assms(1)]
  by (auto simp: case_prod_beta Let_def split: option.splits
      intro!: keepsI keeps_snd [OF keeps_send_attempts [OF assms]])

lemma send_candidates_announces:
  assumes env: "env_keeps I env" "env_blake3 env = h"
  shows "I s \<Longrightarrow> send_candidates env cs ident payload mid p s = (Ready True, s') \<Longrightarrow>
    \<exists>k learned s\<^sub>1. I s\<^sub>1 \<and> s' = announce_sent p k learned s\<^sub>1"
proof (induction cs arbitrary: s)
  case (Cons c cs)
  obtain n ann where c: "c = (n, ann)" by (cases c)
  obtain r s\<^sub>1 where run: "try_send env n ann ident payload mid p s = (Ready r, s\<^sub>1)"
    using Cons.prems(2) by (auto simp: c await_def split: prod.splits poll.splits)
  then have "I s\<^sub>1" by (rule keepsD [OF keeps_try_send [OF env] Cons.prems(1)])
  with Cons run show ?case by (cases r) (auto simp: c await_def)
qed simp

lemma send_attempts_announces:
  assumes env: "env_keeps I env" "env_blake3 env = h"
  shows "I s \<Longrightarrow> send_attempts k env anns ident payload mid p s = (Ready (Inr ()), s') \<Longrightarrow>
    \<exists>k learned s\<^sub>1. I s\<^sub>1 \<and> s' = announce_sent p k learned s\<^sub>1"
proof (induction k arbitrary: s)
  case (Suc k)
  let ?cs = "sort_candidates env s (matching env anns s)"
  obtain sent s\<^sub>1 where run: "send_candidates env ?cs ident payload mid p s = (Ready sent, s\<^sub>1)"
    using Suc.prems(2) by (auto simp: await_def Let_def split: prod.splits poll.splits if_splits)
  then have inv: "I s\<^sub>1" by (rule keepsD [OF keeps_send_candidates [OF env] Suc.prems(1)])
  show ?case
  proof (cases sent)
    case True
    with Suc.prems run send_candidates_announces [OF env Suc.prems(1)] show ?thesis
      by (auto simp: await_def Let_def split: if_splits)
  next
    case False
    let ?s = "if 0 < k then sleep (runtime env) RETRY_BACKOFF s\<^sub>1 else s\<^sub>1"
    have "I ?s" using inv env_keepsD(2) [OF env(1)] by (simp add: sleep_def)
    moreover have "send_attempts k env anns ident payload mid p ?s = (Ready (Inr ()), s')"
      using Suc.prems(2) run False by (auto simp: await_def Let_def split: if_splits)
    ultimately show ?thesis by (rule Suc.IH)
  qed
qed simp

lemma router_send_announces:
  assumes env: "env_keeps I env" "env_blake3 env = h" and "I s"
    and "router_send env anns ident payload p (Some mid) s = (Ready (Inr ()), s')"
  shows "\<exists>k learned s\<^sub>1. I s\<^sub>1 \<and> s' = announce_sent p k learned s\<^sub>1"
  using assms(3,4) send_attempts_announces [OF env] by (auto simp: router_send_def split: if_splits)

lemma keeps_connect_candidates:
  assumes "env_keeps I env" "env_blake3 env = h"
  shows "keeps I (connect_candidates env cs ident)"
proof (induction cs)
  case (Cons c cs)
  obtain n ann where c: "c = (n, ann)" by (cases c)
  have ok: "keeps I (\<lambda>s'. (Ready (Inr p), case learned of None \<Rightarrow> s' | Some key \<Rightarrow> emit (KeyLearned p key) s'))"
    for p :: PeerId and learned
    by (auto simp: keeps_def split: option.splits intro!: inv_emit)
  have "connect_candidates env ((n, ann) # cs) ident =
      await (try_connect env n ann ident) (\<lambda>r.
       case r of
         Inr (p, learned_key) \<Rightarrow>
           (\<lambda>s'. (Ready (Inr p), case learned_key of None \<Rightarrow> s' | Some key \<Rightarrow> emit (KeyLearned p key) s'))
       | Inl _ \<Rightarrow> connect_candidates env cs ident)"
    by (rule ext) simp
  then show ?case
    using Cons.IH ok
    by (auto simp: c intro!: keeps_await keeps_try_connect [OF assms] split: sum.splits)
qed (simp add: keeps_def)

lemma keeps_router_connect:
  assumes "env_keeps I env" "env_blake3 env = h"
  shows "keeps I (router_connect env anns ident)"
  unfolding router_connect_def
  by (rule keepsI) (rule keeps_snd [OF keeps_connect_candidates [OF assms]])

lemma keeps_join_sends:
  assumes "env_keeps I env" "env_blake3 env = h"
  shows "keeps I (join_sends env ns ident body mid)"
proof (induction ns)
  case (Cons n ns)
  then show ?case
    by (cases n) (auto simp: case_prod_beta Let_def
        intro!: keepsI keeps_snd [OF Cons.IH] keeps_snd [OF keeps_router_send [OF assms]])
qed (simp add: keeps_def)

lemma keeps_flood:
  assumes "env_keeps I env" "env_blake3 env = h"
  shows "keeps I (flood_key_announcement env ident l p k)"
  unfolding flood_key_announcement_def
  by (rule keepsI) (simp add: case_prod_beta Let_def env_keepsD(3) [OF assms(1)]
      keeps_snd [OF keeps_join_sends [OF assms]])

end

section \<open>Invariants the router keeps\<close>

text \<open>Every key in the registry hashes to the peer id it is stored under.\<close>

definition certified :: "(bytes \<Rightarrow> bytes32) \<Rightarrow> 'w NodeState \<Rightarrow> bool" where
  "certified h s \<longleftrightarrow> registry_inv (key_registry s) \<and>
     (\<forall>p k. registry_get (key_registry s) p = Some k \<longrightarrow> p = peer_id_from_public_key h (bytes_of k))"

text \<open>The peer table is a map, and no peer has an address twice.\<close>

definition table_ok :: "'w NodeState \<Rightarrow> bool" where
  "table_ok s \<longleftrightarrow> hm_wf (peers s) \<and> addresses_distinct (peers s)"

lemma hm_wf_upsert: "hm_wf m \<Longrightarrow> hm_wf (upsert_peer_addresses p addrs m)"
  by (simp add: upsert_peer_addresses_def)

interpretation certified: router_invariant h "certified h" for h
  by unfold_locales
     (auto simp: certified_def emit_def inv_intros split: if_splits)

interpretation table: router_invariant h table_ok for h
  by unfold_locales
     (auto simp: table_ok_def emit_def hm_wf_upsert inv_intros)

interpretation event_history: router_invariant h "\<lambda>s. prefix log (event_log s)" for h log
  by unfold_locales (auto simp: emit_def)

section \<open>Outcomes of a send\<close>

text \<open>
  The state \<open>s'\<close> is what a successful \<open>try_send\<close> to one of the candidates leaves, with its
  events announced.
\<close>

definition sent_via ::
  "('e, 'h, 't, 'w NodeState) Env \<Rightarrow> (nat \<times> PeerAnnouncement) set \<Rightarrow> NodeIdentity \<Rightarrow> bytes \<Rightarrow> u64 \<Rightarrow> PeerId \<Rightarrow>
     'w NodeState \<Rightarrow> bool" where
  "sent_via env cs ident payload mid p s' \<longleftrightarrow>
     (\<exists>(n, ann) \<in> cs. \<exists>learned s\<^sub>0 s\<^sub>1.
        try_send env n ann ident payload mid p s\<^sub>0 = (Ready (Inr learned), s\<^sub>1) \<and>
        s' = announce_sent p (transport_kind (transport env n)) learned s\<^sub>1)"

lemma sent_via_mono:
  "sent_via env cs ident payload mid p s' \<Longrightarrow> cs \<subseteq> cs' \<Longrightarrow> sent_via env cs' ident payload mid p s'"
  unfolding sent_via_def by blast

lemma send_candidates_sent:
  "send_candidates env cs ident payload mid p s = (Ready True, s') \<Longrightarrow>
     sent_via env (set cs) ident payload mid p s'"
proof (induction cs arbitrary: s)
  case (Cons c cs)
  obtain n ann where c: "c = (n, ann)" by (cases c)
  obtain r s\<^sub>1 where run: "try_send env n ann ident payload mid p s = (Ready r, s\<^sub>1)"
    using Cons.prems by (auto simp: c await_def split: prod.splits poll.splits)
  show ?case
  proof (cases r)
    case (Inl e)
    with Cons.prems run have "send_candidates env cs ident payload mid p s\<^sub>1 = (Ready True, s')"
      by (simp add: c await_def)
    from Cons.IH [OF this] show ?thesis by (rule sent_via_mono) auto
  next
    case (Inr learned)
    with Cons.prems run c show ?thesis by (auto simp: await_def sent_via_def)
  qed
qed simp

text \<open>The candidates an attempt can use: of the given addresses and of matching kind.\<close>

definition usable :: "('e, 'h, 't, 'w NodeState) Env \<Rightarrow> PeerAnnouncement list \<Rightarrow> (nat \<times> PeerAnnouncement) set" where
  "usable env anns = {(n, ann). ann \<in> set anns \<and> kind (address ann) = transport_kind (transport env n)}"

lemma matching_usable: "set (matching env anns s) \<subseteq> usable env anns"
  by (auto simp: usable_def set_matching)

lemma send_attempts_outcome:
  "send_attempts k env anns ident payload mid p s = (Ready r, s') \<Longrightarrow>
     r = Inl NoTransportAvailable \<or> r = Inl DeliveryFailed \<or>
     r = Inr () \<and> sent_via env (usable env anns) ident payload mid p s'"
proof (induction k arbitrary: s)
  case (Suc k)
  show ?case
  proof (cases "matching env anns s = []")
    case False
    let ?cs = "sort_candidates env s (matching env anns s)"
    obtain sent s\<^sub>1 where run: "send_candidates env ?cs ident payload mid p s = (Ready sent, s\<^sub>1)"
      using Suc.prems False by (auto simp: await_def Let_def split: prod.splits poll.splits)
    show ?thesis
    proof (cases sent)
      case True
      with Suc.prems False run have "r = Inr ()" "s' = s\<^sub>1" by (auto simp: await_def Let_def)
      moreover from run True have "send_candidates env ?cs ident payload mid p s = (Ready True, s\<^sub>1)" by simp
      then have "sent_via env (usable env anns) ident payload mid p s\<^sub>1"
        by (rule sent_via_mono [OF send_candidates_sent]) (simp add: matching_usable)
      ultimately show ?thesis by simp
    next
      case unsent: False
      with Suc.prems False run show ?thesis
        by (intro Suc.IH) (auto simp: await_def Let_def)
    qed
  qed (use Suc.prems in \<open>simp\<close>)
qed simp

lemma router_send_outcome:
  assumes "router_send env anns ident payload p mid s = (Ready r, s')"
  shows "r = Inl NoTransportAvailable \<or> r = Inl DeliveryFailed \<or>
     r = Inr () \<and> (\<exists>m. (mid = Some m \<or> mid = None \<and> (\<exists>entropy. m = new_message_id entropy)) \<and>
       sent_via env (usable env anns) ident payload m p s')"
proof (cases "any_available s")
  case True
  then obtain m t where m: "mid = Some m \<or> mid = None \<and> (\<exists>entropy. m = new_message_id entropy)"
      "send_attempts MAX_SEND_ATTEMPTS env anns ident payload m p t = (Ready r, s')"
    using assms by (cases mid) (auto simp: router_send_def case_prod_beta)
  from send_attempts_outcome [OF m(2)] m(1) show ?thesis by blast
qed (use assms in \<open>simp add: router_send_def\<close>)

section \<open>A scripted environment\<close>

text \<open>
  A transport whose connections answer from a script, whoever is dialled: the instance on
  which the properties are evaluated.  A bundle of \<open>plain_bp7\<close> has 32 bytes of header, a
  message of \<open>plain_snow\<close> a tag of 16 bytes.
\<close>

definition script_connection :: "bytes list NodeState Connection" where
  "script_connection =
     \<lparr>send_bytes = (\<lambda>_ s. (Ready (Inr ()), s)),
      recv_bytes = (\<lambda>s. case world s of [] \<Rightarrow> (Pending, s) | b # rest \<Rightarrow> (Ready (Inr b), s\<lparr>world := rest\<rparr>)),
      close_conn = (\<lambda>s. (Ready (Inr ()), s)), mtu = 0\<rparr>"

definition script_transport :: "bytes list NodeState Transport" where
  "script_transport =
     \<lparr>transport_kind = KQuic, transport_cost = (\<lambda>_. Metered),
      transport_connect = (\<lambda>_ s. (Ready (Inr script_connection), s)),
      transport_accept = (\<lambda>s. (Ready (Inr script_connection), s)),
      transport_start = (\<lambda>_ s. (Ready (Inr ()), s)), transport_stop = (\<lambda>s. (Ready (Inr ()), s)),
      transport_addresses = (\<lambda>_. [])\<rparr>"

definition first_byte_hash :: "bytes \<Rightarrow> bytes32" where
  "first_byte_hash bs = fill_array (hd bs)"

definition script_env :: "(bool, bytes \<times> bytes32 option, unit, bytes list NodeState) Env" where
  "script_env =
     \<lparr>env_blake3 = first_byte_hash, env_bp7 = plain_bp7, env_snow = plain_snow,
      runtime = \<lparr>now = (\<lambda>_. 0), sleep_until = (\<lambda>_ s. s), getrandom = (\<lambda>s. (fill_array 0, s))\<rparr>,
      draw_ephemeral = (\<lambda>s. (fill_array 0, s)), transport = (\<lambda>_. script_transport),
      show_id = (\<lambda>_. []), recv_fuel = 1\<rparr>"

definition script_state :: "bytes list \<Rightarrow> bytes list NodeState" where
  "script_state script =
     \<lparr>transports = [\<lparr>entry_transport = 0, available = True\<rparr>], event_log = [],
      key_registry = registry_new None, peers = [], known_addrs = {}, dedup = dedup_new,
      handler = True, delivered = [], pending_direct = [], pending_routed = [], relay_tasks = [],
      world = script\<rparr>"

text \<open>The raw bundle and the session message that carry given bytes.\<close>

abbreviation raw_bundle :: "bytes \<Rightarrow> bytes" where
  "raw_bundle b \<equiv> replicate 32 0 @ b"

abbreviation raw_message :: "bytes \<Rightarrow> bytes" where
  "raw_message b \<equiv> replicate 32 0 @ b @ replicate 16 0"

definition script_conn :: "(BundleLayer \<times> bytes list NodeState) Connection" where
  "script_conn = bundle_connection 1 plain_bp7 script_connection"

lemma script_recv [simp]:
  assumes "world s = raw_bundle b # rest"
  shows "recv_bytes script_conn (bl, s) = (Ready (Inr b), (bl, s\<lparr>world := rest\<rparr>))"
proof -
  have "decode plain_bp7 (raw_bundle b) = Inr \<lparr>view_flags = 0, view_seqno = 0, view_offset = 0,
      view_total = 0, view_payload = Some b\<rparr>"
    by (simp add: plain_bp7_def u64_from_be_bytes_def be_to_nat_def numeral_eq_Suc)
  then show ?thesis
    using assms
    by (simp add: script_conn_def bundle_connection_def script_connection_def try_await_def absorb_def)
qed

lemma script_send [simp]:
  "send_bytes script_conn b (bl, s) = (Ready (Inr ()), (bl\<lparr>seq := seq bl + 1\<rparr>, s))"
  by (simp add: script_conn_def bundle_connection_def bundle_send_def pw_eid_def bundle_err_def plain_bp7_def
      whole_primary_def try_now_def script_connection_def Let_def)


lemma script_session_recv [simp]:
  assumes "world s = raw_message b # rest"
  shows "session_recv plain_snow script_conn (ses, (bl, s)) = (Ready (Inr b), (ses, (bl, s\<lparr>world := rest\<rparr>)))"
  using script_recv [of s "b @ replicate 16 0" rest bl] assms
  by (simp add: session_recv_def try_await_def) (simp add: plain_snow_def)

lemma script_session_send:
  assumes "length b \<le> 1000"
  shows "session_send plain_snow script_conn b (ses, (bl, s)) = (Ready (Inr ()), (ses, (bl\<lparr>seq := seq bl + 1\<rparr>, s)))"
  using assms
  by (simp add: session_send_def plain_snow_def NOISE_MSG_MAX_def session_err_def)

lemma script_initiate:
  assumes "world s = raw_bundle (bytes_of key) # rest" "length (private_key ident) = 32"
  shows "initiate first_byte_hash plain_snow ident script_conn rk e (bl, s) =
    (Ready (Inr \<lparr>session_peer_id = peer_id_from_public_key first_byte_hash (bytes_of key),
        remote_static_key = key, transport_state = ()\<rparr>),
     (bl\<lparr>seq := seq bl + 3\<rparr>, s\<lparr>world := rest\<rparr>))"
  using script_recv [OF assms(1)] assms(2)
  by (cases rk) (simp_all add: initiate_def try_await_def plain_snow_def session_err_def NOISE_MSG_MAX_def
      finish_def ready_def)

lemma script_env_simps [simp]:
  "env_blake3 script_env = first_byte_hash" "env_snow script_env = plain_snow"
  "bundle_connection (recv_fuel script_env) (env_bp7 script_env) script_connection = script_conn"
  "transport_connect (transport script_env n) ann s = (Ready (Inr script_connection), s)"
  "transport_kind (transport script_env n) = KQuic"
  "transport_addresses (transport script_env n) s = []"
  "draw_ephemeral script_env s = (fill_array 0, s)"
  by (simp_all add: script_env_def script_conn_def script_transport_def)

lemma script_try_send:
  assumes "world s = [raw_bundle (bytes_of key), raw_message a, raw_message b]"
    and "decode_addr_exchange a = None" "length (private_key ident) = 32" "length payload \<le> 900"
  shows "try_send script_env n ann ident payload mid p s =
    (Ready (Inr (fst (record_key \<lparr>session_peer_id = peer_id_from_public_key first_byte_hash (bytes_of key),
        remote_static_key = key, transport_state = ()\<rparr> s))),
     (snd (record_key \<lparr>session_peer_id = peer_id_from_public_key first_byte_hash (bytes_of key),
        remote_static_key = key, transport_state = ()\<rparr> s))\<lparr>world := []\<rparr>)"
proof -
  let ?ses = "\<lparr>session_peer_id = peer_id_from_public_key first_byte_hash (bytes_of key),
        remote_static_key = key, transport_state = ()\<rparr>"
  have "world (snd (record_key ?ses (s\<lparr>world := w\<rparr>))) = w"
    "fst (record_key ?ses (s\<lparr>world := w\<rparr>)) = fst (record_key ?ses s)"
    "(snd (record_key ?ses (s\<lparr>world := w\<rparr>)))\<lparr>world := v\<rparr> = (snd (record_key ?ses s))\<lparr>world := v\<rparr>" for w v
    by (simp_all add: record_key_def case_prod_beta)
  moreover have "length (encode_addr_exchange []) \<le> 1000" "length (u64_to_be_bytes mid @ payload) \<le> 1000"
    using assms(4) by (simp_all add: encode_addr_exchange_def ADDR_EXCHANGE_CTRL_def)
  ultimately show ?thesis
    using assms(1,2) script_initiate [of s key "[raw_message a, raw_message b]" ident] assms(3)
    by (simp add: try_send_def with_connection_def try_await_def await_def update_apply scoped_apply
        exchange_addresses_def timeout_def script_session_send ready_def)
qed

lemma script_router_send:
  assumes "kind (address ann) = KQuic" "length (private_key ident) = 32" "length payload \<le> 900"
    and "decode_addr_exchange a = None"
  shows "\<exists>s'. router_send script_env [ann] ident payload p (Some mid)
      (script_state [raw_bundle (bytes_of key), raw_message a, raw_message b]) = (Ready (Inr ()), s') \<and>
    event_log s' = [MessageDelivered p KQuic, KeyLearned p key] \<and>
    registry_get (key_registry s') = [peer_id_from_public_key first_byte_hash (bytes_of key) \<mapsto> key]"
proof -
  let ?s = "script_state [raw_bundle (bytes_of key), raw_message a, raw_message b]"
  let ?ses = "\<lparr>session_peer_id = peer_id_from_public_key first_byte_hash (bytes_of key),
        remote_static_key = key, transport_state = ()\<rparr>"
  have "matching script_env [ann] ?s = [(0, ann)]"
    using assms(1) by (simp add: matching_def script_state_def)
  moreover have "try_send script_env 0 ann ident payload mid p ?s =
      (Ready (Inr (fst (record_key ?ses ?s))), (snd (record_key ?ses ?s))\<lparr>world := []\<rparr>)"
    by (rule script_try_send [OF _ assms(4,2,3)]) (simp add: script_state_def)
  moreover have "fst (record_key ?ses ?s) = Some key"
    "event_log ((snd (record_key ?ses ?s))\<lparr>world := []\<rparr>) = []"
    "registry_get (key_registry ((snd (record_key ?ses ?s))\<lparr>world := []\<rparr>)) =
       [peer_id_from_public_key first_byte_hash (bytes_of key) \<mapsto> key]"
    by (simp_all add: record_key_def case_prod_beta script_state_def)
       (simp add: insert_direct_def registry_new_def, rule ext, simp)
  moreover have "any_available ?s"
    by (simp add: any_available_def script_state_def)
  ultimately show ?thesis
    by (simp add: router_send_def MAX_SEND_ATTEMPTS_def numeral_3_eq_3 sort_candidates_def await_def
        announce_sent_def emit_def Let_def)
qed

section \<open>Properties\<close>






end
