(* ===== verification/Dispatch.thy ===== *)
theory Dispatch
  imports Router
begin

text \<open>
  The receiving side of \<open>crates/pathweave-core/src/node.rs\<close>: \<open>handle_incoming\<close>, the dispatch of
  a payload by its route flag (direct, routed, key announcement, sealed) and the relaying to
  neighbours.
\<close>

section \<open>Delivery and relaying\<close>

text \<open>Calling the handler, when one is registered.\<close>

definition deliver :: "PeerId \<Rightarrow> bytes \<Rightarrow> 'w NodeState \<Rightarrow> 'w NodeState" where
  "deliver p msg s = (if handler s then s\<lparr>delivered := delivered s @ [(p, msg)]\<rparr> else s)"

definition spawn_relay_to_neighbors ::
  "bytes \<Rightarrow> u64 \<Rightarrow> PeerId \<Rightarrow> PeerId \<Rightarrow> 'w NodeState \<Rightarrow> 'w NodeState" where
  "spawn_relay_to_neighbors relay_body msg_id sender local s =
     s\<lparr>relay_tasks := relay_tasks s @
        map (\<lambda>(p, anns). \<lparr>task_peer = p, task_announcements = anns, task_body = relay_body, task_msg_id = msg_id\<rparr>)
          (filter (\<lambda>(p, _). p \<noteq> sender \<and> p \<noteq> local) (peers s))\<rparr>"

section \<open>The route flags\<close>

definition dispatch_direct :: "instant \<Rightarrow> PeerId \<Rightarrow> u64 \<Rightarrow> bytes \<Rightarrow> 'w NodeState \<Rightarrow> 'w NodeState" where
  "dispatch_direct t sender msg_id payload s =
     (let (is_dup, d) = check_and_insert t sender msg_id (dedup s); s' = s\<lparr>dedup := d\<rparr> in
      if \<not> is_dup then deliver sender (drop 9 payload) s' else s')"

definition dispatch_routed ::
  "instant \<Rightarrow> PeerId \<Rightarrow> PeerId \<Rightarrow> u64 \<Rightarrow> bytes \<Rightarrow> 'w NodeState \<Rightarrow> 'w NodeState" where
  "dispatch_routed t sender local msg_id payload s =
     (if length payload < 9 + 32 + 1 then s
      else case array_of (take 32 (drop 9 payload)) of
        None \<Rightarrow> s
      | Some dest_bytes \<Rightarrow>
          let dest = from_bytes dest_bytes;
              ttl = min (payload ! 41) MAX_TTL;
              app_payload = drop 42 payload in
          if dest = local then
            (let (is_dup, d) = check_and_insert_routed t msg_id (dedup s); s' = s\<lparr>dedup := d\<rparr> in
             if \<not> is_dup then deliver sender app_payload s' else s')
          else if ttl = 0 then s
          else
            (let (is_dup, d) = check_and_insert_routed t msg_id (dedup s); s' = s\<lparr>dedup := d\<rparr> in
             if \<not> is_dup then
               spawn_relay_to_neighbors (0x01 # bytes_of (as_bytes dest) @ [ttl - 1] @ app_payload)
                 msg_id sender local s'
             else s'))"

definition dispatch_key_announcement ::
  "(bytes \<Rightarrow> bytes32) \<Rightarrow> instant \<Rightarrow> PeerId \<Rightarrow> PeerId \<Rightarrow> u64 \<Rightarrow> bytes \<Rightarrow> 'w NodeState \<Rightarrow> 'w NodeState" where
  "dispatch_key_announcement h t sender local msg_id payload s =
     (case decode_key_announcement (drop 9 payload) of
        None \<Rightarrow> s
      | Some (announced, key, ttl\<^sub>0) \<Rightarrow>
          if \<not> validate_key_announcement h announced key then s
          else
            (let (is_dup, d) = check_and_insert_routed t msg_id (dedup s); s' = s\<lparr>dedup := d\<rparr> in
             if is_dup then s'
             else
               let s'' = s'\<lparr>key_registry := insert_gossip announced key (key_registry s')\<rparr>;
                   ttl = min ttl\<^sub>0 MAX_TTL in
               if 0 < ttl then
                 spawn_relay_to_neighbors (encode_key_announcement announced key (ttl - 1))
                   msg_id sender local s''
               else s''))"

definition dispatch_sealed ::
  "('e, 'h, 't, 'w NodeState) Env \<Rightarrow> NodeIdentity \<Rightarrow> instant \<Rightarrow> PeerId \<Rightarrow> PeerId \<Rightarrow> u64 \<Rightarrow> bytes \<Rightarrow>
     'w NodeState \<Rightarrow> 'w NodeState" where
  "dispatch_sealed env ident t sender local msg_id payload s =
     (if length payload < 9 + 32 + 1 + 32 then s
      else case (array_of (take 32 (drop 9 payload)), array_of (take 32 (drop 42 payload))) of
        (Some dest_bytes, Some sealed_sender_bytes) \<Rightarrow>
          let dest = from_bytes dest_bytes;
              ttl = min (payload ! 41) MAX_TTL;
              envelope = drop 42 payload;
              sealed_sender = from_bytes sealed_sender_bytes;
              noise_k_message = drop 32 envelope in
          if dest = local then
            (let (is_dup, d) = check_and_insert_routed t msg_id (dedup s); s' = s\<lparr>dedup := d\<rparr> in
             if is_dup then s'
             else case registry_get (key_registry s') sealed_sender of
               Some sender_key \<Rightarrow>
                 (case unseal (env_snow env) (show_id env) ident sealed_sender sender_key noise_k_message of
                    Inr plaintext \<Rightarrow> deliver sealed_sender plaintext s'
                  | Inl _ \<Rightarrow> s')
             | None \<Rightarrow> s')
          else if ttl = 0 then s
          else
            (let (is_dup, d) = check_and_insert_routed t msg_id (dedup s); s' = s\<lparr>dedup := d\<rparr> in
             if \<not> is_dup then
               spawn_relay_to_neighbors (0x03 # bytes_of (as_bytes dest) @ [ttl - 1] @ envelope)
                 msg_id sender local s'
             else s')
      | _ \<Rightarrow> s)"

text \<open>
  What \<open>dispatch_payload\<close> does to the shared state, on every branch; the acknowledgement, an
  empty message, is sent on every branch after it.
\<close>

definition dispatch_state ::
  "('e, 'h, 't, 'w NodeState) Env \<Rightarrow> NodeIdentity \<Rightarrow> PeerId \<Rightarrow> PeerId \<Rightarrow> bytes \<Rightarrow> 'w NodeState \<Rightarrow> 'w NodeState" where
  "dispatch_state env ident sender local payload s =
     (if length payload < 9 then s
      else
        let msg_id = u64_from_be_bytes (take 8 payload);
            route_flag = payload ! 8;
            t = now (runtime env) s in
        if route_flag = 0x00 then dispatch_direct t sender msg_id payload s
        else if route_flag = 0x01 then dispatch_routed t sender local msg_id payload s
        else if route_flag = 0x02 then
          dispatch_key_announcement (env_blake3 env) t sender local msg_id payload s
        else if route_flag = 0x03 then dispatch_sealed env ident t sender local msg_id payload s
        else s)"

definition dispatch_payload ::
  "('e, 'h, 't, 'w NodeState) Env \<Rightarrow> NodeIdentity \<Rightarrow> (BundleLayer \<times> 'w NodeState) Connection \<Rightarrow> PeerId \<Rightarrow> PeerId \<Rightarrow>
     bytes \<Rightarrow> (unit, 't Session \<times> BundleLayer \<times> 'w NodeState) future" where
  "dispatch_payload env ident c sender local payload =
     await (on_snd (on_snd (modify (dispatch_state env ident sender local payload)))) (\<lambda>_.
     await (session_send (env_snow env) c []) (\<lambda>_. ready ()))"

section \<open>Incoming connections\<close>

text \<open>The loop that receives and dispatches until the connection fails, for \<open>n\<close> receptions.\<close>

fun dispatch_loop ::
  "nat \<Rightarrow> ('e, 'h, 't, 'w NodeState) Env \<Rightarrow> NodeIdentity \<Rightarrow> (BundleLayer \<times> 'w NodeState) Connection \<Rightarrow> PeerId \<Rightarrow>
     PeerId \<Rightarrow> (unit, 't Session \<times> BundleLayer \<times> 'w NodeState) future" where
  "dispatch_loop 0 env ident c sender local st = (Pending, st)"
| "dispatch_loop (Suc n) env ident c sender local st =
     await (session_recv (env_snow env) c) (\<lambda>r.
       case r of
         Inl _ \<Rightarrow> ready ()
       | Inr payload \<Rightarrow>
           await (dispatch_payload env ident c sender local payload) (\<lambda>_.
             dispatch_loop n env ident c sender local)) st"

text \<open>The first message: an address exchange, answered, or already the application frame.\<close>

definition first_message ::
  "nat \<Rightarrow> ('e, 'h, 't, 'w NodeState) Env \<Rightarrow> NodeIdentity \<Rightarrow> (BundleLayer \<times> 'w NodeState) Connection \<Rightarrow> PeerId \<Rightarrow>
     PeerId \<Rightarrow> bytes \<Rightarrow> (unit, 't Session \<times> BundleLayer \<times> 'w NodeState) future" where
  "first_message n env ident c sender local msg =
     (let continue = (\<lambda>app_payload.
            await (dispatch_payload env ident c sender local app_payload) (\<lambda>_.
              dispatch_loop n env ident c sender local)) in
      if 8 \<le> length msg \<and> msg ! 0 = 0x00 then
        await (on_snd (on_snd (modify (\<lambda>s.
                 case decode_addr_exchange msg of
                   Some addrs \<Rightarrow> s\<lparr>peers := upsert_peer_addresses sender addrs (peers s)\<rparr>
                 | None \<Rightarrow> s)))) (\<lambda>_.
        await (\<lambda>st. session_send (env_snow env) c
                 (encode_addr_exchange (local_addresses env (snd (snd st)))) st) (\<lambda>_.
        await (session_recv (env_snow env) c) (\<lambda>r.
          case r of Inl _ \<Rightarrow> ready () | Inr app_payload \<Rightarrow> continue app_payload)))
      else continue msg)"

definition handle_incoming ::
  "nat \<Rightarrow> ('e, 'h, 't, 'w NodeState) Env \<Rightarrow> NodeIdentity \<Rightarrow> PeerId \<Rightarrow> 'w NodeState Connection \<Rightarrow>
     (unit, 'w NodeState) future" where
  "handle_incoming n env ident local raw =
     (let c = bundle_connection (recv_fuel env) (env_bp7 env) raw in
      await (update (draw_ephemeral env)) (\<lambda>ephemeral.
      scoped bundle_new (
      await (respond (env_blake3 env) (env_snow env) ident c ephemeral) (\<lambda>r.
        case r of
          Inl _ \<Rightarrow> ready ()
        | Inr ses \<Rightarrow>
            scoped ses (
              await (on_snd (on_snd (update (record_key ses)))) (\<lambda>learned_key.
              await (on_snd (on_snd (modify (\<lambda>s.
                       case learned_key of None \<Rightarrow> s | Some key \<Rightarrow> emit (KeyLearned (session_peer_id ses) key) s)))) (\<lambda>_.
              await (session_recv (env_snow env) c) (\<lambda>r.
                case r of
                  Inl _ \<Rightarrow> ready ()
                | Inr msg \<Rightarrow> first_message n env ident c (session_peer_id ses) local msg))))))))"

section \<open>Invariants under dispatch\<close>

locale node_invariant = router_invariant h I
  for h :: "bytes \<Rightarrow> bytes32" and I :: "'w NodeState \<Rightarrow> bool" +
  assumes inv_gossip: "I s \<Longrightarrow>
      I (s\<lparr>key_registry := insert_gossip (peer_id_from_public_key h (bytes_of k)) k (key_registry s)\<rparr>)"
    and inv_dedup: "I s \<Longrightarrow> I (s\<lparr>dedup := snd (dedup_check t key (dedup s))\<rparr>)"
    and inv_deliver: "I s \<Longrightarrow> I (s\<lparr>delivered := delivered s @ [m]\<rparr>)"
    and inv_relay: "I s \<Longrightarrow> I (s\<lparr>relay_tasks := relay_tasks s @ tasks\<rparr>)"
begin

lemma inv_direct_check: "I s \<Longrightarrow> I (s\<lparr>dedup := snd (check_and_insert t p m (dedup s))\<rparr>)"
  using inv_dedup [of s t "Inl (p, m)"] by (simp add: dedup_check_def)

lemma inv_routed_check: "I s \<Longrightarrow> I (s\<lparr>dedup := snd (check_and_insert_routed t m (dedup s))\<rparr>)"
  using inv_dedup [of s t "Inr m"] by (simp add: dedup_check_def)

lemma inv_deliver_call: "I s \<Longrightarrow> I (deliver p m s)"
  by (simp add: deliver_def inv_deliver)

lemma inv_spawn: "I s \<Longrightarrow> I (spawn_relay_to_neighbors body mid sender local s)"
  by (simp add: spawn_relay_to_neighbors_def inv_relay)

lemmas inv_steps = inv_direct_check inv_routed_check inv_deliver_call inv_spawn

lemma inv_dispatch_direct: "I s \<Longrightarrow> I (dispatch_direct t sender mid payload s)"
  by (simp add: dispatch_direct_def case_prod_beta Let_def inv_steps)

lemma inv_dispatch_routed: "I s \<Longrightarrow> I (dispatch_routed t sender local mid payload s)"
  by (simp add: dispatch_routed_def case_prod_beta Let_def inv_steps split: option.splits)

lemma inv_dispatch_key_announcement:
  assumes "I s"
  shows "I (dispatch_key_announcement h t sender local mid payload s)"
proof -
  have "I (s\<lparr>dedup := snd (check_and_insert_routed t mid (dedup s)),
      key_registry := insert_gossip p k (key_registry s)\<rparr>)" if "validate_key_announcement h p k" for p k
    using inv_gossip [OF inv_routed_check [OF assms, of t mid], of k] that
    by (simp add: validate_key_announcement_def)
  then show ?thesis
    using assms
    by (auto simp: dispatch_key_announcement_def case_prod_beta Let_def inv_steps split: option.splits)
qed

lemma inv_dispatch_sealed: "I s \<Longrightarrow> I (dispatch_sealed env ident t sender local mid payload s)"
  by (simp add: dispatch_sealed_def case_prod_beta Let_def inv_steps split: option.splits sum.splits)

lemma inv_dispatch:
  "I s \<Longrightarrow> env_blake3 env = h \<Longrightarrow> I (dispatch_state env ident sender local payload s)"
  by (simp add: dispatch_state_def Let_def inv_dispatch_direct inv_dispatch_routed
      inv_dispatch_key_announcement inv_dispatch_sealed)

lemma keeps_dispatch_payload:
  assumes "conn_keeps (local_inv I) c" "env_blake3 env = h"
  shows "keeps (local_inv (local_inv I)) (dispatch_payload env ident c sender local payload)"
  unfolding dispatch_payload_def
  by (intro keeps_intros keeps_session_send [OF assms(1)] inv_dispatch [OF _ assms(2)])

lemma keeps_dispatch_loop:
  assumes "conn_keeps (local_inv I) c" "env_blake3 env = h"
  shows "keeps (local_inv (local_inv I)) (dispatch_loop n env ident c sender local)"
proof (induction n)
  case (Suc n)
  have "dispatch_loop (Suc n) env ident c sender local =
      await (session_recv (env_snow env) c) (\<lambda>r.
       case r of
         Inl _ \<Rightarrow> ready ()
       | Inr payload \<Rightarrow>
           await (dispatch_payload env ident c sender local payload) (\<lambda>_.
             dispatch_loop n env ident c sender local))"
    by (rule ext) simp
  then show ?case
    using Suc by (auto intro!: keeps_await keeps_ready keeps_session_recv [OF assms(1)]
        keeps_dispatch_payload [OF assms] split: sum.splits)
qed (simp add: keeps_def)

lemma keeps_first_message:
  assumes "conn_keeps (local_inv I) c" "env_blake3 env = h"
  shows "keeps (local_inv (local_inv I)) (first_message n env ident c sender local msg)"
proof -
  have go: "keeps (local_inv (local_inv I))
      (await (dispatch_payload env ident c sender local m) (\<lambda>_. dispatch_loop n env ident c sender local))" for m
    by (intro keeps_await keeps_dispatch_payload [OF assms] keeps_dispatch_loop [OF assms])
  have answer: "keeps (local_inv (local_inv I)) (\<lambda>st. session_send (env_snow env) c
      (encode_addr_exchange (local_addresses env (snd (snd st)))) st)"
    by (auto simp: keeps_def intro: keeps_snd [OF keeps_session_send [OF assms(1)]])
  have table: "keeps (local_inv (local_inv I)) (on_snd (on_snd (modify (\<lambda>s.
      case decode_addr_exchange msg of
        Some addrs \<Rightarrow> s\<lparr>peers := upsert_peer_addresses sender addrs (peers s)\<rparr> | None \<Rightarrow> s))))"
    by (intro keeps_intros) (auto split: option.splits intro: inv_upsert)
  have next_msg: "keeps (local_inv (local_inv I)) (await (session_recv (env_snow env) c) (\<lambda>r.
      case r of Inl _ \<Rightarrow> ready () | Inr m \<Rightarrow>
        await (dispatch_payload env ident c sender local m) (\<lambda>_. dispatch_loop n env ident c sender local)))"
    using go by (auto intro!: keeps_await keeps_ready keeps_session_recv [OF assms(1)] split: sum.splits)
  show ?thesis
    unfolding first_message_def Let_def
    using go keeps_await [OF table keeps_await [OF answer next_msg]] by (simp split: if_splits)
qed

lemma keeps_handle_incoming:
  assumes env: "env_keeps I env" "env_blake3 env = h" and raw: "conn_keeps I raw"
  shows "keeps I (handle_incoming n env ident local raw)"
proof -
  let ?c = "bundle_connection (recv_fuel env) (env_bp7 env) raw"
  have c: "conn_keeps (local_inv I) ?c"
    by (rule conn_keeps_bundle [OF raw])
  have "keeps (local_inv I) (scoped ses (
      await (on_snd (on_snd (update (record_key ses)))) (\<lambda>learned_key.
      await (on_snd (on_snd (modify (\<lambda>s.
               case learned_key of None \<Rightarrow> s | Some key \<Rightarrow> emit (KeyLearned (session_peer_id ses) key) s)))) (\<lambda>_.
      await (session_recv (env_snow env) ?c) (\<lambda>r.
        case r of
          Inl _ \<Rightarrow> ready ()
        | Inr msg \<Rightarrow> first_message n env ident ?c (session_peer_id ses) local msg)))))"
    if "session_wf (env_blake3 env) ses" for ses
    using that env(2)
    by (intro keeps_scoped keeps_await keeps_record keeps_on_snd_local keeps_modify keeps_session_recv [OF c])
       (auto split: option.splits sum.splits intro!: inv_emit keeps_ready keeps_first_message [OF c])
  then show ?thesis
    unfolding handle_incoming_def Let_def
    by (intro keeps_await keeps_update keeps_scoped env_keepsD(4) [OF env(1)]
        keeps_await_returns [OF keeps_respond [OF c] respond_wf]) (auto intro: keeps_ready)
qed

end

text \<open>The invariants of the router are invariants of the node.\<close>

interpretation certified: node_invariant h "certified h" for h
  by unfold_locales
     (auto simp: certified_def inv_intros dest!: registry.gossip_origin)

interpretation table: node_invariant h table_ok for h
  by unfold_locales (auto simp: table_ok_def)

interpretation event_history: node_invariant h "\<lambda>s. prefix log (event_log s)" for h log
  by unfold_locales auto

interpretation history: node_invariant h
  "\<lambda>s. prefix msgs (delivered s) \<and> prefix tasks (relay_tasks s) \<and> dedup_inv (dedup s)" for h msgs tasks
  by unfold_locales (auto simp: record_key_def emit_def inv_intros)

section \<open>Frames and their relaying\<close>

text \<open>
  A routed frame as it arrives: message id, flag, destination, TTL and body.  A relay task
  sends its body behind the message id, as \<open>try_send\<close> frames it.
\<close>

definition routed_frame :: "u8 \<Rightarrow> u64 \<Rightarrow> PeerId \<Rightarrow> u8 \<Rightarrow> bytes \<Rightarrow> bytes" where
  "routed_frame flag mid dest life body =
     u64_to_be_bytes mid @ [flag] @ bytes_of (as_bytes dest) @ [life] @ body"

definition task_payload :: "RelayTask \<Rightarrow> bytes" where
  "task_payload t = u64_to_be_bytes (task_msg_id t) @ task_body t"

definition new_tasks :: "'w NodeState \<Rightarrow> 'w NodeState \<Rightarrow> RelayTask list" where
  "new_tasks s s' = drop (length (relay_tasks s)) (relay_tasks s')"

lemma routed_frame_parts [wire_simps]:
  "take 8 (routed_frame flag mid dest life body) = u64_to_be_bytes mid"
  "routed_frame flag mid dest life body ! 8 = flag"
  "take 32 (drop 9 (routed_frame flag mid dest life body)) = bytes_of (as_bytes dest)"
  "routed_frame flag mid dest life body ! 41 = life"
  "drop 42 (routed_frame flag mid dest life body) = body"
  "length (routed_frame flag mid dest life body) = 42 + length body"
  by (simp_all add: routed_frame_def nth_append)

lemma frame_eq_routed:
  assumes "42 \<le> length payload" "array_of (take 32 (drop 9 payload)) = Some d"
  shows "payload = routed_frame (payload ! 8) (u64_from_be_bytes (take 8 payload)) (from_bytes d) (payload ! 41) (drop 42 payload)"
proof -
  have "payload = take 8 payload @ drop 8 payload" by simp
  also have "drop 8 payload = payload ! 8 # drop 9 payload"
    using assms(1) Cons_nth_drop_Suc [of 8 payload] by simp
  also have "drop 9 payload = take 32 (drop 9 payload) @ drop 41 payload"
    using append_take_drop_id [of 32 "drop 9 payload"] by simp
  also have "drop 41 payload = payload ! 41 # drop 42 payload"
    using assms(1) Cons_nth_drop_Suc [of 41 payload] by simp
  finally have "payload = take 8 payload @ [payload ! 8] @ take 32 (drop 9 payload) @ [payload ! 41] @ drop 42 payload"
    by simp
  moreover have "u64_to_be_bytes (u64_from_be_bytes (take 8 payload)) = take 8 payload"
    using assms(1) by (intro u64_to_be_from_be) simp
  moreover have "take 32 (drop 9 payload) = bytes_of (as_bytes (from_bytes d))"
    using assms(2) by (simp add: array_of_Some_iff)
  ultimately show ?thesis
    by (simp add: routed_frame_def)
qed

lemma new_tasks_same [simp]: "relay_tasks s' = relay_tasks s \<Longrightarrow> new_tasks s s' = []"
  by (simp add: new_tasks_def)

lemma relay_tasks_deliver [simp]: "relay_tasks (deliver p m s) = relay_tasks s"
  by (simp add: deliver_def)

lemma new_tasks_spawn:
  assumes "relay_tasks s' = relay_tasks s" "peers s' = peers s"
  shows "new_tasks s (spawn_relay_to_neighbors body mid sender local s') =
    map (\<lambda>(p, anns). \<lparr>task_peer = p, task_announcements = anns, task_body = body, task_msg_id = mid\<rparr>)
      (filter (\<lambda>(p, _). p \<noteq> sender \<and> p \<noteq> local) (peers s))"
  using assms by (simp add: new_tasks_def spawn_relay_to_neighbors_def)

text \<open>Whether a routed id was seen within the window.\<close>

definition seen_recently :: "('e, 'h, 't, 'w NodeState) Env \<Rightarrow> u64 \<Rightarrow> 'w NodeState \<Rightarrow> bool" where
  "seen_recently env mid s = fst (check_and_insert_routed (now (runtime env) s) mid (dedup s))"

text \<open>The relayed copy of a frame with a positive TTL.\<close>

definition relay_targets :: "PeerId \<Rightarrow> PeerId \<Rightarrow> 'w NodeState \<Rightarrow> (PeerId \<times> PeerAnnouncement list) list" where
  "relay_targets sender local s = filter (\<lambda>(p, _). p \<noteq> sender \<and> p \<noteq> local) (peers s)"

lemma dispatch_relays_routed:
  assumes "flag = 0x01 \<or> flag = 0x03 \<and> 32 \<le> length body"
  shows "map task_payload (new_tasks s (dispatch_state env ident sender local (routed_frame flag mid dest life body) s)) =
    (if dest = local \<or> life = 0 \<or> seen_recently env mid s then []
     else map (\<lambda>_. routed_frame flag mid dest (min life MAX_TTL - 1) body) (relay_targets sender local s)) \<and>
   map task_peer (new_tasks s (dispatch_state env ident sender local (routed_frame flag mid dest life body) s)) =
    (if dest = local \<or> life = 0 \<or> seen_recently env mid s then [] else map fst (relay_targets sender local s))"
proof -
  have len: "\<not> length (routed_frame flag mid dest life body) < 42"
    by (simp add: wire_simps)
  have MAX: "MAX_TTL \<noteq> 0" "min life MAX_TTL = 0 \<longleftrightarrow> life = 0"
    by (auto simp: MAX_TTL_def min_def)
  have dest: "array_of (take 32 (drop 9 (routed_frame flag mid dest life body))) = Some (as_bytes dest)"
    by (simp add: wire_simps)
  have sender: "\<exists>x. array_of (take 32 body) = Some (x :: bytes32)" if "32 \<le> length body"
    using that by (auto simp: array_of_def)
  have flags: "flag = 1 \<or> flag = 3" using assms by auto
  have "take 8 (routed_frame flag mid dest life body) = u64_to_be_bytes mid" by (simp add: wire_simps)
  then have state: "dispatch_state env ident sender local (routed_frame flag mid dest life body) s =
      (if flag = 1 then dispatch_routed (now (runtime env) s) sender local mid (routed_frame flag mid dest life body) s
       else dispatch_sealed env ident (now (runtime env) s) sender local mid (routed_frame flag mid dest life body) s)"
    using flags by (auto simp: dispatch_state_def wire_simps Let_def)
  have tasks: "new_tasks s (dispatch_state env ident sender local (routed_frame flag mid dest life body) s) =
      (if dest = local \<or> life = 0 \<or> seen_recently env mid s then []
       else map (\<lambda>(p, anns). \<lparr>task_peer = p, task_announcements = anns,
           task_body = flag # bytes_of (as_bytes dest) @ [min life MAX_TTL - 1] @ body, task_msg_id = mid\<rparr>)
         (relay_targets sender local s))"
  proof (cases "flag = 1")
    case True
    then show ?thesis
      using len dest MAX unfolding state
      by (simp add: dispatch_routed_def wire_simps case_prod_beta Let_def new_tasks_spawn seen_recently_def
          relay_targets_def)
  next
    case False
    with assms have flag: "flag = 3" and body: "32 \<le> length body" by auto
    obtain x where x: "array_of (take 32 body) = Some (x :: bytes32)"
      using sender [OF body] by blast
    have "\<not> length (routed_frame flag mid dest life body) < 74"
      using body by (simp add: wire_simps)
    with flag x show ?thesis
      using dest MAX unfolding state
      by (simp add: dispatch_sealed_def wire_simps case_prod_beta Let_def new_tasks_spawn seen_recently_def
          relay_targets_def split: option.splits sum.splits)
  qed
  show ?thesis
    by (simp add: tasks task_payload_def comp_def case_prod_beta) (simp add: routed_frame_def)
qed

section \<open>How far a frame travels\<close>

text \<open>
  One frame relays to another when some node, in some state, spawns a task that sends the
  second when it dispatches the first.
\<close>

definition relays :: "('e, 'h, 't, 'w NodeState) Env \<Rightarrow> bytes \<Rightarrow> bytes \<Rightarrow> bool" where
  "relays env p q \<longleftrightarrow>
     (\<exists>ident sender local s. q \<in> task_payload ` set (new_tasks s (dispatch_state env ident sender local p s)))"

inductive hops :: "('e, 'h, 't, 'w NodeState) Env \<Rightarrow> nat \<Rightarrow> bytes \<Rightarrow> bytes \<Rightarrow> bool" for env where
  start: "hops env 0 p p"
| step: "hops env n p q \<Longrightarrow> relays env q r \<Longrightarrow> hops env (Suc n) p r"

inductive_cases hops_SucE: "hops env (Suc n) p r"

definition key_frame :: "u64 \<Rightarrow> PeerId \<Rightarrow> bytes32 \<Rightarrow> u8 \<Rightarrow> bytes" where
  "key_frame mid p key life = u64_to_be_bytes mid @ encode_key_announcement p key life"

text \<open>The TTL a receiver honours.\<close>

definition life_of :: "bytes \<Rightarrow> nat" where
  "life_of p = unat (min (p ! (if p ! 8 = 0x02 then 73 else 41)) MAX_TTL)"

lemma life_of_frames [wire_simps]:
  "flag \<noteq> 2 \<Longrightarrow> life_of (routed_frame flag mid dest life body) = unat (min life MAX_TTL)"
  "life_of (key_frame mid p key life) = unat (min life MAX_TTL)"
  by (simp add: life_of_def wire_simps)
     (simp add: life_of_def key_frame_def encode_key_announcement_def nth_append)

lemma relayed_life:
  assumes "(life :: u8) \<noteq> 0"
  shows "Suc (unat (min (min life MAX_TTL - 1) MAX_TTL)) = unat (min life MAX_TTL)"
proof -
  let ?x = "min life MAX_TTL"
  have x: "?x \<noteq> 0" "?x \<le> MAX_TTL"
    using assms by (auto simp: MAX_TTL_def min_def)
  then have "unat (?x - 1) = unat ?x - 1" "0 < unat ?x"
    by (simp_all add: unat_minus_one unat_gt_0)
  moreover have "?x - 1 \<le> MAX_TTL"
    using x calculation by (simp add: word_le_nat_alt)
  ultimately show ?thesis by (simp add: min_absorb1)
qed

lemma relays_routed:
  assumes "relays env (routed_frame flag mid dest life body) q" "flag = 0x01 \<or> flag = 0x03 \<and> 32 \<le> length body"
  shows "life \<noteq> 0 \<and> q = routed_frame flag mid dest (min life MAX_TTL - 1) body"
proof -
  obtain ident sender local s where "q \<in> set (map task_payload (new_tasks s
      (dispatch_state env ident sender local (routed_frame flag mid dest life body) s)))"
    using assms(1) unfolding relays_def set_map by blast
  then show ?thesis
    using dispatch_relays_routed [OF assms(2), of s env ident sender local mid dest life] by (auto split: if_splits)
qed

lemma dispatch_key_frame:
  "dispatch_state env ident sender local (key_frame mid p key life) s =
    (if \<not> validate_key_announcement (env_blake3 env) p key then s
     else
       let s' = s\<lparr>dedup := snd (check_and_insert_routed (now (runtime env) s) mid (dedup s))\<rparr> in
       if seen_recently env mid s then s'
       else
         let s'' = s'\<lparr>key_registry := insert_gossip p key (key_registry s')\<rparr> in
         if life = 0 then s''
         else spawn_relay_to_neighbors (encode_key_announcement p key (min life MAX_TTL - 1)) mid sender local s'')"
proof -
  let ?p = "key_frame mid p key life"
  have parts: "\<not> length ?p < 9" "take 8 ?p = u64_to_be_bytes mid" "?p ! 8 = 2"
    "decode_key_announcement (drop 9 ?p) = Some (p, key, life)"
    by (simp_all add: key_frame_def encode_key_announcement_def nth_append decode_key_announcement_iff)
  have "(0 < min life MAX_TTL) = (life \<noteq> 0)"
    by (auto simp: MAX_TTL_def min_def word_gt_0)
  with parts show ?thesis
    by (simp add: dispatch_state_def dispatch_key_announcement_def seen_recently_def case_prod_beta Let_def)
qed

lemma relays_key:
  assumes "relays env (key_frame mid p key life) q"
  shows "life \<noteq> 0 \<and> q = key_frame mid p key (min life MAX_TTL - 1) \<and>
    validate_key_announcement (env_blake3 env) p key"
proof -
  obtain ident sender local s where "q \<in> task_payload ` set (new_tasks s
      (dispatch_state env ident sender local (key_frame mid p key life) s))"
    using assms unfolding relays_def by blast
  then show ?thesis
    unfolding dispatch_key_frame Let_def
    by (auto simp: new_tasks_spawn task_payload_def key_frame_def split: if_splits)
qed

text \<open>Every frame that is relayed is a routed frame or a key announcement.\<close>

lemma relays_cases:
  assumes "relays env p q"
  obtains (routed) flag mid dest life body where "p = routed_frame flag mid dest life body"
      "flag = 0x01 \<or> flag = 0x03 \<and> 32 \<le> length body"
  | (key) mid a key life where "p = key_frame mid a key life"
proof -
  obtain ident sender local s where "q \<in> task_payload ` set (new_tasks s (dispatch_state env ident sender local p s))"
    using assms unfolding relays_def by blast
  then have q: "new_tasks s (dispatch_state env ident sender local p s) \<noteq> []"
    by auto
  have len: "9 \<le> length p"
    by (rule ccontr) (use q in \<open>simp add: dispatch_state_def\<close>)
  have flag: "p ! 8 = 1 \<or> p ! 8 = 2 \<or> p ! 8 = 3"
    by (rule ccontr) (use q len in \<open>simp add: dispatch_state_def dispatch_direct_def case_prod_beta Let_def\<close>)
  have arr: "\<exists>d :: bytes32. array_of (take 32 (drop 9 p)) = Some d" if "42 \<le> length p"
    using that by (auto simp: array_of_def)
  consider "p ! 8 = 1" "42 \<le> length p" | "p ! 8 = 3" "74 \<le> length p"
    | "p ! 8 = 2" "decode_key_announcement (drop 9 p) \<noteq> None"
  proof -
    have "p ! 8 = 1 \<Longrightarrow> 42 \<le> length p"
      by (rule ccontr) (use q len in \<open>simp add: dispatch_state_def dispatch_routed_def Let_def\<close>)
    moreover have "p ! 8 = 3 \<Longrightarrow> 74 \<le> length p"
      by (rule ccontr) (use q len in \<open>simp add: dispatch_state_def dispatch_sealed_def Let_def\<close>)
    moreover have "p ! 8 = 2 \<Longrightarrow> decode_key_announcement (drop 9 p) \<noteq> None"
      by (rule notI) (use q len in \<open>simp add: dispatch_state_def dispatch_key_announcement_def Let_def\<close>)
    ultimately show thesis using flag that by blast
  qed
  then show thesis
  proof cases
    case 1
    then obtain d :: bytes32 where d: "array_of (take 32 (drop 9 p)) = Some d" using arr by blast
    show ?thesis
      by (rule routed [OF frame_eq_routed [OF 1(2) d]]) (use 1 in simp)
  next
    case 2
    then obtain d :: bytes32 where d: "array_of (take 32 (drop 9 p)) = Some d" using arr by auto
    have "42 \<le> length p" using 2(2) by simp
    from routed [OF frame_eq_routed [OF this d]] 2 show ?thesis by simp
  next
    case 3
    then obtain a key life where "decode_key_announcement (drop 9 p) = Some (a, key, life)" by auto
    then have "0x02 # drop 9 p = encode_key_announcement a key life"
      by (simp add: decode_key_announcement_iff)
    moreover have "p = take 8 p @ p ! 8 # drop 9 p"
      using len Cons_nth_drop_Suc [of 8 p] by simp
    moreover have "u64_to_be_bytes (u64_from_be_bytes (take 8 p)) = take 8 p"
      using len by (intro u64_to_be_from_be) simp
    ultimately have "p = key_frame (u64_from_be_bytes (take 8 p)) a key life"
      using 3(1) by (simp add: key_frame_def)
    then show ?thesis by (rule key)
  qed
qed

lemma relays_life:
  assumes "relays env p q"
  shows "Suc (life_of q) = life_of p"
  using assms
proof (cases rule: relays_cases)
  case (routed flag mid dest life body)
  then show ?thesis
    using assms relays_routed [of env flag mid dest life body q] relayed_life [of life] by (auto simp: wire_simps)
next
  case (key mid a key life)
  then show ?thesis
    using assms relays_key [of env mid a key life q] relayed_life [of life] by (auto simp: wire_simps)
qed

lemma hops_life: "hops env n p q \<Longrightarrow> n + life_of q = life_of p"
  by (induction rule: hops.induct) (auto dest: relays_life)

lemma life_of_le: "life_of p \<le> 7"
  by (simp add: life_of_def MAX_TTL_def min_def word_le_nat_alt)

lemma hops_routed:
  assumes "hops env n (routed_frame flag mid dest life body) q" "flag = 0x01 \<or> flag = 0x03 \<and> 32 \<le> length body"
  shows "\<exists>life'. q = routed_frame flag mid dest life' body"
  using assms
proof (induction n arbitrary: q)
  case 0
  then show ?case by (auto elim: hops.cases)
next
  case (Suc n)
  then obtain r where "hops env n (routed_frame flag mid dest life body) r" "relays env r q"
    by (auto elim: hops_SucE)
  with Suc.IH [OF _ Suc.prems(2)] relays_routed [OF _ Suc.prems(2)] show ?case by blast
qed

section \<open>Runs of direct messages\<close>

text \<open>
  A run of arrivals, each with its time, sender, message id and data, dispatched one after
  the other.
\<close>

type_synonym arrival = "instant \<times> PeerId \<times> u64 \<times> bytes"

definition direct_payload :: "u64 \<Rightarrow> bytes \<Rightarrow> bytes" where
  "direct_payload mid msg = u64_to_be_bytes mid @ [0x00] @ msg"

definition run_direct :: "arrival list \<Rightarrow> 'w NodeState \<Rightarrow> 'w NodeState" where
  "run_direct = fold (\<lambda>(t, p, mid, msg). dispatch_direct t p mid (direct_payload mid msg))"

definition arrival_key :: "arrival \<Rightarrow> instant \<times> dedup_key" where
  "arrival_key = (\<lambda>(t, p, mid, msg). (t, Inl (p, mid)))"

definition arrival_message :: "arrival \<Rightarrow> PeerId \<times> bytes" where
  "arrival_message = (\<lambda>(t, p, mid, msg). (p, msg))"

lemma dispatch_direct_step:
  assumes "handler s" "dedup_check t (Inl (p, mid)) (dedup s) = (dup, d)"
  shows "dispatch_direct t p mid (direct_payload mid msg) s =
    (if dup then s\<lparr>dedup := d\<rparr> else s\<lparr>dedup := d, delivered := delivered s @ [(p, msg)]\<rparr>)"
  using assms
  by (simp add: dispatch_direct_def deliver_def dedup_check_def direct_payload_def)

lemma run_direct_accepts:
  assumes "handler s"
  shows "\<exists>passed. subseq passed evs \<and>
    map arrival_key passed = accepted dedup_check (map arrival_key evs) (dedup s) \<and>
    delivered (run_direct evs s) = delivered s @ map arrival_message passed"
  using assms
proof (induction evs arbitrary: s)
  case Nil
  then show ?case by (intro exI [of _ "[]"]) (simp add: run_direct_def)
next
  case (Cons ev evs)
  obtain t p mid msg where ev: "ev = (t, p, mid, msg)" by (cases ev)
  obtain dup d where check: "dedup_check t (Inl (p, mid)) (dedup s) = (dup, d)"
    by (cases "dedup_check t (Inl (p, mid)) (dedup s)")
  let ?s = "dispatch_direct t p mid (direct_payload mid msg) s"
  have step: "?s = (if dup then s\<lparr>dedup := d\<rparr> else s\<lparr>dedup := d, delivered := delivered s @ [(p, msg)]\<rparr>)"
    by (rule dispatch_direct_step [OF Cons.prems check])
  have "handler ?s" using step Cons.prems by simp
  from Cons.IH [OF this] obtain passed where passed: "subseq passed evs"
      "map arrival_key passed = accepted dedup_check (map arrival_key evs) d"
      "delivered (run_direct evs ?s) = delivered ?s @ map arrival_message passed"
    using step by auto
  have run: "run_direct (ev # evs) s = run_direct evs ?s"
    by (simp add: run_direct_def ev)
  show ?case
  proof (cases dup)
    case True
    with passed step check run show ?thesis
      by (intro exI [of _ passed]) (auto simp: ev arrival_key_def)
  next
    case False
    with passed step check run show ?thesis
      by (intro exI [of _ "ev # passed"]) (auto simp: ev arrival_key_def arrival_message_def)
  qed
qed

section \<open>Sealed messages\<close>

text \<open>
  What the documentation promises of pattern K between two ends that know each other's
  static keys: the one message is read back; it adds an ephemeral key and a tag, 48 bytes.
\<close>

definition noise_k_ok :: "('h, 't) snow \<Rightarrow> NodeIdentity \<Rightarrow> NodeIdentity \<Rightarrow> bytes32 \<Rightarrow> bytes32 \<Rightarrow> bool" where
  "noise_k_ok sn a b ka kb \<longleftrightarrow>
     (\<forall>e p. length p + 48 \<le> NOISE_MSG_MAX \<longrightarrow>
        (\<exists>h m h' r r'. build_initiator sn NOISE_K_PARAMS (private_key a) (Some kb) e = Inr h \<and>
           hs_write sn h p NOISE_MSG_MAX = Inr (m, h') \<and>
           build_responder sn NOISE_K_PARAMS (private_key b) (Some ka) (fill_array 0) = Inr r \<and>
           hs_read sn r m (length m) = Inr (p, r')))"

lemma unseal_seal:
  assumes "noise_k_ok sn a b ka kb" "length p + 48 \<le> NOISE_MSG_MAX"
  shows "\<exists>m. seal sn a kb p e = Inr m \<and> unseal sn show b sender ka m = Inr p"
proof -
  obtain h m h' r r' where "build_initiator sn NOISE_K_PARAMS (private_key a) (Some kb) e = Inr h"
      "hs_write sn h p NOISE_MSG_MAX = Inr (m, h')"
      "build_responder sn NOISE_K_PARAMS (private_key b) (Some ka) (fill_array 0) = Inr r"
      "hs_read sn r m (length m) = Inr (p, r')"
    using assms unfolding noise_k_ok_def by blast
  then show ?thesis
    by (intro exI [of _ m]) (simp add: seal_def unseal_def)
qed

lemma dispatch_sealed_frame:
  assumes "registry_get (key_registry s) origin = Some key" "handler s" "\<not> seen_recently env mid s"
    and "unseal (env_snow env) (show_id env) ident origin key sealed = Inr plaintext"
  shows "delivered (dispatch_state env ident sender local
      (routed_frame 0x03 mid local life (bytes_of (as_bytes origin) @ sealed)) s) = delivered s @ [(origin, plaintext)]"
proof -
  let ?f = "routed_frame 0x03 mid local life (bytes_of (as_bytes origin) @ sealed)"
  have parts: "\<not> length ?f < 9" "\<not> length ?f < 74" "take 8 ?f = u64_to_be_bytes mid" "?f ! 8 = 3"
    "array_of (take 32 (drop 9 ?f)) = Some (as_bytes local)"
    "array_of (take 32 (drop 42 ?f)) = Some (as_bytes origin)" "drop 32 (drop 42 ?f) = sealed"
    unfolding routed_frame_parts by (simp_all)
  have "dispatch_state env ident sender local ?f s =
      dispatch_sealed env ident (now (runtime env) s) sender local mid ?f s"
    using parts(1,3,4) by (simp add: dispatch_state_def Let_def)
  then show ?thesis
    using assms parts(2,5-7)
    by (simp add: dispatch_sealed_def seen_recently_def case_prod_beta Let_def deliver_def)
qed

section \<open>Properties\<close>

lemma not_seen_new: "dedup s = dedup_new \<Longrightarrow> \<not> seen_recently env mid s"
  by (simp add: seen_recently_def dedup_new_def check_and_insert_routed_def Let_def)

lemma spawn_relay_frame [simp]:
  "event_log (spawn_relay_to_neighbors body mid sender local s) = event_log s"
  "key_registry (spawn_relay_to_neighbors body mid sender local s) = key_registry s"
  by (simp_all add: spawn_relay_to_neighbors_def)

text \<open>A node with one neighbour besides the sender, for the instances.\<close>

definition relay_node :: "bytes list NodeState" where
  "relay_node = (script_state [])\<lparr>peers := [(PeerId (fill_array 1), []), (PeerId (fill_array 5), [])]\<rparr>"

lemma relay_node_simps [simp]:
  "\<not> seen_recently script_env mid relay_node"
  "relay_targets (PeerId (fill_array 1)) (PeerId (fill_array 2)) relay_node = [(PeerId (fill_array 5), [])]"
  by (simp add: relay_node_def script_state_def not_seen_new)
     (simp add: relay_node_def relay_targets_def)

text \<open>
  C3: direct messages reach the handler exactly once per window.  Whatever messages arrive, at
  non-decreasing times, at a node with an empty cache and a handler: the handler gets a
  subsequence of them, two deliveries with the same sender and id are at least 60 seconds
  apart, and every arrival was delivered at most 60 seconds before.
\<close>

theorem direct_messages_exactly_once:
  assumes "sorted (map fst evs)" "handler s" "dedup s = dedup_new" "delivered s = []"
  shows "\<exists>passed. subseq passed evs \<and> delivered (run_direct evs s) = map arrival_message passed \<and>
    sorted_wrt (\<lambda>(t, p, mid, _) (t', p', mid', _). p = p' \<and> mid = mid' \<longrightarrow> t + DEDUP_TTL \<le> t') passed \<and>
    (\<forall>t p mid msg. (t, p, mid, msg) \<in> set evs \<longrightarrow>
       (\<exists>t\<^sub>0 msg\<^sub>0. (t\<^sub>0, p, mid, msg\<^sub>0) \<in> set passed \<and> t\<^sub>0 \<le> t \<and> t < t\<^sub>0 + DEDUP_TTL))"
proof -
  obtain passed where passed: "subseq passed evs"
      "map arrival_key passed = accepted dedup_check (map arrival_key evs) dedup_new"
      "delivered (run_direct evs s) = map arrival_message passed"
    using run_direct_accepts [OF assms(2), of evs] assms(3,4) by auto
  have keys: "sorted (map fst (map arrival_key evs))"
    using assms(1) by (simp add: arrival_key_def comp_def case_prod_beta)
  have new: "0 < ttl dedup_new" "ttl dedup_new = DEDUP_TTL" "\<And>k. dedup_lookup dedup_new k = None"
    by (auto simp: dedup_new_def DEDUP_TTL_def dedup_lookup_def split: sum.splits)
  have spaced: "sorted_wrt (\<lambda>(t, p, mid, _) (t', p', mid', _). p = p' \<and> mid = mid' \<longrightarrow> t + DEDUP_TTL \<le> t') passed"
    using dedup.accepted_spaced [OF dedup_inv_new new(1) keys] passed(2) [symmetric]
    by (simp add: sorted_wrt_map arrival_key_def case_prod_unfold new(2))
  have "\<exists>t\<^sub>0 msg\<^sub>0. (t\<^sub>0, p, mid, msg\<^sub>0) \<in> set passed \<and> t\<^sub>0 \<le> t \<and> t < t\<^sub>0 + DEDUP_TTL"
    if "(t, p, mid, msg) \<in> set evs" for t p mid msg
  proof -
    have "(t, Inl (p, mid)) \<in> set (map arrival_key evs)"
      using that by (force simp: arrival_key_def)
    then obtain t\<^sub>0 where t\<^sub>0: "t\<^sub>0 \<le> t" "t < t\<^sub>0 + DEDUP_TTL" "(t\<^sub>0, Inl (p, mid)) \<in> set (map arrival_key passed)"
      using dedup.accepted_covers [OF dedup_inv_new new(1) keys, of t "Inl (p, mid)"] new(2,3) passed(2) by auto
    then show ?thesis by (auto simp: arrival_key_def)
  qed
  with passed spaced show ?thesis by blast
qed

theorem direct_messages_exactly_once_witness:
  "\<exists>passed. subseq passed [(0, PeerId (fill_array 1), 7, [1]), (100, PeerId (fill_array 1), 7, [1])] \<and>
    delivered (run_direct [(0, PeerId (fill_array 1), 7, [1]), (100, PeerId (fill_array 1), 7, [1])] (script_state [])) =
      map arrival_message passed"
proof -
  have "handler (script_state [])" "dedup (script_state []) = dedup_new" "delivered (script_state []) = []"
    by (simp_all add: script_state_def)
  from direct_messages_exactly_once
    [of "[(0, PeerId (fill_array 1), 7, [1]), (100, PeerId (fill_array 1), 7, [1])]", OF _ this]
  show ?thesis by (simp only: list.map fst_conv sorted_simps) auto
qed

text \<open>
  C13: a routed or sealed frame travels at most seven hops, whatever TTL it starts with, and
  arrives everywhere with its message id, destination and body unchanged and its TTL reduced
  by the number of hops.
\<close>

theorem routed_frames_travel_unchanged:
  assumes "hops env n (routed_frame flag mid dest life body) q"
    and "flag = 0x01 \<or> flag = 0x03 \<and> 32 \<le> length body"
  shows "n \<le> 7 \<and>
    (\<exists>life'. q = routed_frame flag mid dest life' body \<and> n + unat (min life' MAX_TTL) = unat (min life MAX_TTL))"
proof -
  obtain life' where q: "q = routed_frame flag mid dest life' body"
    using hops_routed [OF assms] by blast
  moreover have "n + life_of q = life_of (routed_frame flag mid dest life body)"
    by (rule hops_life [OF assms(1)])
  moreover have "flag \<noteq> 2" using assms(2) by auto
  ultimately show ?thesis
    using life_of_le [of "routed_frame flag mid dest life body"] by (auto simp: wire_simps)
qed

theorem routed_frames_travel_unchanged_witness:
  "1 \<le> (7::nat) \<and> (\<exists>life'. routed_frame 0x01 9 (PeerId (fill_array 4)) 2 [1] = routed_frame 0x01 9 (PeerId (fill_array 4)) life' [1] \<and>
     1 + unat (min life' MAX_TTL) = unat (min 3 MAX_TTL))"
proof -
  let ?p = "routed_frame 0x01 9 (PeerId (fill_array 4)) 3 [1]" and ?q = "routed_frame 0x01 9 (PeerId (fill_array 4)) 2 [1]"
  let ?s = "dispatch_state script_env (plain_identity first_byte_hash 2) (PeerId (fill_array 1)) (PeerId (fill_array 2)) ?p relay_node"
  have "map task_payload (new_tasks relay_node ?s) = [?q]"
    by (subst dispatch_relays_routed [THEN conjunct1]) (simp_all add: MAX_TTL_def)
  then have "?q \<in> set (map task_payload (new_tasks relay_node ?s))"
    by (simp only: list.set_intros)
  then have "relays script_env ?p ?q"
    unfolding relays_def set_map by (intro exI)
  then have "hops script_env (Suc 0) ?p ?q"
    by (rule hops.step [OF hops.start])
  from routed_frames_travel_unchanged [OF this] show ?thesis
    by (simp only: One_nat_def simp_thms)
qed

text \<open>
  C15: a node relays a routed or sealed frame exactly when it is not the destination, the TTL is
  positive and the id was not seen within the window; it then sends one copy, with the TTL
  reduced, to every known peer but the sender and itself.
\<close>

theorem relays_once_to_every_other_neighbour:
  assumes "flag = 0x01 \<or> flag = 0x03 \<and> 32 \<le> length body"
  shows "map task_payload (new_tasks s (dispatch_state env ident sender local (routed_frame flag mid dest life body) s)) =
    (if dest = local \<or> life = 0 \<or> seen_recently env mid s then []
     else map (\<lambda>_. routed_frame flag mid dest (min life MAX_TTL - 1) body) (relay_targets sender local s)) \<and>
   map task_peer (new_tasks s (dispatch_state env ident sender local (routed_frame flag mid dest life body) s)) =
    (if dest = local \<or> life = 0 \<or> seen_recently env mid s then [] else map fst (relay_targets sender local s))"
  using assms by (rule dispatch_relays_routed)

theorem relays_once_to_every_other_neighbour_witness:
  "map task_peer (new_tasks relay_node (dispatch_state script_env (plain_identity first_byte_hash 2)
      (PeerId (fill_array 1)) (PeerId (fill_array 2)) (routed_frame 0x01 9 (PeerId (fill_array 4)) 3 [1]) relay_node)) =
     [PeerId (fill_array 5)]"
  by (subst relays_once_to_every_other_neighbour [THEN conjunct2]) simp_all



end
