(* ===== verification/Node.thy ===== *)
theory Node
  imports Dispatch
begin

text \<open>
  The API of \<open>PathweaveNode\<close> in \<open>crates/pathweave-core/src/node.rs\<close>: creation, connecting and
  adding peers, direct, routed and sealed sends, store-and-forward with its two queues and
  their draining, the accept loop and the task that watches the events.
\<close>

section \<open>The node\<close>

definition STORE_TTL_DEFAULT :: duration where
  "STORE_TTL_DEFAULT = 86400000"

text \<open>The fields of \<open>PathweaveNode\<close> that no operation changes.\<close>

record NodeCore =
  identity :: NodeIdentity
  store_ttl :: duration
  max_queue_depth :: "nat option"

definition node_new :: "NodeConfig \<Rightarrow> NodeIdentity \<Rightarrow> 'w \<Rightarrow> NodeCore \<times> 'w NodeState" where
  "node_new config ident w =
     (\<lparr>identity = ident,
       store_ttl = (case cfg_store_ttl config of None \<Rightarrow> STORE_TTL_DEFAULT | Some d \<Rightarrow> d),
       max_queue_depth = cfg_max_queue_depth config\<rparr>,
      \<lparr>transports = [], event_log = [], key_registry = registry_new (max_key_registry_size config),
       peers = [], known_addrs = {}, dedup = dedup_new, handler = False, delivered = [],
       pending_direct = [], pending_routed = [], relay_tasks = [], world = w\<rparr>)"

definition on_message :: "'w NodeState \<Rightarrow> 'w NodeState" where
  "on_message s = s\<lparr>handler := True\<rparr>"

definition lookup_key :: "PeerId \<Rightarrow> 'w NodeState \<Rightarrow> bytes32 option" where
  "lookup_key p s = registry_get (key_registry s) p"

text \<open>\<open>addrs.push(announcement)\<close> unless the address is there.\<close>

definition push_announcement :: "PeerId \<Rightarrow> PeerAnnouncement \<Rightarrow> peer_table \<Rightarrow> peer_table" where
  "push_announcement p ann table =
     (let addrs = hm_or_default [] p table in
      hm_insert p (if list_ex (\<lambda>a. address a = address ann) addrs then addrs else addrs @ [ann]) table)"

definition neighbors :: "NodeIdentity \<Rightarrow> 'w NodeState \<Rightarrow> (PeerId \<times> PeerAnnouncement list) list" where
  "neighbors ident s = filter (\<lambda>(p, _). p \<noteq> peer_id ident) (peers s)"

section \<open>Sending\<close>

definition node_send ::
  "('e, 'h, 't, 'w NodeState) Env \<Rightarrow> NodeCore \<Rightarrow> PeerId \<Rightarrow> bytes \<Rightarrow> (unit result, 'w NodeState) future" where
  "node_send env nd p payload s =
     (case hm_get (peers s) p of
        None \<Rightarrow> (Ready (Inl NoTransportAvailable), s)
      | Some announcements \<Rightarrow> router_send env announcements (identity nd) (0x00 # payload) p None s)"

text \<open>The loop over the neighbours: whether any of them accepted the frame.\<close>

fun send_to_all ::
  "('e, 'h, 't, 'w NodeState) Env \<Rightarrow> (PeerId \<times> PeerAnnouncement list) list \<Rightarrow> NodeIdentity \<Rightarrow> bytes \<Rightarrow> u64 \<Rightarrow>
     (bool, 'w NodeState) future" where
  "send_to_all env [] ident body msg_id s = (Ready False, s)"
| "send_to_all env ((p, anns) # ns) ident body msg_id s =
     await (router_send env anns ident body p (Some msg_id)) (\<lambda>r.
     await (send_to_all env ns ident body msg_id) (\<lambda>any_ok.
       ready (\<not> isl r \<or> any_ok))) s"

definition flood_neighbors ::
  "('e, 'h, 't, 'w NodeState) Env \<Rightarrow> NodeIdentity \<Rightarrow> bytes \<Rightarrow> u64 \<Rightarrow> (unit result, 'w NodeState) future" where
  "flood_neighbors env ident frame_body msg_id s =
     (if neighbors ident s = [] then (Ready (Inl NoTransportAvailable), s)
      else await (send_to_all env (neighbors ident s) ident frame_body msg_id) (\<lambda>any_ok.
             ready (if any_ok then Inr () else Inl DeliveryFailed)) s)"

definition draw_message_id :: "('e, 'h, 't, 'w NodeState) Env \<Rightarrow> 'w NodeState \<Rightarrow> u64 \<times> 'w NodeState" where
  "draw_message_id env s = (let (entropy, s') = getrandom (runtime env) s in (new_message_id entropy, s'))"

definition routed_body :: "u8 \<Rightarrow> PeerId \<Rightarrow> bytes \<Rightarrow> bytes" where
  "routed_body flag dest payload = flag # bytes_of (as_bytes dest) @ [MAX_TTL] @ payload"

definition send_routed ::
  "('e, 'h, 't, 'w NodeState) Env \<Rightarrow> NodeCore \<Rightarrow> PeerId \<Rightarrow> bytes \<Rightarrow> (unit result, 'w NodeState) future" where
  "send_routed env nd dest payload =
     await (update (draw_message_id env)) (\<lambda>msg_id.
       flood_neighbors env (identity nd) (routed_body 0x01 dest payload) msg_id)"

definition send_routed_sealed ::
  "('e, 'h, 't, 'w NodeState) Env \<Rightarrow> NodeCore \<Rightarrow> PeerId \<Rightarrow> bytes \<Rightarrow> (unit result, 'w NodeState) future" where
  "send_routed_sealed env nd dest payload s =
     (case registry_get (key_registry s) dest of
        None \<Rightarrow> (Ready (Inl (KeyUnknown dest)), s)
      | Some dest_public_key \<Rightarrow>
          await (update (draw_ephemeral env)) (\<lambda>ephemeral.
          try_now (seal (env_snow env) (identity nd) dest_public_key payload ephemeral) (\<lambda>sealed.
          await (update (draw_message_id env)) (\<lambda>msg_id.
            flood_neighbors env (identity nd)
              (routed_body 0x03 dest (bytes_of (as_bytes (peer_id (identity nd))) @ sealed)) msg_id))) s)"

section \<open>Store and forward\<close>

text \<open>
  The tail of \<open>store_forward\<close> and \<open>store_forward_routed\<close>: the entry of the peer exists after it
  in any case; a full queue refuses.
\<close>

definition enqueue :: "nat option \<Rightarrow> PeerId \<Rightarrow> queued \<Rightarrow> pending_store \<Rightarrow> bool \<times> pending_store" where
  "enqueue bound p item store =
     (let deque = hm_or_default [] p store in
      if (case bound of None \<Rightarrow> False | Some m \<Rightarrow> m \<le> length deque) then (False, hm_insert p deque store)
      else (True, hm_insert p (deque @ [item]) store))"

definition enqueue_direct :: "NodeCore \<Rightarrow> PeerId \<Rightarrow> queued \<Rightarrow> 'w NodeState \<Rightarrow> 'w NodeState" where
  "enqueue_direct nd p item s =
     (let (accepted, store) = enqueue (max_queue_depth nd) p item (pending_direct s);
          s' = s\<lparr>pending_direct := store\<rparr> in
      if accepted then s' else emit (StoreFailed p) s')"

definition enqueue_routed :: "NodeCore \<Rightarrow> PeerId \<Rightarrow> queued \<Rightarrow> 'w NodeState \<Rightarrow> 'w NodeState" where
  "enqueue_routed nd p item s =
     (let (accepted, store) = enqueue (max_queue_depth nd) p item (pending_routed s);
          s' = s\<lparr>pending_routed := store\<rparr> in
      if accepted then s' else emit (StoreFailed p) s')"

definition store_forward ::
  "('e, 'h, 't, 'w NodeState) Env \<Rightarrow> NodeCore \<Rightarrow> PeerId \<Rightarrow> bytes \<Rightarrow> (unit, 'w NodeState) future" where
  "store_forward env nd p payload =
     await (update (draw_message_id env)) (\<lambda>msg_id s.
       let queued_at = now (runtime env) s;
           attempt = (case hm_get (peers s) p of
               None \<Rightarrow> ready (Inl NoTransportAvailable)
             | Some anns \<Rightarrow>
                 if anns = [] then ready (Inl NoTransportAvailable)
                 else router_send env anns (identity nd) (0x00 # payload) p (Some msg_id)) in
       await attempt (\<lambda>r.
         if isl r then modify (enqueue_direct nd p (msg_id, payload, queued_at)) else ready ()) s)"

definition store_forward_routed ::
  "('e, 'h, 't, 'w NodeState) Env \<Rightarrow> NodeCore \<Rightarrow> PeerId \<Rightarrow> bytes \<Rightarrow> (unit, 'w NodeState) future" where
  "store_forward_routed env nd dest payload =
     await (update (draw_message_id env)) (\<lambda>msg_id s.
       let queued_at = now (runtime env) s in
       await (send_to_all env (neighbors (identity nd) s) (identity nd) (routed_body 0x01 dest payload) msg_id) (\<lambda>any_ok.
         if any_ok then ready () else modify (enqueue_routed nd dest (msg_id, payload, queued_at))) s)"

section \<open>Draining\<close>

text \<open>
  The loop of both drains over the es taken out of a queue at time \<open>t\<close>: expired ones are
  reported and dropped, the others attempted, and those whose attempt failed returned in
  order.
\<close>

fun drain_entries ::
  "duration \<Rightarrow> PeerId \<Rightarrow> instant \<Rightarrow> (queued \<Rightarrow> (bool, 'w NodeState) future) \<Rightarrow> queued list \<Rightarrow>
     (queued list, 'w NodeState) future" where
  "drain_entries limit p t attempt [] s = (Ready [], s)"
| "drain_entries limit p t attempt ((msg_id, payload, queued_at) # es) s =
     (if limit < t - queued_at then drain_entries limit p t attempt es (emit (StoreFailed p) s)
      else
        await (attempt (msg_id, payload, queued_at)) (\<lambda>ok.
        await (drain_entries limit p t attempt es) (\<lambda>failures.
          ready (if ok then failures else (msg_id, payload, queued_at) # failures))) s)"

text \<open>The failures go back to the front of the queue, oldest first.\<close>

definition requeue :: "PeerId \<Rightarrow> queued list \<Rightarrow> pending_store \<Rightarrow> pending_store" where
  "requeue p failures store =
     (if failures = [] then store else hm_insert p (failures @ hm_or_default [] p store) store)"

definition attempt_direct ::
  "('e, 'h, 't, 'w NodeState) Env \<Rightarrow> NodeCore \<Rightarrow> PeerId \<Rightarrow> PeerAnnouncement list \<Rightarrow> queued \<Rightarrow> (bool, 'w NodeState) future" where
  "attempt_direct env nd p announcements = (\<lambda>(msg_id, payload, _).
     if announcements = [] then ready False
     else await (router_send env announcements (identity nd) (0x00 # payload) p (Some msg_id))
            (\<lambda>r. ready (\<not> isl r)))"

definition drain_direct_for_peer ::
  "('e, 'h, 't, 'w NodeState) Env \<Rightarrow> NodeCore \<Rightarrow> PeerId \<Rightarrow> (unit, 'w NodeState) future" where
  "drain_direct_for_peer env nd p s =
     (case hm_get (pending_direct s) p of
        None \<Rightarrow> (Ready (), s)
      | Some es \<Rightarrow>
          let s' = s\<lparr>pending_direct := hm_remove p (pending_direct s)\<rparr>;
              t = now (runtime env) s';
              announcements = hm_or_default [] p (peers s') in
          await (drain_entries (store_ttl nd) p t (attempt_direct env nd p announcements) es) (\<lambda>failures.
            modify (\<lambda>s. s\<lparr>pending_direct := requeue p failures (pending_direct s)\<rparr>)) s')"

definition attempt_routed ::
  "('e, 'h, 't, 'w NodeState) Env \<Rightarrow> NodeCore \<Rightarrow> PeerId \<Rightarrow> (PeerId \<times> PeerAnnouncement list) list \<Rightarrow> queued \<Rightarrow>
     (bool, 'w NodeState) future" where
  "attempt_routed env nd dest ns = (\<lambda>(msg_id, payload, _).
     send_to_all env ns (identity nd) (routed_body 0x01 dest payload) msg_id)"

fun drain_routed ::
  "('e, 'h, 't, 'w NodeState) Env \<Rightarrow> NodeCore \<Rightarrow> PeerId list \<Rightarrow> (unit, 'w NodeState) future" where
  "drain_routed env nd [] s = (Ready (), s)"
| "drain_routed env nd (dest # dests) s =
     (case hm_get (pending_routed s) dest of
        None \<Rightarrow> drain_routed env nd dests s
      | Some es \<Rightarrow>
          let s' = s\<lparr>pending_routed := hm_remove dest (pending_routed s)\<rparr>;
              t = now (runtime env) s';
              ns = neighbors (identity nd) s' in
          await (drain_entries (store_ttl nd) dest t (attempt_routed env nd dest ns) es) (\<lambda>failures.
          await (modify (\<lambda>s. s\<lparr>pending_routed := requeue dest failures (pending_routed s)\<rparr>)) (\<lambda>_.
            drain_routed env nd dests)) s')"

definition drain_routed_all ::
  "('e, 'h, 't, 'w NodeState) Env \<Rightarrow> NodeCore \<Rightarrow> (unit, 'w NodeState) future" where
  "drain_routed_all env nd s = drain_routed env nd (map fst (pending_routed s)) s"

section \<open>Connecting, adding peers, background tasks\<close>

definition drain_all ::
  "('e, 'h, 't, 'w NodeState) Env \<Rightarrow> NodeCore \<Rightarrow> PeerId \<Rightarrow> (unit, 'w NodeState) future" where
  "drain_all env nd p = await (drain_direct_for_peer env nd p) (\<lambda>_. drain_routed_all env nd)"

definition remember_peer :: "PeerId \<Rightarrow> PeerAnnouncement \<Rightarrow> 'w NodeState \<Rightarrow> 'w NodeState" where
  "remember_peer p ann s =
     s\<lparr>known_addrs := insert (address ann) (known_addrs s), peers := push_announcement p ann (peers s)\<rparr>"

definition node_connect ::
  "('e, 'h, 't, 'w NodeState) Env \<Rightarrow> NodeCore \<Rightarrow> PeerAnnouncement \<Rightarrow> (PeerId result, 'w NodeState) future" where
  "node_connect env nd ann =
     try_await (router_connect env [ann] (identity nd)) (\<lambda>p.
     await (modify (remember_peer p ann)) (\<lambda>_.
     await (drain_all env nd p) (\<lambda>_. ready (Inr p))))"

text \<open>\<open>add_peer\<close>: the state it returns with, and the task it spawns.\<close>

definition add_peer ::
  "('e, 'h, 't, 'w NodeState) Env \<Rightarrow> NodeCore \<Rightarrow> PeerId \<Rightarrow> PeerAnnouncement \<Rightarrow> 'w NodeState \<Rightarrow>
     'w NodeState \<times> (unit, 'w NodeState) future" where
  "add_peer env nd p ann s = (remember_peer p ann s, drain_all env nd p)"

text \<open>What the task of \<open>PathweaveNode::new\<close> does with one event.\<close>

definition on_event ::
  "('e, 'h, 't, 'w NodeState) Env \<Rightarrow> NodeCore \<Rightarrow> TransportEvent \<Rightarrow> (unit, 'w NodeState) future" where
  "on_event env nd ev =
     (case ev of
        PeerConnected p \<Rightarrow> drain_all env nd p
      | KeyLearned p key \<Rightarrow>
          flood_key_announcement env (identity nd) (peer_id (identity nd)) p key
      | _ \<Rightarrow> ready ())"

text \<open>The task that runs for each neighbour after \<open>spawn_relay_to_neighbors\<close>; the result is dropped.\<close>

definition run_relay_task ::
  "('e, 'h, 't, 'w NodeState) Env \<Rightarrow> NodeCore \<Rightarrow> RelayTask \<Rightarrow> (unit, 'w NodeState) future" where
  "run_relay_task env nd task =
     await (router_send env (task_announcements task) (identity nd) (task_body task) (task_peer task)
       (Some (task_msg_id task))) (\<lambda>_. ready ())"

text \<open>
  One turn of \<open>accept_loop\<close>, after the transport has started; the handling of the connection
  runs in its own task, for \<open>n\<close> receptions, and the loop does not wait for it.
\<close>

definition ACCEPT_BACKOFF :: duration where
  "ACCEPT_BACKOFF = 5000"

definition accept_once ::
  "nat \<Rightarrow> ('e, 'h, 't, 'w NodeState) Env \<Rightarrow> NodeCore \<Rightarrow> nat \<Rightarrow> (unit, 'w NodeState) future" where
  "accept_once n env nd tr =
     await (transport_accept (transport env tr)) (\<lambda>r s.
       case r of
         Inr conn \<Rightarrow> (Ready (), snd (handle_incoming n env (identity nd) (peer_id (identity nd)) conn s))
       | Inl _ \<Rightarrow> (Ready (), sleep (runtime env) ACCEPT_BACKOFF s))"

section \<open>Invariants under the API\<close>

lemma hm_wf_enqueue [simp]: "hm_wf store \<Longrightarrow> hm_wf (snd (enqueue bound p item store))"
  by (simp add: enqueue_def Let_def)

lemma hm_wf_requeue [simp]: "hm_wf store \<Longrightarrow> hm_wf (requeue p failures store)"
  by (simp add: requeue_def)

locale api_invariant = node_invariant h I
  for h :: "bytes \<Rightarrow> bytes32" and I :: "'w NodeState \<Rightarrow> bool" +
  assumes inv_remember: "I s \<Longrightarrow> I (remember_peer p ann s)"
    and inv_pending_direct: "I s \<Longrightarrow> (hm_wf (pending_direct s) \<Longrightarrow> hm_wf store) \<Longrightarrow> I (s\<lparr>pending_direct := store\<rparr>)"
    and inv_pending_routed: "I s \<Longrightarrow> (hm_wf (pending_routed s) \<Longrightarrow> hm_wf store) \<Longrightarrow> I (s\<lparr>pending_routed := store\<rparr>)"
begin

lemma inv_enqueue_direct: "I s \<Longrightarrow> I (enqueue_direct nd p item s)"
  by (simp add: enqueue_direct_def case_prod_beta Let_def inv_pending_direct inv_emit)

lemma inv_enqueue_routed: "I s \<Longrightarrow> I (enqueue_routed nd p item s)"
  by (simp add: enqueue_routed_def case_prod_beta Let_def inv_pending_routed inv_emit)

lemma keeps_draw_message_id: "env_keeps I env \<Longrightarrow> keeps I (update (draw_message_id env))"
  by (rule keeps_update) (simp add: draw_message_id_def case_prod_beta env_keepsD(3))

lemma keeps_drain_entries:
  assumes "\<And>e. keeps I (attempt e)"
  shows "keeps I (drain_entries limit p t attempt es)"
proof (induction es)
  case (Cons e es)
  obtain mid payload t' where e: "e = (mid, payload, t')" by (cases e)
  have "keeps I (await (attempt (mid, payload, t')) (\<lambda>ok. await (drain_entries limit p t attempt es) (\<lambda>failures.
      ready (if ok then failures else (mid, payload, t') # failures))))"
    by (intro keeps_intros assms Cons.IH)
  with keeps_snd [OF Cons.IH inv_emit] show ?case
    by (auto simp: e keeps_def)
qed (simp add: keeps_def)

lemma keeps_node_send:
  assumes "env_keeps I env" "env_blake3 env = h"
  shows "keeps I (node_send env nd p payload)"
  by (rule keepsI) (auto simp: node_send_def split: option.splits
      intro: keeps_snd [OF keeps_router_send [OF assms]])

lemma keeps_send_to_all:
  assumes "env_keeps I env" "env_blake3 env = h"
  shows "keeps I (send_to_all env ns ident body mid)"
proof (induction ns)
  case (Cons n ns)
  obtain p anns where n: "n = (p, anns)" by (cases n)
  have "send_to_all env (n # ns) ident body mid =
      await (router_send env anns ident body p (Some mid)) (\<lambda>r.
      await (send_to_all env ns ident body mid) (\<lambda>any_ok. ready (\<not> isl r \<or> any_ok)))"
    by (rule ext) (simp add: n)
  then show ?case
    by (simp only:) (intro keeps_intros keeps_router_send [OF assms] Cons.IH)
qed (simp add: keeps_def)

lemma keeps_flood_neighbors:
  assumes "env_keeps I env" "env_blake3 env = h"
  shows "keeps I (flood_neighbors env ident body mid)"
proof (rule keepsI)
  fix s assume "I s"
  moreover have "keeps I (await (send_to_all env ns ident body mid)
      (\<lambda>any_ok. ready (if any_ok then Inr () else Inl DeliveryFailed)))" for ns
    by (intro keeps_intros keeps_send_to_all [OF assms])
  ultimately show "I (snd (flood_neighbors env ident body mid s))"
    by (simp add: flood_neighbors_def keeps_def)
qed

lemma keeps_send_routed:
  assumes "env_keeps I env" "env_blake3 env = h"
  shows "keeps I (send_routed env nd dest payload)"
  unfolding send_routed_def
  by (intro keeps_await keeps_draw_message_id keeps_flood_neighbors assms)

lemma keeps_send_routed_sealed:
  assumes "env_keeps I env" "env_blake3 env = h"
  shows "keeps I (send_routed_sealed env nd dest payload)"
proof (rule keepsI)
  fix s assume "I s"
  moreover have "keeps I (await (update (draw_ephemeral env)) (\<lambda>ephemeral.
      try_now (seal (env_snow env) (identity nd) key payload ephemeral) (\<lambda>sealed.
      await (update (draw_message_id env)) (\<lambda>msg_id.
        flood_neighbors env (identity nd)
          (routed_body 0x03 dest (bytes_of (as_bytes (peer_id (identity nd))) @ sealed)) msg_id))))" for key
    by (intro keeps_await keeps_try_now keeps_draw_message_id keeps_flood_neighbors keeps_update
        env_keepsD(4) [OF assms(1)] assms)
  ultimately show "I (snd (send_routed_sealed env nd dest payload s))"
    by (simp add: send_routed_sealed_def keeps_def split: option.splits)
qed

lemma keeps_store_forward:
  assumes "env_keeps I env" "env_blake3 env = h"
  shows "keeps I (store_forward env nd p payload)"
  unfolding store_forward_def
proof (rule keeps_await [OF keeps_draw_message_id [OF assms(1)]], rule keepsI, goal_cases)
  case (1 mid s)
  have queue: "keeps I (if isl r then modify (enqueue_direct nd p (mid, payload, t)) else ready ())"
    for r :: "unit result" and t
    by (auto intro!: keeps_intros inv_enqueue_direct)
  show ?case
    unfolding Let_def
    by (rule keeps_snd [OF keeps_await [OF _ queue] 1])
       (auto split: option.splits intro!: keeps_ready keeps_router_send [OF assms])
qed

lemma keeps_store_forward_routed:
  assumes "env_keeps I env" "env_blake3 env = h"
  shows "keeps I (store_forward_routed env nd p payload)"
  unfolding store_forward_routed_def
proof (rule keeps_await [OF keeps_draw_message_id [OF assms(1)]], rule keepsI, goal_cases)
  case (1 mid s)
  have queue: "keeps I (if ok then ready () else modify (enqueue_routed nd p (mid, payload, t)))" for ok t
    by (auto intro!: keeps_intros inv_enqueue_routed)
  show ?case
    unfolding Let_def
    by (rule keeps_snd [OF keeps_await [OF keeps_send_to_all [OF assms] queue] 1])
qed

lemma keeps_drain_direct:
  assumes "env_keeps I env" "env_blake3 env = h"
  shows "keeps I (drain_direct_for_peer env nd p)"
proof (rule keepsI)
  fix s assume s: "I s"
  have attempt: "keeps I (attempt_direct env nd p anns e)" for e and anns
    by (auto simp: attempt_direct_def split: prod.splits intro!: keeps_intros keeps_router_send [OF assms])
  have requeue: "keeps I (modify (\<lambda>s. s\<lparr>pending_direct := requeue p failures (pending_direct s)\<rparr>))" for failures
    by (intro keeps_intros inv_pending_direct) auto
  show "I (snd (drain_direct_for_peer env nd p s))"
    using keeps_snd [OF keeps_await [OF keeps_drain_entries [OF attempt] requeue] inv_pending_direct [OF s hm_wf_remove]]
    by (simp add: drain_direct_for_peer_def s Let_def split: option.splits)
qed

lemma keeps_drain_routed:
  assumes "env_keeps I env" "env_blake3 env = h"
  shows "keeps I (drain_routed env nd dests)"
proof (induction dests)
  case (Cons dest dests)
  have attempt: "keeps I (attempt_routed env nd dest ns e)" for e ns
    by (auto simp: attempt_routed_def split: prod.splits intro!: keeps_send_to_all [OF assms])
  have requeue: "keeps I (await (modify (\<lambda>s. s\<lparr>pending_routed := requeue dest failures (pending_routed s)\<rparr>))
      (\<lambda>_. drain_routed env nd dests))" for failures
    by (intro keeps_intros inv_pending_routed Cons.IH) auto
  show ?case
  proof (rule keepsI)
    fix s assume s: "I s"
    show "I (snd (drain_routed env nd (dest # dests) s))"
      using keeps_snd [OF keeps_await [OF keeps_drain_entries [OF attempt] requeue] inv_pending_routed [OF s hm_wf_remove]]
      by (simp add: keeps_snd [OF Cons.IH s] Let_def split: option.splits)
  qed
qed (simp add: keeps_def)

lemma keeps_drain_all:
  assumes "env_keeps I env" "env_blake3 env = h"
  shows "keeps I (drain_all env nd p)"
  unfolding drain_all_def
  by (intro keeps_await keeps_drain_direct [OF assms] keepsI)
     (simp add: drain_routed_all_def keeps_snd [OF keeps_drain_routed [OF assms]])

lemma keeps_node_connect:
  assumes "env_keeps I env" "env_blake3 env = h"
  shows "keeps I (node_connect env nd ann)"
  unfolding node_connect_def
  by (intro keeps_try_await keeps_await keeps_modify keeps_ready inv_remember
      keeps_router_connect [OF assms] keeps_drain_all [OF assms])

lemma keeps_on_event:
  assumes "env_keeps I env" "env_blake3 env = h"
  shows "keeps I (on_event env nd ev)"
  by (simp add: on_event_def keeps_drain_all [OF assms] keeps_flood [OF assms] keeps_ready split: TransportEvent.splits)

lemma keeps_run_relay_task:
  assumes "env_keeps I env" "env_blake3 env = h"
  shows "keeps I (run_relay_task env nd task)"
  unfolding run_relay_task_def by (intro keeps_await keeps_ready keeps_router_send [OF assms])

lemma keeps_accept_once:
  assumes "env_keeps I env" "env_blake3 env = h"
  shows "keeps I (accept_once n env nd tr)"
proof (rule keepsI)
  fix s assume s: "I s"
  have accept: "yields_conn I (transport_accept (transport env tr))"
    using env_keepsD(1) [OF assms(1), of tr] by (simp add: transport_keeps_def)
  obtain r s' where run: "transport_accept (transport env tr) s = (r, s')"
    by (cases "transport_accept (transport env tr) s")
  with accept s have s': "I s'" by (auto simp: yields_conn_def dest: keepsD)
  show "I (snd (accept_once n env nd tr s))"
  proof (cases r)
    case (Ready x)
    show ?thesis
    proof (cases x)
      case (Inr conn)
      with accept s run Ready have "conn_keeps I conn" by (auto simp: yields_conn_def)
      from keeps_snd [OF keeps_handle_incoming [OF assms this] s'] run Ready Inr show ?thesis
        by (simp add: accept_once_def await_def)
    next
      case (Inl e)
      with run Ready env_keepsD(2) [OF assms(1) s'] show ?thesis
        by (simp add: accept_once_def await_def sleep_def)
    qed
  qed (use run s' in \<open>simp add: accept_once_def await_def\<close>)
qed

end

lemma addresses_distinct_insert:
  "addresses_distinct table \<Longrightarrow> distinct (map address anns) \<Longrightarrow> addresses_distinct (hm_insert p anns table)"
  using snd_set_hm_insert [of p anns table] unfolding addresses_distinct_def by blast

lemma table_ok_remember: "table_ok s \<Longrightarrow> table_ok (remember_peer p ann s)"
  using addresses_distinct_get [of "peers s" p]
  by (simp add: table_ok_def remember_peer_def push_announcement_def Let_def list_ex_iff)
     (auto intro!: addresses_distinct_insert, blast)

interpretation certified: api_invariant h "certified h" for h
  by unfold_locales (auto simp: certified_def remember_peer_def)

interpretation table: api_invariant h table_ok for h
  by unfold_locales (auto simp: table_ok_remember, auto simp: table_ok_def)

interpretation event_history: api_invariant h "\<lambda>s. prefix log (event_log s)" for h log
  by unfold_locales (auto simp: remember_peer_def)

interpretation history: api_invariant h
  "\<lambda>s. prefix msgs (delivered s) \<and> prefix tasks (relay_tasks s) \<and> dedup_inv (dedup s)" for h msgs tasks
  by unfold_locales (auto simp: remember_peer_def)

section \<open>What a drain does with every entry\<close>

abbreviation logs :: "('e, 'h, 't, 'w NodeState) Env \<Rightarrow> bool" where
  "logs env \<equiv> \<forall>log. env_keeps (\<lambda>s. prefix log (event_log s)) env"

text \<open>The events of a kind that a run has added to the log.\<close>

definition new_events :: "(TransportEvent \<Rightarrow> bool) \<Rightarrow> 'w NodeState \<Rightarrow> 'w NodeState \<Rightarrow> nat" where
  "new_events E s s' = length (filter E (event_log s')) - length (filter E (event_log s))"

definition extends :: "'w NodeState \<Rightarrow> 'w NodeState \<Rightarrow> bool" where
  "extends s s' \<longleftrightarrow> prefix (event_log s) (event_log s')"

lemma extends_trans: "extends s s' \<Longrightarrow> extends s' s'' \<Longrightarrow> extends s s''"
  by (auto simp: extends_def)

lemma new_events_add:
  "extends s s' \<Longrightarrow> extends s' s'' \<Longrightarrow> new_events E s s'' = new_events E s s' + new_events E s' s''"
  by (auto simp: extends_def new_events_def prefix_def)

definition is_delivery :: "PeerId set \<Rightarrow> TransportEvent \<Rightarrow> bool" where
  "is_delivery P e \<longleftrightarrow> (case e of MessageDelivered p _ \<Rightarrow> p \<in> P | _ \<Rightarrow> False)"

lemma router_send_logs:
  assumes "logs env" "router_send env anns ident payload p (Some mid) s = (Ready r, s')"
  shows "extends s s' \<and> (\<not> isl r \<longrightarrow> (p \<in> P \<longrightarrow> 0 < new_events (is_delivery P) s s'))"
proof -
  have "extends s s'"
    using keepsD [OF event_history.keeps_router_send [OF spec [OF assms(1), of "event_log s"] refl] _ assms(2)]
    by (simp add: extends_def)
  moreover have "0 < new_events (is_delivery P) s s'" if "r = Inr ()" "p \<in> P"
  proof -
    have run: "router_send env anns ident payload p (Some mid) s = (Ready (Inr ()), s')"
      using assms(2) that(1) by (simp only:)
    obtain k learned s\<^sub>1 where s\<^sub>1: "prefix (event_log s) (event_log s\<^sub>1)" "s' = announce_sent p k learned s\<^sub>1"
      using event_history.router_send_announces [OF spec [OF assms(1), of "event_log s"] refl _ run]
      by auto
    then show ?thesis
      using that(2)
      by (auto simp: new_events_def announce_sent_def Let_def emit_def is_delivery_def prefix_def split: option.splits)
  qed
  ultimately show ?thesis by (cases r) auto
qed

definition expired :: "duration \<Rightarrow> instant \<Rightarrow> queued \<Rightarrow> bool" where
  "expired limit t = (\<lambda>(_, _, queued_at). limit < t - queued_at)"

lemma drain_entries_accounts:
  assumes attempt: "\<And>e s ok s'. attempt e s = (Ready ok, s') \<Longrightarrow>
      extends s s' \<and> (ok \<longrightarrow> 0 < new_events E s s')"
    and E: "\<not> E (StoreFailed p)"
  shows "drain_entries limit p t attempt es s = (Ready failures, s') \<Longrightarrow>
    extends s s' \<and> subseq failures (filter (Not \<circ> expired limit t) es) \<and>
    length (filter (expired limit t) es) \<le> new_events ((=) (StoreFailed p)) s s' \<and>
    length (filter (Not \<circ> expired limit t) es) \<le> length failures + new_events E s s'"
proof (induction es arbitrary: s failures)
  case Nil
  then show ?case by (simp add: extends_def)
next
  case (Cons e es)
  obtain mid payload t' where e: "e = (mid, payload, t')" by (cases e)
  show ?case
  proof (cases "expired limit t e")
    case True
    let ?s = "emit (StoreFailed p) s"
    from Cons.prems True have "drain_entries limit p t attempt es ?s = (Ready failures, s')"
      by (simp add: e expired_def)
    note IH = Cons.IH [OF this]
    have ext: "extends s ?s" by (simp add: extends_def emit_def)
    have "new_events ((=) (StoreFailed p)) s ?s = 1"
      by (simp add: new_events_def emit_def)
    with IH True new_events_add [OF ext] show ?thesis
      by (auto intro: extends_trans [OF ext])
  next
    case False
    obtain ok s\<^sub>1 where run: "attempt e s = (Ready ok, s\<^sub>1)"
      using Cons.prems False by (auto simp: e expired_def await_def split: prod.splits poll.splits)
    obtain fs where fs: "drain_entries limit p t attempt es s\<^sub>1 = (Ready fs, s')"
        "failures = (if ok then fs else e # fs)"
      using Cons.prems False run by (auto simp: e expired_def await_def ready_def split: prod.splits poll.splits)
    note IH = Cons.IH [OF fs(1)] and step = attempt [OF run]
    from IH step new_events_add [of s s\<^sub>1 s'] False fs(2) show ?thesis
      by (auto intro: extends_trans)
  qed
qed


lemma attempt_direct_logs:
  assumes "logs env" "attempt_direct env nd p anns e s = (Ready ok, s')"
  shows "extends s s' \<and> (ok \<longrightarrow> 0 < new_events (is_delivery {p}) s s')"
proof (cases "anns = []")
  case True
  with assms(2) show ?thesis by (simp add: attempt_direct_def ready_def extends_def split: prod.splits)
next
  case False
  obtain mid payload t where e: "e = (mid, payload, t)" by (cases e)
  obtain r where "router_send env anns (identity nd) (0x00 # payload) p (Some mid) s = (Ready r, s')" "ok = (\<not> isl r)"
    using assms(2) False by (auto simp: attempt_direct_def e await_def ready_def split: prod.splits poll.splits)
  with router_send_logs [OF assms(1) this(1), of "{p}"] show ?thesis by simp
qed

lemma send_to_all_logs:
  assumes "logs env"
  shows "fst ` set ns \<subseteq> P \<Longrightarrow> send_to_all env ns ident body mid s = (Ready ok, s') \<Longrightarrow>
    extends s s' \<and> (ok \<longrightarrow> 0 < new_events (is_delivery P) s s')"
proof (induction ns arbitrary: s ok)
  case Nil
  then show ?case by (simp add: extends_def)
next
  case (Cons n ns)
  obtain p anns where n: "n = (p, anns)" by (cases n)
  obtain r s\<^sub>1 where run: "router_send env anns ident body p (Some mid) s = (Ready r, s\<^sub>1)"
    using Cons.prems(2) by (auto simp: n await_def split: prod.splits poll.splits)
  obtain ok' where rest: "send_to_all env ns ident body mid s\<^sub>1 = (Ready ok', s')" "ok = (\<not> isl r \<or> ok')"
    using Cons.prems(2) run by (auto simp: n await_def ready_def split: prod.splits poll.splits)
  have "p \<in> P" "fst ` set ns \<subseteq> P" using Cons.prems(1) n by auto
  with router_send_logs [OF assms run, of P] Cons.IH [OF _ rest(1)] rest(2) new_events_add [of s s\<^sub>1 s' "is_delivery P"]
  show ?case by (auto intro: extends_trans)
qed

lemma attempt_routed_logs:
  assumes "logs env" "attempt_routed env nd dest ns e s = (Ready ok, s')"
  shows "extends s s' \<and> (ok \<longrightarrow> 0 < new_events (is_delivery (fst ` set ns)) s s')"
  using send_to_all_logs [OF assms(1) subset_refl] assms(2)
  by (cases e) (simp add: attempt_routed_def)

text \<open>Every entry of a drained queue is accounted for.\<close>

definition accounted ::
  "(TransportEvent \<Rightarrow> bool) \<Rightarrow> duration \<Rightarrow> PeerId \<Rightarrow> instant \<Rightarrow> queued list \<Rightarrow> queued list \<Rightarrow> 'w NodeState \<Rightarrow>
     'w NodeState \<Rightarrow> bool" where
  "accounted E limit p t es remaining s s' \<longleftrightarrow>
     (\<exists>failures. prefix failures remaining \<and> subseq failures (filter (Not \<circ> expired limit t) es) \<and>
       length (filter (expired limit t) es) \<le> new_events ((=) (StoreFailed p)) s s' \<and>
       length (filter (Not \<circ> expired limit t) es) \<le> length failures + new_events E s s')"

lemma new_events_queue [simp]:
  "new_events E (s\<lparr>pending_direct := d\<rparr>) s' = new_events E s s'"
  "new_events E (s\<lparr>pending_routed := d\<rparr>) s' = new_events E s s'"
  "new_events E s (s'\<lparr>pending_direct := d\<rparr>) = new_events E s s'"
  "new_events E s (s'\<lparr>pending_routed := d\<rparr>) = new_events E s s'"
  by (simp_all add: new_events_def)

lemma prefix_requeue: "prefix fs (hm_or_default [] p (requeue p fs store))"
  by (simp add: requeue_def hm_or_default_def)

lemma drain_direct_accounted:
  assumes "logs env" "hm_get (pending_direct s) p = Some es" "drain_direct_for_peer env nd p s = (Ready (), s')"
  shows "accounted (is_delivery {p}) (store_ttl nd) p
    (now (runtime env) (s\<lparr>pending_direct := hm_remove p (pending_direct s)\<rparr>)) es
    (hm_or_default [] p (pending_direct s')) s s'"
proof -
  let ?s = "s\<lparr>pending_direct := hm_remove p (pending_direct s)\<rparr>"
  obtain fs s\<^sub>1 where run: "drain_entries (store_ttl nd) p (now (runtime env) ?s)
      (attempt_direct env nd p (hm_or_default [] p (peers ?s))) es ?s = (Ready fs, s\<^sub>1)"
      and s': "s' = s\<^sub>1\<lparr>pending_direct := requeue p fs (pending_direct s\<^sub>1)\<rparr>"
    using assms(2,3) by (auto simp: drain_direct_for_peer_def await_def Let_def split: prod.splits poll.splits)
  have "\<not> is_delivery {p} (StoreFailed p)" by (simp add: is_delivery_def)
  from drain_entries_accounts [OF attempt_direct_logs [OF assms(1)] this run] show ?thesis
    unfolding accounted_def s' by (intro exI [of _ fs]) (simp add: prefix_requeue)
qed

lemma drain_routed_accounted:
  assumes "logs env" "hm_get (pending_routed s) dest = Some es" "drain_routed env nd [dest] s = (Ready (), s')"
  shows "accounted (is_delivery (fst ` set (neighbors (identity nd) s))) (store_ttl nd) dest
    (now (runtime env) (s\<lparr>pending_routed := hm_remove dest (pending_routed s)\<rparr>)) es
    (hm_or_default [] dest (pending_routed s')) s s'"
proof -
  let ?s = "s\<lparr>pending_routed := hm_remove dest (pending_routed s)\<rparr>"
  have ns: "neighbors (identity nd) ?s = neighbors (identity nd) s" by (simp add: neighbors_def)
  obtain fs s\<^sub>1 where run: "drain_entries (store_ttl nd) dest (now (runtime env) ?s)
      (attempt_routed env nd dest (neighbors (identity nd) s)) es ?s = (Ready fs, s\<^sub>1)"
      and s': "s' = s\<^sub>1\<lparr>pending_routed := requeue dest fs (pending_routed s\<^sub>1)\<rparr>"
    using assms(2,3) by (auto simp: ns await_def Let_def split: prod.splits poll.splits)
  have "\<not> is_delivery (fst ` set (neighbors (identity nd) s)) (StoreFailed dest)" by (simp add: is_delivery_def)
  from drain_entries_accounts [OF attempt_routed_logs [OF assms(1)] this run] show ?thesis
    unfolding accounted_def s' by (intro exI [of _ fs]) (simp add: prefix_requeue)
qed

text \<open>When every attempt fails without an effect, the live entries stay and the others are reported.\<close>

lemma drain_entries_idle:
  assumes "\<And>e s'. any_available s' = any_available s \<Longrightarrow> attempt e s' = (Ready False, s')"
  shows "any_available s\<^sub>0 = any_available s \<Longrightarrow> drain_entries limit p t attempt es s\<^sub>0 =
    (Ready (filter (Not \<circ> expired limit t) es),
     s\<^sub>0\<lparr>event_log := event_log s\<^sub>0 @ replicate (length (filter (expired limit t) es)) (StoreFailed p)\<rparr>)"
proof (induction es arbitrary: s\<^sub>0)
  case (Cons e es)
  obtain mid payload t' where e: "e = (mid, payload, t')" by (cases e)
  have "any_available (emit (StoreFailed p) s\<^sub>0) = any_available s"
    using Cons.prems by (simp add: any_available_def emit_def)
  from Cons.IH [OF this] Cons.IH [OF Cons.prems] assms [OF Cons.prems] show ?case
    by (auto simp: e expired_def await_def ready_def emit_def)
qed simp

lemma attempt_direct_idle:
  "anns = [] \<or> \<not> any_available s \<Longrightarrow> attempt_direct env nd p anns e s = (Ready False, s)"
  by (auto simp: attempt_direct_def router_send_def await_def ready_def split: prod.splits)

text \<open>No queue is longer than the bound.\<close>

definition depth_ok :: "nat \<Rightarrow> 'w NodeState \<Rightarrow> bool" where
  "depth_ok m s \<longleftrightarrow> list_all (\<lambda>e. length (snd e) \<le> m) (pending_direct s) \<and>
     list_all (\<lambda>e. length (snd e) \<le> m) (pending_routed s)"

interpretation depth: node_invariant h "depth_ok m" for h m
  by unfold_locales (auto simp: depth_ok_def emit_def)

lemma list_all_hm_insert:
  "list_all (P \<circ> snd) m \<Longrightarrow> P v \<Longrightarrow> list_all (P \<circ> snd) (hm_insert k v m)"
  using snd_set_hm_insert [of k v m] by (fastforce simp: list_all_iff)

lemma list_all_or_default:
  "list_all (P \<circ> snd) m \<Longrightarrow> P d \<Longrightarrow> P (hm_or_default d k m)"
  by (auto simp: hm_or_default_def list_all_iff split: option.splits dest!: hm_get_Some_mem)

lemma enqueue_depth:
  assumes "list_all (\<lambda>e. length (snd e) \<le> m) store"
  shows "list_all (\<lambda>e. length (snd e) \<le> m) (snd (enqueue (Some m) p item store))"
proof -
  let ?P = "\<lambda>q :: queued list. length q \<le> m"
  have store: "list_all (?P \<circ> snd) store"
    using assms by (simp add: comp_def)
  have "?P (hm_or_default [] p store)"
    by (rule list_all_or_default [OF store]) simp
  then show ?thesis
    using list_all_hm_insert [OF store] by (auto simp: enqueue_def Let_def comp_def)
qed

lemma depth_ok_enqueue:
  assumes "depth_ok m s" "max_queue_depth nd = Some m"
  shows "depth_ok m (enqueue_direct nd p item s)" "depth_ok m (enqueue_routed nd p item s)"
  using assms enqueue_depth [of m]
  by (auto simp: depth_ok_def enqueue_direct_def enqueue_routed_def emit_def case_prod_beta Let_def)

lemma keeps_depth_store_forward:
  assumes env: "env_keeps (depth_ok m) env" and nd: "max_queue_depth nd = Some m"
  shows "keeps (depth_ok m) (store_forward env nd p payload)"
  unfolding store_forward_def
proof (rule keeps_await [OF keeps_update], goal_cases)
  case (1 s)
  then show ?case by (simp add: draw_message_id_def case_prod_beta env_keepsD(3) [OF env])
next
  case (2 mid)
  show ?case
  proof (rule keepsI, goal_cases)
    case (1 s)
    have queue: "keeps (depth_ok m) (if isl r then modify (enqueue_direct nd p (mid, payload, t)) else ready ())"
      for r :: "unit result" and t
      by (auto intro!: keeps_intros depth_ok_enqueue nd)
    show ?case
      unfolding Let_def
      by (rule keeps_snd [OF keeps_await [OF _ queue] 1])
         (auto split: option.splits intro!: keeps_ready depth.keeps_router_send [OF env refl])
  qed
qed

lemma script_env_keeps:
  assumes "\<And>s w. I s \<Longrightarrow> I (s\<lparr>world := w\<rparr>)"
  shows "env_keeps I script_env"
  using assms
  by (auto simp: env_keeps_def transport_keeps_def yields_conn_def conn_keeps_def keeps_def script_env_def
      script_transport_def script_connection_def split: list.splits)


lemma logs_script_env: "logs script_env"
  by (auto intro!: script_env_keeps)

section \<open>Properties\<close>

text \<open>
  C7: a drain of the direct queue loses nothing.  When it completes, the queue starts with
  entries that are a subsequence of the unexpired ones taken out, in their order; each
  expired entry has its \<open>StoreFailed\<close> event, and each unexpired one that did not go back has
  its \<open>MessageDelivered\<close> event for this peer.
\<close>

theorem drain_direct_loses_nothing:
  assumes "logs env" "hm_get (pending_direct s) p = Some q"
    and "drain_direct_for_peer env nd p s = (Ready (), s')"
  shows "accounted (is_delivery {p}) (store_ttl nd) p
    (now (runtime env) (s\<lparr>pending_direct := hm_remove p (pending_direct s)\<rparr>)) q
    (hm_or_default [] p (pending_direct s')) s s'"
  by (rule drain_direct_accounted [OF assms])

definition script_node :: NodeCore where
  "script_node = \<lparr>identity = plain_identity first_byte_hash 1, store_ttl = 1000, max_queue_depth = Some 1\<rparr>"

definition queued_state :: "bytes list NodeState" where
  "queued_state = (script_state [])\<lparr>pending_direct := [(PeerId (fill_array 2), [(5, [1, 2], 0)])],
     pending_routed := [(PeerId (fill_array 2), [(6, [3], 0)])]\<rparr>"

theorem drain_direct_loses_nothing_witness:
  "accounted (is_delivery {PeerId (fill_array 2)}) 1000 (PeerId (fill_array 2)) 0 [(5, [1, 2], 0)]
     [(5, [1, 2], 0)] queued_state queued_state"
proof -
  let ?p = "PeerId (fill_array 2)"
  have "drain_direct_for_peer script_env script_node ?p queued_state = (Ready (), queued_state)"
    by (simp add: drain_direct_for_peer_def queued_state_def script_state_def attempt_direct_def script_env_def
        script_node_def await_def ready_def requeue_def hm_or_default_def)
  from drain_direct_loses_nothing [OF logs_script_env _ this] show ?thesis
    by (simp add: queued_state_def script_node_def hm_or_default_def script_env_def)
qed

text \<open>
  The same for the routed queue of a destination, where the delivery is one to a
  neighbour: a peer of the table other than the node itself.
\<close>

theorem drain_routed_loses_nothing:
  assumes "logs env" "hm_get (pending_routed s) dest = Some q"
    and "drain_routed env nd [dest] s = (Ready (), s')"
  shows "accounted (is_delivery (fst ` set (neighbors (identity nd) s))) (store_ttl nd) dest
    (now (runtime env) (s\<lparr>pending_routed := hm_remove dest (pending_routed s)\<rparr>)) q
    (hm_or_default [] dest (pending_routed s')) s s'"
  by (rule drain_routed_accounted [OF assms])

theorem drain_routed_loses_nothing_witness:
  "accounted (is_delivery {}) 1000 (PeerId (fill_array 2)) 0 [(6, [3], 0)] [(6, [3], 0)] queued_state queued_state"
proof -
  let ?p = "PeerId (fill_array 2)"
  have "drain_routed script_env script_node [?p] queued_state = (Ready (), queued_state)"
    by (simp add: queued_state_def script_state_def attempt_routed_def script_env_def neighbors_def
        script_node_def await_def ready_def requeue_def hm_or_default_def)
  from drain_routed_loses_nothing [OF logs_script_env _ this] show ?thesis
    by (simp add: queued_state_def script_node_def hm_or_default_def script_env_def neighbors_def script_state_def)
qed

text \<open>
  A drain while the peer has no address or no transport is available reports the expired
  entries, one event each, keeps the others in their order, and changes nothing else.
\<close>

theorem drain_of_unreachable_peer:
  assumes "hm_get (pending_direct s) p = Some q"
    and "hm_or_default [] p (peers s) = [] \<or> \<not> any_available s"
    and "t = now (runtime env) (s\<lparr>pending_direct := hm_remove p (pending_direct s)\<rparr>)"
  shows "drain_direct_for_peer env nd p s =
    (Ready (), s\<lparr>pending_direct := requeue p (filter (Not \<circ> expired (store_ttl nd) t) q) (hm_remove p (pending_direct s)),
       event_log := event_log s @ replicate (length (filter (expired (store_ttl nd) t) q)) (StoreFailed p)\<rparr>)"
proof -
  let ?s = "s\<lparr>pending_direct := hm_remove p (pending_direct s)\<rparr>"
  have "drain_entries (store_ttl nd) p t (attempt_direct env nd p (hm_or_default [] p (peers s))) q ?s =
      (Ready (filter (Not \<circ> expired (store_ttl nd) t) q),
       ?s\<lparr>event_log := event_log ?s @ replicate (length (filter (expired (store_ttl nd) t) q)) (StoreFailed p)\<rparr>)"
    by (rule drain_entries_idle [where s = s], rule attempt_direct_idle)
       (use assms(2) in \<open>auto simp: any_available_def\<close>)
  then show ?thesis
    using assms(1,3) by (simp add: drain_direct_for_peer_def await_def Let_def)
qed

theorem drain_of_unreachable_peer_witness:
  "drain_direct_for_peer script_env script_node (PeerId (fill_array 2)) queued_state = (Ready (), queued_state)"
proof -
  have "hm_get (pending_direct queued_state) (PeerId (fill_array 2)) = Some [(5, [1, 2], 0)]"
    "hm_or_default [] (PeerId (fill_array 2)) (peers queued_state) = []"
    by (simp_all add: queued_state_def script_state_def hm_or_default_def)
  from drain_of_unreachable_peer [OF this(1) disjI1 [OF this(2)] refl, of script_env script_node] show ?thesis
    by (simp add: script_env_def expired_def script_node_def requeue_def hm_or_default_def queued_state_def script_state_def)
qed




text \<open>
  A transport that cannot be dialled, while another task calls \<open>store_forward\<close> for the same
  peer; that call respects the bound.
\<close>

definition busy_env :: "PeerId \<Rightarrow> (bool, bytes \<times> bytes32 option, unit, bytes list NodeState) Env" where
  "busy_env p = script_env\<lparr>transport := \<lambda>_. script_transport\<lparr>transport_connect := \<lambda>_ s.
     (Ready (Inl (Transport ''unreachable'')), enqueue_direct script_node p (9, [8], 0) s)\<rparr>\<rparr>"

definition busy_state :: "bytes list NodeState" where
  "busy_state = (script_state [])\<lparr>peers := [(PeerId (fill_array 2), [\<lparr>address = Quic (V4 (fill_array 1) 9000), short_id = None\<rparr>])],
     pending_direct := [(PeerId (fill_array 2), [(5, [1, 2], 0)])]\<rparr>"

lemma busy_env_keeps: "env_keeps (depth_ok 1) (busy_env p)"
proof -
  have nd: "max_queue_depth script_node = Some 1" by (simp add: script_node_def)
  have "depth_ok 1 (enqueue_direct script_node p item s)" "depth_ok 1 (s\<lparr>world := w\<rparr>)"
    if "depth_ok 1 s" for item s and w :: "bytes list"
    using depth_ok_enqueue(1) [OF that nd] that by (auto simp: depth_ok_def)
  then show ?thesis
    by (auto simp: env_keeps_def transport_keeps_def yields_conn_def conn_keeps_def keeps_def script_env_def
        busy_env_def script_transport_def script_connection_def split: list.splits)
qed

text \<open>
  A drain does not respect \<open>max_queue_depth\<close>.  It takes the entries out of the queue before
  it sends them and puts the failed ones back in front without looking at the bound: payloads
  accepted meanwhile stay behind them, and the queue is longer than the configuration allows.
\<close>

theorem drain_can_exceed_depth:
  "max_queue_depth script_node = Some 1 \<and> depth_ok 1 busy_state \<and> env_keeps (depth_ok 1) (busy_env (PeerId (fill_array 2))) \<and>
   hm_get (pending_direct (snd (drain_direct_for_peer (busy_env (PeerId (fill_array 2))) script_node (PeerId (fill_array 2)) busy_state)))
     (PeerId (fill_array 2)) = Some [(5, [1, 2], 0), (9, [8], 0)]"
proof -
  let ?p = "PeerId (fill_array 2)" and ?ann = "\<lparr>address = Quic (V4 (fill_array 1) 9000), short_id = None\<rparr>"
  have fails: "try_send (busy_env ?p) n ann ident payload mid q s =
      (Ready (Inl (Transport ''unreachable'')), enqueue_direct script_node ?p (9, [8], 0) s)" for n ann ident payload mid q s
    by (simp add: try_send_def with_connection_def busy_env_def try_await_def)
  have cand: "matching (busy_env ?p) [?ann] s = [(0, ?ann)]" if "transports s = transports busy_state" for s
    using that by (simp add: matching_def busy_state_def script_state_def busy_env_def script_transport_def)
  have sleep: "sleep (runtime (busy_env ?p)) d s = s" "now (runtime (busy_env ?p)) s = 0" for d s
    by (simp_all add: sleep_def busy_env_def script_env_def)
  have enq: "transports (enqueue_direct script_node ?p item s) = transports s" for item s
    by (simp add: enqueue_direct_def emit_def case_prod_beta Let_def)
  let ?s = "busy_state\<lparr>pending_direct := []\<rparr>" and ?e = "enqueue_direct script_node ?p (9, [8], 0)"
  have "router_send (busy_env ?p) [?ann] ident payload ?p (Some mid) ?s = (Ready (Inl DeliveryFailed), ?e (?e (?e ?s)))" for ident payload mid
    by (simp add: router_send_def MAX_SEND_ATTEMPTS_def numeral_3_eq_3 cand enq sort_candidates_def await_def fails sleep Let_def
        any_available_def busy_state_def script_state_def)
  then have "drain_direct_for_peer (busy_env ?p) script_node ?p busy_state =
      (Ready (), (?e (?e (?e ?s)))\<lparr>pending_direct := requeue ?p [(5, [1, 2], 0)] (pending_direct (?e (?e (?e ?s))))\<rparr>)"
    by (simp add: drain_direct_for_peer_def busy_state_def attempt_direct_def await_def ready_def
        hm_or_default_def sleep Let_def)
  moreover have "pending_direct (?e (?e (?e ?s))) = [(?p, [(9, [8], 0)])]"
    by (simp add: enqueue_direct_def enqueue_def script_node_def hm_or_default_def emit_def)
  ultimately show ?thesis
    using busy_env_keeps
    by (simp add: script_node_def depth_ok_def busy_state_def script_state_def requeue_def hm_or_default_def)
qed


text \<open>
  \<open>send_routed\<close> returns \<open>NoTransportAvailable\<close> exactly when the node knows no peer but
  itself; otherwise it returns success only after at least one such peer has acknowledged the
  frame, reported by a \<open>MessageDelivered\<close> event for it, and \<open>DeliveryFailed\<close> in the other cases.
\<close>

theorem send_routed_reports_some_neighbour:
  assumes "logs env" "draw_message_id env s = (mid, s\<^sub>1)" "send_routed env nd dest payload s = (Ready r, s')"
  shows "(r = Inl NoTransportAvailable \<longleftrightarrow> neighbors (identity nd) s\<^sub>1 = []) \<and>
    (r = Inr () \<longrightarrow> 0 < new_events (is_delivery (fst ` set (neighbors (identity nd) s\<^sub>1))) s\<^sub>1 s') \<and>
    (r = Inr () \<or> r = Inl NoTransportAvailable \<or> r = Inl DeliveryFailed)"
proof -
  let ?ns = "neighbors (identity nd) s\<^sub>1"
  have flood: "flood_neighbors env (identity nd) (routed_body 0x01 dest payload) mid s\<^sub>1 = (Ready r, s')"
    using assms(2,3) by (simp add: send_routed_def await_def update_apply)
  show ?thesis
  proof (cases "?ns = []")
    case True
    with flood show ?thesis by (auto simp: flood_neighbors_def)
  next
    case False
    obtain ok where "send_to_all env ?ns (identity nd) (routed_body 0x01 dest payload) mid s\<^sub>1 = (Ready ok, s')"
        "r = (if ok then Inr () else Inl DeliveryFailed)"
      using flood False by (auto simp: flood_neighbors_def await_def ready_def split: prod.splits poll.splits)
    with send_to_all_logs [OF assms(1) subset_refl this(1)] False show ?thesis by auto
  qed
qed

theorem send_routed_reports_some_neighbour_witness:
  "fst (send_routed script_env script_node (PeerId (fill_array 4)) [1] (script_state [])) = Ready (Inl NoTransportAvailable)"
proof -
  let ?s = "script_state []"
  have draw: "draw_message_id script_env ?s = (new_message_id (fill_array 0), ?s)"
    by (simp add: draw_message_id_def script_env_def)
  have none: "neighbors (identity script_node) ?s = []"
    by (simp add: neighbors_def script_state_def)
  obtain r s' where run: "send_routed script_env script_node (PeerId (fill_array 4)) [1] ?s = (Ready r, s')"
    by (simp add: send_routed_def await_def update_apply draw flood_neighbors_def none)
  with send_routed_reports_some_neighbour [OF logs_script_env draw run] none show ?thesis by simp
qed

text \<open>The frame a sealed send hands to every neighbour, as the neighbour receives it.\<close>

lemma send_routed_sealed_frame:
  assumes "registry_get (key_registry s) dest = Some key" "draw_ephemeral env s = (e, s\<^sub>1)"
    and "seal (env_snow env) (identity nd) key payload e = Inr sealed" "draw_message_id env s\<^sub>1 = (mid, s\<^sub>2)"
  shows "send_routed_sealed env nd dest payload s =
    flood_neighbors env (identity nd)
      (routed_body 0x03 dest (bytes_of (as_bytes (peer_id (identity nd))) @ sealed)) mid s\<^sub>2"
  using assms by (simp add: send_routed_sealed_def await_def update_apply try_now_def)

lemma routed_body_frame:
  "u64_to_be_bytes mid @ routed_body flag dest body = routed_frame flag mid dest MAX_TTL body"
  by (simp add: routed_body_def routed_frame_def)

text \<open>
  C1: a sealed message is readable end to end.  When the sender \<open>a\<close> has the key of \<open>b\<close>, a sealed
  send floods one frame, and that frame, after any number of hops through any nodes, makes
  \<open>b\<close> deliver exactly the plaintext, attributed to \<open>a\<close> and not to the neighbour it came from,
  provided \<open>b\<close> has the key of \<open>a\<close>, a handler, and has not seen the id.  The behaviour of the
  Noise pattern K between the two is the hypothesis \<open>noise_k_ok\<close>.
\<close>

theorem sealed_message_end_to_end:
  assumes "noise_k_ok (env_snow env) (identity a) b ka kb" "length payload + 48 \<le> NOISE_MSG_MAX"
    and "registry_get (key_registry s) (peer_id b) = Some kb"
    and "draw_ephemeral env s = (e, s\<^sub>1)" "draw_message_id env s\<^sub>1 = (mid, s\<^sub>2)"
  shows "\<exists>body. send_routed_sealed env a (peer_id b) payload s = flood_neighbors env (identity a) body mid s\<^sub>2 \<and>
    (\<forall>n q t sender. hops env n (u64_to_be_bytes mid @ body) q \<and> handler t \<and> \<not> seen_recently env mid t \<and>
       registry_get (key_registry t) (peer_id (identity a)) = Some ka \<longrightarrow>
       delivered (dispatch_state env b sender (peer_id b) q t) = delivered t @ [(peer_id (identity a), payload)])"
proof -
  obtain sealed where sealed: "seal (env_snow env) (identity a) kb payload e = Inr sealed"
      "unseal (env_snow env) (show_id env) b (peer_id (identity a)) ka sealed = Inr payload"
    using unseal_seal [OF assms(1,2)] by blast
  let ?env = "bytes_of (as_bytes (peer_id (identity a))) @ sealed"
  have flag: "(0x03 :: u8) = 0x01 \<or> (0x03 :: u8) = 0x03 \<and> 32 \<le> length ?env"
    by simp
  show ?thesis
  proof (intro exI conjI allI impI)
    show "send_routed_sealed env a (peer_id b) payload s =
        flood_neighbors env (identity a) (routed_body 0x03 (peer_id b) ?env) mid s\<^sub>2"
      by (rule send_routed_sealed_frame [OF assms(3,4) sealed(1) assms(5)])
  next
    fix n q t sender
    assume "hops env n (u64_to_be_bytes mid @ routed_body 0x03 (peer_id b) ?env) q \<and> handler t \<and>
        \<not> seen_recently env mid t \<and> registry_get (key_registry t) (peer_id (identity a)) = Some ka"
    then have "\<exists>life. q = routed_frame 0x03 mid (peer_id b) life ?env" and t: "handler t"
        "\<not> seen_recently env mid t" "registry_get (key_registry t) (peer_id (identity a)) = Some ka"
      using hops_routed [OF _ flag] by (auto simp: routed_body_frame)
    then show "delivered (dispatch_state env b sender (peer_id b) q t) = delivered t @ [(peer_id (identity a), payload)]"
      using dispatch_sealed_frame [OF t(3,1,2) sealed(2)] by blast
  qed
qed


definition keyed_state :: "u8 \<Rightarrow> bytes list NodeState" where
  "keyed_state x = (script_state [])\<lparr>key_registry := snd (insert_direct (PeerId (fill_array x)) (fill_array x) (registry_new None))\<rparr>"

lemma keyed_state_simps:
  "registry_get (key_registry (keyed_state x)) (PeerId (fill_array x)) = Some (fill_array x)"
  "handler (keyed_state x)" "dedup (keyed_state x) = dedup_new" "delivered (keyed_state x) = []"
  by (simp_all add: keyed_state_def insert_direct_def registry_new_def registry_get_def script_state_def)

lemma plain_noise_k_ok: "noise_k_ok plain_snow (plain_identity h x) (plain_identity h y) ka kb"
  by (simp add: noise_k_ok_def plain_snow_def plain_identity_def generate_def)

lemma plain_identity_peer_id: "peer_id (plain_identity first_byte_hash x) = PeerId (fill_array x)"
  by (simp add: plain_identity_def generate_def peer_id_from_public_key_def first_byte_hash_def)

theorem sealed_message_end_to_end_witness:
  "\<exists>body. delivered (dispatch_state script_env (plain_identity first_byte_hash 2) (PeerId (fill_array 7)) (PeerId (fill_array 2))
     (u64_to_be_bytes (new_message_id (fill_array 0)) @ body) (keyed_state 1)) = [(PeerId (fill_array 1), [10, 20])]"
proof -
  let ?s = "keyed_state 2" and ?mid = "new_message_id (fill_array 0)" and ?b = "plain_identity first_byte_hash 2"
  have nd: "identity script_node = plain_identity first_byte_hash 1"
    by (simp add: script_node_def)
  have draw: "draw_message_id script_env ?s = (?mid, ?s)"
    by (simp add: draw_message_id_def script_env_def)
  have key: "registry_get (key_registry ?s) (peer_id ?b) = Some (fill_array 2)"
    by (simp add: plain_identity_peer_id keyed_state_simps)
  have noise: "noise_k_ok (env_snow script_env) (identity script_node) ?b (fill_array 1) (fill_array 2)"
    by (simp add: nd plain_noise_k_ok)
  have "length [10, 20 :: u8] + 48 \<le> NOISE_MSG_MAX"
    by (simp add: NOISE_MSG_MAX_def)
  from sealed_message_end_to_end [OF noise this key script_env_simps(7) draw]
  obtain body where body: "\<And>n q t sender. hops script_env n (u64_to_be_bytes ?mid @ body) q \<Longrightarrow> handler t \<Longrightarrow>
      \<not> seen_recently script_env ?mid t \<Longrightarrow>
      registry_get (key_registry t) (peer_id (identity script_node)) = Some (fill_array 1) \<Longrightarrow>
      delivered (dispatch_state script_env ?b sender (peer_id ?b) q t) =
        delivered t @ [(peer_id (identity script_node), [10, 20])]"
    by blast
  show ?thesis
    by (rule exI [of _ body])
       (use body [OF hops.start, of "keyed_state 1" "PeerId (fill_array 7)"] in
         \<open>simp add: nd plain_identity_peer_id keyed_state_simps not_seen_new\<close>)
qed

end
