(* ===== verification/Health_Monitor.thy ===== *)
theory Health_Monitor
  imports Node
begin

text \<open>
  The availability of the transports in \<open>crates/pathweave-core/src/router.rs\<close>: registration,
  the task \<open>health_monitor\<close> with its normal and its recovery mode, and \<open>next_best_transport\<close>.
\<close>

section \<open>Registration\<close>

text \<open>
  \<open>Router::register_transport\<close>: the entry of transport \<open>n\<close>, not available yet.  The
  \<open>available\<close> flag the monitor shares with the entry is the flag at the entry's position,
  which is the second result.
\<close>

definition register_transport :: "nat \<Rightarrow> 'w NodeState \<Rightarrow> 'w NodeState \<times> nat" where
  "register_transport n s =
     (s\<lparr>transports := transports s @ [\<lparr>entry_transport = n, available = False\<rparr>]\<rparr>, length (transports s))"

definition set_available :: "nat \<Rightarrow> bool \<Rightarrow> 'w NodeState \<Rightarrow> 'w NodeState" where
  "set_available i b s = s\<lparr>transports := (transports s)[i := (transports s ! i)\<lparr>available := b\<rparr>]\<rparr>"

section \<open>The choice of a fallback\<close>

definition next_best_transport ::
  "('e, 'h, 't, 'w NodeState) Env \<Rightarrow> nat \<Rightarrow> 'w NodeState \<Rightarrow> TransportKind option" where
  "next_best_transport env own s =
     (let others = filter (\<lambda>(i, e). i \<noteq> own \<and> available e) (enumerate 0 (transports s)) in
      if others = [] then None
      else Some (transport_kind (transport env (entry_transport (snd
             (arg_min_list (\<lambda>(_, e). cost_key (transport_cost (transport env (entry_transport e)) s)) others))))))"

section \<open>The interfaces\<close>

text \<open>
  What the crate \<open>if_addrs\<close> returns: the interfaces with their address and whether they are
  loopback interfaces, or an error.
\<close>

datatype IfAddr = IfV4 bytes4 | IfV6

record Interface =
  if_addr :: IfAddr
  is_loopback :: bool

definition current_ipv4_addrs :: "string + Interface list \<Rightarrow> bytes4 set" where
  "current_ipv4_addrs r =
     set (List.map_filter (\<lambda>i. case if_addr i of IfV4 ip \<Rightarrow> Some ip | IfV6 \<Rightarrow> None)
       (filter (\<lambda>i. \<not> is_loopback i) (case r of Inr is \<Rightarrow> is | Inl _ \<Rightarrow> [])))"

section \<open>The monitor\<close>

definition NETWORK_POLL_INTERVAL :: duration where
  "NETWORK_POLL_INTERVAL = 3000"

text \<open>The local variables of \<open>health_monitor\<close>, and the value of its \<open>started\<close> channel.\<close>

record Monitor =
  prev_addrs :: "bytes4 set"
  in_recovery :: bool
  started :: bool

text \<open>The flag, the channel and the event after a successful start.\<close>

definition mark_started :: "nat \<Rightarrow> TransportKind \<Rightarrow> 'w NodeState \<Rightarrow> 'w NodeState" where
  "mark_started i k s = emit (TransportChanged None k) (set_available i True s)"

definition monitor_init ::
  "('e, 'h, 't, 'w NodeState) Env \<Rightarrow> ('w NodeState \<Rightarrow> string + Interface list) \<Rightarrow> nat \<Rightarrow> nat \<Rightarrow> NodeIdentity \<Rightarrow>
     (Monitor, 'w NodeState) future" where
  "monitor_init env get_if_addrs n i ident s =
     (let prev = current_ipv4_addrs (get_if_addrs s) in
      await (transport_start (transport env n) ident) (\<lambda>r.
        if isl r then ready \<lparr>prev_addrs = prev, in_recovery = True, started = False\<rparr>
        else await (modify (mark_started i (transport_kind (transport env n)))) (\<lambda>_.
               ready \<lparr>prev_addrs = prev, in_recovery = False, started = True\<rparr>)) s)"

text \<open>
  The event when an available transport goes down and another one can take over; the flag is
  cleared before the others are looked at.
\<close>

definition mark_stopped ::
  "('e, 'h, 't, 'w NodeState) Env \<Rightarrow> nat \<Rightarrow> TransportKind \<Rightarrow> 'w NodeState \<Rightarrow> 'w NodeState" where
  "mark_stopped env i k s =
     (let was_available = available (transports s ! i);
          s' = set_available i False s in
      if was_available then
        (case next_best_transport env i s' of
           Some next_kind \<Rightarrow> emit (TransportChanged (Some k) next_kind) s'
         | None \<Rightarrow> s')
      else s')"

text \<open>One turn of the loop.\<close>

definition monitor_tick ::
  "('e, 'h, 't, 'w NodeState) Env \<Rightarrow> ('w NodeState \<Rightarrow> string + Interface list) \<Rightarrow> nat \<Rightarrow> nat \<Rightarrow> NodeIdentity \<Rightarrow>
     Monitor \<Rightarrow> (Monitor, 'w NodeState) future" where
  "monitor_tick env get_if_addrs n i ident m s =
     (let s\<^sub>1 = sleep (runtime env) NETWORK_POLL_INTERVAL s;
          curr_addrs = current_ipv4_addrs (get_if_addrs s\<^sub>1);
          k = transport_kind (transport env n) in
      if \<not> in_recovery m \<and> curr_addrs = prev_addrs m then (Ready m, s\<^sub>1)
      else
        await (modify (mark_stopped env i k)) (\<lambda>_.
        await (transport_stop (transport env n)) (\<lambda>_.
        await (transport_start (transport env n) ident) (\<lambda>r.
          if isl r then ready (m\<lparr>in_recovery := True, started := False\<rparr>)
          else await (modify (mark_started i k)) (\<lambda>_.
                 ready (m\<lparr>prev_addrs := curr_addrs, in_recovery := False, started := True\<rparr>))))) s\<^sub>1)"

text \<open>The loop, for a number of turns.\<close>

fun monitor_run ::
  "nat \<Rightarrow> ('e, 'h, 't, 'w NodeState) Env \<Rightarrow> ('w NodeState \<Rightarrow> string + Interface list) \<Rightarrow> nat \<Rightarrow> nat \<Rightarrow> NodeIdentity \<Rightarrow>
     Monitor \<Rightarrow> (Monitor, 'w NodeState) future" where
  "monitor_run 0 env get_if_addrs n i ident m s = (Ready m, s)"
| "monitor_run (Suc k) env get_if_addrs n i ident m s =
     await (monitor_tick env get_if_addrs n i ident m) (monitor_run k env get_if_addrs n i ident) s"

definition health_monitor ::
  "nat \<Rightarrow> ('e, 'h, 't, 'w NodeState) Env \<Rightarrow> ('w NodeState \<Rightarrow> string + Interface list) \<Rightarrow> nat \<Rightarrow> nat \<Rightarrow> NodeIdentity \<Rightarrow>
     (Monitor, 'w NodeState) future" where
  "health_monitor k env get_if_addrs n i ident =
     await (monitor_init env get_if_addrs n i ident) (monitor_run k env get_if_addrs n i ident)"

section \<open>The fallback is the cheapest other transport\<close>

lemma arg_min_list_first:
  "xs \<noteq> [] \<Longrightarrow> arg_min_list f xs \<in> set xs \<and> (\<forall>x \<in> set xs. f (arg_min_list f xs) \<le> f x)"
  for f :: "'a \<Rightarrow> 'b::linorder"
  by (simp add: arg_min_list_in f_arg_min_list_f)

lemma set_available_simps [simp]:
  "length (transports (set_available i b s)) = length (transports s)"
  "i < length (transports s) \<Longrightarrow> transports (set_available i b s) ! i = (transports s ! i)\<lparr>available := b\<rparr>"
  "j \<noteq> i \<Longrightarrow> transports (set_available i b s) ! j = transports s ! j"
  "event_log (set_available i b s) = event_log s"
  by (simp_all add: set_available_def)

lemma emit_transports [simp]: "transports (emit e s) = transports s"
  by (simp add: emit_def)

definition can_replace :: "nat \<Rightarrow> 'w NodeState \<Rightarrow> nat \<Rightarrow> bool" where
  "can_replace own s j \<longleftrightarrow> j < length (transports s) \<and> j \<noteq> own \<and> available (transports s ! j)"

lemma next_best_cases:
  "case next_best_transport env own s of
     None \<Rightarrow> (\<forall>j. \<not> can_replace own s j)
   | Some k \<Rightarrow> (\<exists>j. can_replace own s j \<and> k = transport_kind (transport env (entry_transport (transports s ! j))) \<and>
       (\<forall>j'. can_replace own s j' \<longrightarrow>
          transport_cost (transport env (entry_transport (transports s ! j))) s
            \<le> transport_cost (transport env (entry_transport (transports s ! j'))) s))"
proof -
  let ?others = "filter (\<lambda>(i, e). i \<noteq> own \<and> available e) (enumerate 0 (transports s))"
  let ?cost = "\<lambda>(i :: nat, e). cost_key (transport_cost (transport env (entry_transport e)) s)"
  have others: "(j, e) \<in> set ?others \<longleftrightarrow> can_replace own s j \<and> e = transports s ! j" for j e
    by (auto simp: in_set_enumerate_eq can_replace_def)
  show ?thesis
  proof (cases "?others = []")
    case True
    then have "\<not> can_replace own s j" for j
      using others [of j "transports s ! j"] by simp
    with True show ?thesis by (simp add: next_best_transport_def)
  next
    case False
    obtain j e where best: "arg_min_list ?cost ?others = (j, e)" by (cases "arg_min_list ?cost ?others")
    with arg_min_list_first [OF False, of ?cost] others have "can_replace own s j" "e = transports s ! j"
        and min: "\<And>x. x \<in> set ?others \<Longrightarrow> ?cost (j, e) \<le> ?cost x"
      by (metis)+
    moreover have "transport_cost (transport env (entry_transport e)) s
        \<le> transport_cost (transport env (entry_transport (transports s ! j'))) s" if "can_replace own s j'" for j'
      using min [of "(j', transports s ! j')"] others [of j' "transports s ! j'"] that
      by (simp add: less_eq_TransportCost_def)
    moreover have "next_best_transport env own s = Some (transport_kind (transport env (entry_transport e)))"
      using False best by (simp add: next_best_transport_def)
    ultimately show ?thesis by auto
  qed
qed

section \<open>The flag and the mode\<close>

text \<open>The flag of entry \<open>i\<close> has a given value; the rely condition is that only its monitor changes it.\<close>

definition flag_is :: "nat \<Rightarrow> bool \<Rightarrow> 'w NodeState \<Rightarrow> bool" where
  "flag_is i b s \<longleftrightarrow> i < length (transports s) \<and> available (transports s ! i) = b"

abbreviation leaves_flag :: "nat \<Rightarrow> ('e, 'h, 't, 'w NodeState) Env \<Rightarrow> bool" where
  "leaves_flag i env \<equiv> \<forall>b. env_keeps (flag_is i b) env"

definition monitor_ok :: "nat \<Rightarrow> Monitor \<Rightarrow> 'w NodeState \<Rightarrow> bool" where
  "monitor_ok i m s \<longleftrightarrow> flag_is i (\<not> in_recovery m) s \<and> started m = (\<not> in_recovery m)"

lemma flag_is_marks:
  "flag_is i c s \<Longrightarrow> flag_is i True (mark_started i k s)"
  "flag_is i c s \<Longrightarrow> flag_is i False (mark_stopped env i k s)"
  by (auto simp: flag_is_def mark_started_def mark_stopped_def Let_def split: option.splits)

lemma leaves_flagD:
  assumes "leaves_flag i env" "flag_is i b s"
  shows "flag_is i b (sleep (runtime env) d s)"
    and "transport_start (transport env n) ident s = (r, s') \<Longrightarrow> flag_is i b s'"
    and "transport_stop (transport env n) s = (q, s'') \<Longrightarrow> flag_is i b s''"
proof -
  have env: "env_keeps (flag_is i b) env" using assms(1) by blast
  show "flag_is i b (sleep (runtime env) d s)"
    unfolding sleep_def by (rule env_keepsD(2) [OF env assms(2)])
  have t: "keeps (flag_is i b) (transport_start (transport env n) ident)"
      "keeps (flag_is i b) (transport_stop (transport env n))"
    using env_keepsD(1) [OF env, of n] by (auto simp: transport_keeps_def)
  show "transport_start (transport env n) ident s = (r, s') \<Longrightarrow> flag_is i b s'"
    by (rule keepsD [OF t(1) assms(2)])
  show "transport_stop (transport env n) s = (q, s'') \<Longrightarrow> flag_is i b s''"
    by (rule keepsD [OF t(2) assms(2)])
qed

text \<open>A turn that completes: nothing to do, or the transport stopped and started again.\<close>

lemma monitor_tick_cases:
  assumes "monitor_tick env ifs n i ident m s = (Ready m', s')"
  obtains (idle) "\<not> in_recovery m" "m' = m" "s' = sleep (runtime env) NETWORK_POLL_INTERVAL s"
      "current_ipv4_addrs (ifs s') = prev_addrs m"
  | (restart) q s\<^sub>1 r s\<^sub>2 where
      "transport_stop (transport env n) (mark_stopped env i (transport_kind (transport env n))
         (sleep (runtime env) NETWORK_POLL_INTERVAL s)) = (Ready q, s\<^sub>1)"
      "transport_start (transport env n) ident s\<^sub>1 = (Ready r, s\<^sub>2)"
      "in_recovery m' = isl r" "started m' = (\<not> isl r)"
      "s' = (if isl r then s\<^sub>2 else mark_started i (transport_kind (transport env n)) s\<^sub>2)"
      "isl r \<Longrightarrow> prev_addrs m' = prev_addrs m"
      "\<not> isl r \<Longrightarrow> prev_addrs m' = current_ipv4_addrs (ifs (sleep (runtime env) NETWORK_POLL_INTERVAL s))"
proof -
  let ?k = "transport_kind (transport env n)"
  let ?s\<^sub>0 = "sleep (runtime env) NETWORK_POLL_INTERVAL s"
  let ?curr = "current_ipv4_addrs (ifs ?s\<^sub>0)"
  show ?thesis
  proof (cases "\<not> in_recovery m \<and> ?curr = prev_addrs m")
    case True
    then have "monitor_tick env ifs n i ident m s = (Ready m, ?s\<^sub>0)"
      by (simp add: monitor_tick_def)
    with assms have "m' = m" "s' = ?s\<^sub>0" by simp_all
    with True show ?thesis by (intro idle) simp_all
  next
    case False
    then have tick: "monitor_tick env ifs n i ident m s =
        await (transport_stop (transport env n)) (\<lambda>_. await (transport_start (transport env n) ident) (\<lambda>r.
          if isl r then ready (m\<lparr>in_recovery := True, started := False\<rparr>)
          else await (modify (mark_started i ?k)) (\<lambda>_.
                 ready (m\<lparr>prev_addrs := ?curr, in_recovery := False, started := True\<rparr>)))) (mark_stopped env i ?k ?s\<^sub>0)"
      by (auto simp: monitor_tick_def await_def Let_def)
    obtain q s\<^sub>1 where stop: "transport_stop (transport env n) (mark_stopped env i ?k ?s\<^sub>0) = (Ready q, s\<^sub>1)"
      using assms unfolding tick by (auto simp: await_def split: prod.splits poll.splits)
    obtain r s\<^sub>2 where start: "transport_start (transport env n) ident s\<^sub>1 = (Ready r, s\<^sub>2)"
      using assms unfolding tick by (auto simp: await_def stop split: prod.splits poll.splits)
    have "(Ready m', s') = (if isl r then (Ready (m\<lparr>in_recovery := True, started := False\<rparr>), s\<^sub>2)
        else (Ready (m\<lparr>prev_addrs := ?curr, in_recovery := False, started := True\<rparr>), mark_started i ?k s\<^sub>2))"
      using assms unfolding tick by (simp add: await_def stop start ready_def split: if_splits)
    then show ?thesis
      by (intro restart [OF stop start]) (auto split: if_splits)
  qed
qed

lemma monitor_tick_ok:
  assumes "leaves_flag i env" "monitor_ok i m s" "monitor_tick env ifs n i ident m s = (Ready m', s')"
  shows "monitor_ok i m' s'"
  using assms(3)
proof (cases rule: monitor_tick_cases)
  case idle
  then show ?thesis
    using assms(2) leaves_flagD(1) [OF assms(1)] by (simp add: monitor_ok_def)
next
  case (restart q s\<^sub>1 r s\<^sub>2)
  have "flag_is i False (mark_stopped env i (transport_kind (transport env n))
      (sleep (runtime env) NETWORK_POLL_INTERVAL s))"
    by (rule flag_is_marks(2) [OF leaves_flagD(1) [OF assms(1)]])
       (use assms(2) [unfolded monitor_ok_def] in \<open>rule conjunct1\<close>)
  from leaves_flagD(3) [OF assms(1) this restart(1)] have "flag_is i False s\<^sub>1" .
  from leaves_flagD(2) [OF assms(1) this restart(2)] have "flag_is i False s\<^sub>2" .
  then show ?thesis
    using restart(3-5) flag_is_marks(1) [of i False s\<^sub>2] by (simp add: monitor_ok_def)
qed

lemma monitor_run_ok:
  assumes "leaves_flag i env"
  shows "monitor_ok i m s \<Longrightarrow> monitor_run k env ifs n i ident m s = (Ready m', s') \<Longrightarrow> monitor_ok i m' s'"
proof (induction k arbitrary: m s)
  case (Suc k)
  then obtain m\<^sub>1 s\<^sub>1 where tick: "monitor_tick env ifs n i ident m s = (Ready m\<^sub>1, s\<^sub>1)"
      and run: "monitor_run k env ifs n i ident m\<^sub>1 s\<^sub>1 = (Ready m', s')"
    by (auto simp: await_def split: prod.splits poll.splits)
  from monitor_tick_ok [OF assms Suc.prems(1) tick] run show ?case by (rule Suc.IH)
qed simp

lemma monitor_init_ok:
  assumes "leaves_flag i env" "flag_is i False s" "monitor_init env ifs n i ident s = (Ready m, s')"
  shows "monitor_ok i m s'"
proof -
  obtain r s\<^sub>1 where start: "transport_start (transport env n) ident s = (Ready r, s\<^sub>1)"
    using assms(3) by (auto simp: monitor_init_def await_def Let_def split: prod.splits poll.splits)
  with leaves_flagD(2) [OF assms(1,2)] have "flag_is i False s\<^sub>1" by blast
  with start assms(3) flag_is_marks(1) [of i False s\<^sub>1] show ?thesis
    by (auto simp: monitor_init_def await_def ready_def Let_def monitor_ok_def split: if_splits)
qed

section \<open>Recovery\<close>

text \<open>
  A start that keeps being tried succeeds in the end: each failure brings the environment
  nearer to success, and neither stopping nor sleeping takes it away again.
\<close>

definition comes_up :: "('e, 'h, 't, 'w NodeState) Env \<Rightarrow> nat \<Rightarrow> NodeIdentity \<Rightarrow> ('w \<Rightarrow> nat) \<Rightarrow> bool" where
  "comes_up env n ident g \<longleftrightarrow>
     (\<forall>s. \<exists>r s'. transport_start (transport env n) ident s = (Ready r, s') \<and> (isl r \<longrightarrow> g (world s') < g (world s))) \<and>
     (\<forall>s. \<exists>r s'. transport_stop (transport env n) s = (Ready r, s') \<and> g (world s') \<le> g (world s)) \<and>
     (\<forall>t s. g (world (sleep_until (runtime env) t s)) \<le> g (world s))"

lemma world_mark_stopped [simp]: "world (mark_stopped env i k s) = world s"
  by (simp add: mark_stopped_def set_available_def emit_def Let_def split: option.splits)

lemma recovery_tick:
  assumes "comes_up env n ident g" "in_recovery m"
  shows "\<exists>m' s'. monitor_tick env ifs n i ident m s = (Ready m', s') \<and>
    (in_recovery m' \<longrightarrow> g (world s') < g (world s))"
proof -
  let ?s = "mark_stopped env i (transport_kind (transport env n)) (sleep (runtime env) NETWORK_POLL_INTERVAL s)"
  have s: "g (world ?s) \<le> g (world s)"
    using assms(1) by (simp add: comes_up_def sleep_def)
  obtain q s\<^sub>1 where stop: "transport_stop (transport env n) ?s = (Ready q, s\<^sub>1)" "g (world s\<^sub>1) \<le> g (world ?s)"
    using assms(1) unfolding comes_up_def by blast
  obtain r s\<^sub>2 where start: "transport_start (transport env n) ident s\<^sub>1 = (Ready r, s\<^sub>2)"
      "isl r \<longrightarrow> g (world s\<^sub>2) < g (world s\<^sub>1)"
    using assms(1) unfolding comes_up_def by blast
  from s stop start assms(2) show ?thesis
    by (cases "isl r") (auto simp: monitor_tick_def await_def ready_def Let_def)
qed

lemma recovery_ends:
  assumes up: "comes_up env n ident g" and flag: "leaves_flag i env"
  shows "monitor_ok i m s \<Longrightarrow> in_recovery m \<Longrightarrow>
    \<exists>k m' s'. k \<le> Suc (g (world s)) \<and> monitor_run k env ifs n i ident m s = (Ready m', s') \<and>
      \<not> in_recovery m' \<and> monitor_ok i m' s'"
proof (induction "g (world s)" arbitrary: m s rule: less_induct)
  case less
  obtain m\<^sub>1 s\<^sub>1 where tick: "monitor_tick env ifs n i ident m s = (Ready m\<^sub>1, s\<^sub>1)"
      "in_recovery m\<^sub>1 \<longrightarrow> g (world s\<^sub>1) < g (world s)"
    using recovery_tick [OF up less.prems(2)] by blast
  have ok: "monitor_ok i m\<^sub>1 s\<^sub>1" by (rule monitor_tick_ok [OF flag less.prems(1) tick(1)])
  show ?case
  proof (cases "in_recovery m\<^sub>1")
    case True
    with less.hyps [of s\<^sub>1 m\<^sub>1] tick ok obtain k m' s' where "k \<le> Suc (g (world s\<^sub>1))"
        "monitor_run k env ifs n i ident m\<^sub>1 s\<^sub>1 = (Ready m', s')" "\<not> in_recovery m'" "monitor_ok i m' s'"
      by blast
    with tick True show ?thesis
      by (intro exI [of _ "Suc k"] exI [of _ m'] exI [of _ s']) (simp add: await_def)
  next
    case False
    with tick ok show ?thesis
      by (intro exI [of _ "Suc 0"] exI [of _ m\<^sub>1] exI [of _ s\<^sub>1]) (simp add: await_def)
  qed
qed


section \<open>Properties\<close>

text \<open>A transport whose start fails as often as the script has lines.\<close>

definition flaky_env :: "(bool, bytes \<times> bytes32 option, unit, bytes list NodeState) Env" where
  "flaky_env = script_env\<lparr>transport := \<lambda>_. script_transport\<lparr>transport_start := \<lambda>_ s.
     case world s of [] \<Rightarrow> (Ready (Inr ()), s) | _ # rest \<Rightarrow> (Ready (Inl (Transport ''down'')), s\<lparr>world := rest\<rparr>)\<rparr>\<rparr>"

lemma leaves_flag_flaky: "leaves_flag i flaky_env"
  by (auto simp: env_keeps_def transport_keeps_def yields_conn_def conn_keeps_def keeps_def script_env_def flaky_env_def
      script_transport_def script_connection_def flag_is_def split: list.splits)

lemma flaky_comes_up: "comes_up flaky_env n ident length"
  by (auto simp: comes_up_def flaky_env_def script_env_def script_transport_def split: list.splits)

text \<open>
  C37: after any number of turns of its monitor, a registered transport is marked available
  exactly when the monitor is not in recovery mode, and the \<open>started\<close> channel says the same,
  provided no other task writes the flag.
\<close>

theorem availability_tracks_recovery_mode:
  assumes "leaves_flag i env" "register_transport n s\<^sub>0 = (s, i)"
    and "health_monitor k env ifs n i ident s = (Ready m, s')"
  shows "i < length (transports s') \<and> available (transports s' ! i) = (\<not> in_recovery m) \<and> started m = (\<not> in_recovery m)"
proof -
  have "flag_is i False s"
    using assms(2) by (auto simp: register_transport_def flag_is_def)
  moreover obtain m\<^sub>0 s\<^sub>1 where "monitor_init env ifs n i ident s = (Ready m\<^sub>0, s\<^sub>1)"
      and run: "monitor_run k env ifs n i ident m\<^sub>0 s\<^sub>1 = (Ready m, s')"
    using assms(3) by (auto simp: health_monitor_def await_def split: prod.splits poll.splits)
  ultimately have "monitor_ok i m\<^sub>0 s\<^sub>1"
    using monitor_init_ok [OF assms(1)] by blast
  from monitor_run_ok [OF assms(1) this run] show ?thesis
    by (auto simp: monitor_ok_def flag_is_def)
qed

definition down_state :: "bytes list NodeState" where
  "down_state = fst (register_transport 0 ((script_state [[]])\<lparr>transports := []\<rparr>))"

theorem availability_tracks_recovery_mode_witness:
  "\<exists>m s'. health_monitor 1 flaky_env (\<lambda>_. Inr []) 0 0 (plain_identity first_byte_hash 1) down_state = (Ready m, s') \<and>
     \<not> in_recovery m \<and> available (transports s' ! 0)"
proof -
  let ?run = "health_monitor 1 flaky_env (\<lambda>_. Inr []) 0 0 (plain_identity first_byte_hash 1) down_state"
  have reg: "register_transport 0 ((script_state [[]])\<lparr>transports := []\<rparr>) = (down_state, 0)"
    by (simp add: down_state_def register_transport_def)
  obtain m s' where run: "?run = (Ready m, s')" "\<not> in_recovery m"
    by (simp add: down_state_def health_monitor_def monitor_init_def monitor_tick_def await_def ready_def flaky_env_def
        script_transport_def script_state_def script_env_def register_transport_def sleep_def mark_stopped_def
        set_available_def)
  from availability_tracks_recovery_mode [OF leaves_flag_flaky reg run(1)] run show ?thesis by auto
qed

text \<open>
  C38: a transport that failed to start comes up.  In recovery mode the monitor tries again on
  every turn, whether the addresses have changed or not; if the failures do not go on forever,
  the transport is available after at most one turn more than there are failures left.
\<close>

theorem recovery_succeeds_eventually:
  assumes "comes_up env n ident g" "leaves_flag i env" "monitor_ok i m s" "in_recovery m"
  shows "\<exists>k m' s'. k \<le> Suc (g (world s)) \<and> monitor_run k env ifs n i ident m s = (Ready m', s') \<and>
    \<not> in_recovery m' \<and> started m' \<and> available (transports s' ! i)"
proof -
  obtain k m' s' where "k \<le> Suc (g (world s))" "monitor_run k env ifs n i ident m s = (Ready m', s')"
      "\<not> in_recovery m'" "monitor_ok i m' s'"
    using recovery_ends [OF assms, of ifs] by blast
  then show ?thesis
    by (intro exI [of _ k] exI [of _ m'] exI [of _ s']) (simp add: monitor_ok_def flag_is_def)
qed

theorem recovery_succeeds_eventually_witness:
  "\<exists>k m' s'. k \<le> Suc 1 \<and>
     monitor_run k flaky_env (\<lambda>_. Inr []) 0 0 (plain_identity first_byte_hash 1)
       \<lparr>prev_addrs = {}, in_recovery = True, started = False\<rparr> down_state = (Ready m', s') \<and>
     \<not> in_recovery m' \<and> started m' \<and> available (transports s' ! 0)"
proof -
  have "monitor_ok 0 \<lparr>prev_addrs = {}, in_recovery = True, started = False\<rparr> down_state"
    by (simp add: monitor_ok_def flag_is_def down_state_def register_transport_def)
  from recovery_succeeds_eventually [OF flaky_comes_up leaves_flag_flaky this, where ifs = "\<lambda>_. Inr []" and n = 0
      and ident = "plain_identity first_byte_hash 1"] show ?thesis
    by (simp add: down_state_def register_transport_def script_state_def)
qed

text \<open>
  The transport a failing one is reported to switch to is an available one other than
  itself, of least cost among these; there is none exactly when no other is available.
\<close>

theorem fallback_is_cheapest_other:
  "case next_best_transport env own s of
     None \<Rightarrow> (\<forall>j. \<not> can_replace own s j)
   | Some k \<Rightarrow> (\<exists>j. can_replace own s j \<and> k = transport_kind (transport env (entry_transport (transports s ! j))) \<and>
       Min ((\<lambda>j'. transport_cost (transport env (entry_transport (transports s ! j'))) s) ` {j'. can_replace own s j'}) =
         transport_cost (transport env (entry_transport (transports s ! j))) s)"
proof (cases "next_best_transport env own s")
  case None
  with next_best_cases [where env = env and own = own and s = s] show ?thesis by simp
next
  case (Some k)
  let ?cost = "\<lambda>j. transport_cost (transport env (entry_transport (transports s ! j))) s"
  from next_best_cases [where env = env and own = own and s = s] Some obtain j where j: "can_replace own s j"
      "k = transport_kind (transport env (entry_transport (transports s ! j)))"
      "\<And>j'. can_replace own s j' \<Longrightarrow> ?cost j \<le> ?cost j'"
    by auto
  have "finite {j'. can_replace own s j'}"
    by (rule finite_subset [of _ "{..<length (transports s)}"]) (auto simp: can_replace_def)
  then have "Min (?cost ` {j'. can_replace own s j'}) = ?cost j"
    using j by (intro Min_eqI) auto
  with j(1,2) Some show ?thesis by auto
qed

end
