(* ===== verification/Peer_Stream.thy ===== *)
theory Peer_Stream
  imports Health_Monitor
begin

text \<open>
  Discovery in \<open>crates/pathweave-core/src/router.rs\<close>: what the task \<open>peer_stream\<close> does with the
  arrivals and departures a transport reports.
\<close>

section \<open>Arrivals and departures\<close>

datatype PeerEvent = Arrival PeerAnnouncement | Departure PeerAddress

text \<open>The entry after a successful handshake with another node: pushed without a check.\<close>

definition record_arrival ::
  "PeerId \<Rightarrow> PeerAnnouncement \<Rightarrow> bytes32 option \<Rightarrow> 'w NodeState \<Rightarrow> 'w NodeState" where
  "record_arrival p ann learned_key s =
     (let s\<^sub>1 = s\<lparr>peers := hm_insert p (hm_or_default [] p (peers s) @ [ann]) (peers s)\<rparr>;
          s\<^sub>2 = (case learned_key of None \<Rightarrow> s\<^sub>1 | Some key \<Rightarrow> emit (KeyLearned p key) s\<^sub>1) in
      emit (PeerConnected p) s\<^sub>2)"

definition forget_addr :: "PeerAddress \<Rightarrow> 'w NodeState \<Rightarrow> 'w NodeState" where
  "forget_addr addr s = s\<lparr>known_addrs := known_addrs s - {addr}\<rparr>"

definition on_arrival ::
  "('e, 'h, 't, 'w NodeState) Env \<Rightarrow> nat \<Rightarrow> NodeIdentity \<Rightarrow> PeerId \<Rightarrow> PeerAnnouncement \<Rightarrow> (unit, 'w NodeState) future" where
  "on_arrival env n ident local ann s =
     (if address ann \<in> known_addrs s then (Ready (), s)
      else
        await (try_connect env n ann ident) (\<lambda>r.
          case r of
            Inr (p, learned_key) \<Rightarrow> if p = local then ready () else modify (record_arrival p ann learned_key)
          | Inl _ \<Rightarrow> modify (forget_addr (address ann)))
          (s\<lparr>known_addrs := insert (address ann) (known_addrs s)\<rparr>))"

text \<open>The first peer, in the order of the table, that has the address.\<close>

definition owner :: "PeerAddress \<Rightarrow> peer_table \<Rightarrow> PeerId option" where
  "owner addr table =
     map_option fst (find (\<lambda>(_, anns). list_ex (\<lambda>a. address a = addr) anns) table)"

definition on_departure :: "PeerAddress \<Rightarrow> 'w NodeState \<Rightarrow> 'w NodeState" where
  "on_departure addr s =
     (case owner addr (peers s) of
        None \<Rightarrow> s
      | Some p \<Rightarrow> emit (PeerDisconnected p) (forget_addr addr s))"

definition on_peer_event ::
  "('e, 'h, 't, 'w NodeState) Env \<Rightarrow> nat \<Rightarrow> NodeIdentity \<Rightarrow> PeerId \<Rightarrow> PeerEvent \<Rightarrow> (unit, 'w NodeState) future" where
  "on_peer_event env n ident local ev =
     (case ev of
        Arrival ann \<Rightarrow> on_arrival env n ident local ann
      | Departure addr \<Rightarrow> modify (on_departure addr))"

text \<open>The inner loop, over the events the combined stream yields between a start and a stop.\<close>

fun peer_stream ::
  "('e, 'h, 't, 'w NodeState) Env \<Rightarrow> nat \<Rightarrow> NodeIdentity \<Rightarrow> PeerId \<Rightarrow> PeerEvent list \<Rightarrow> (unit, 'w NodeState) future" where
  "peer_stream env n ident local [] s = (Ready (), s)"
| "peer_stream env n ident local (ev # evs) s =
     await (on_peer_event env n ident local ev) (\<lambda>_. peer_stream env n ident local evs) s"

section \<open>Invariants under discovery\<close>

text \<open>What an invariant has to withstand from discovery.\<close>

locale discovery_invariant = api_invariant h I
  for h :: "bytes \<Rightarrow> bytes32" and I :: "'w NodeState \<Rightarrow> bool" +
  assumes inv_push: "I s \<Longrightarrow> I (s\<lparr>peers := hm_insert p (hm_or_default [] p (peers s) @ [ann]) (peers s)\<rparr>)"
    and inv_known: "I s \<Longrightarrow> I (s\<lparr>known_addrs := A\<rparr>)"
begin

lemma inv_record_arrival: "I s \<Longrightarrow> I (record_arrival p ann lk s)"
  by (auto simp: record_arrival_def Let_def split: option.splits intro!: inv_emit inv_push)

lemma keeps_on_arrival:
  assumes "env_keeps I env" "env_blake3 env = h"
  shows "keeps I (on_arrival env n ident local ann)"
proof (rule keepsI)
  fix s assume s: "I s"
  have rest: "keeps I (case r of
        Inr (p, learned_key) \<Rightarrow> if p = local then ready () else modify (record_arrival p ann learned_key)
      | Inl _ \<Rightarrow> modify (forget_addr (address ann)))" for r :: "(PeerId \<times> bytes32 option) result"
    by (auto split: sum.splits intro!: keeps_intros inv_record_arrival inv_known simp: forget_addr_def)
  show "I (snd (on_arrival env n ident local ann s))"
    using keeps_snd [OF keeps_await [OF keeps_try_connect [OF assms] rest] inv_known [OF s]] s
    by (simp add: on_arrival_def)
qed

lemma inv_on_departure: "I s \<Longrightarrow> I (on_departure addr s)"
  by (auto simp: on_departure_def forget_addr_def split: option.splits intro!: inv_emit inv_known)

lemma keeps_on_peer_event:
  assumes "env_keeps I env" "env_blake3 env = h"
  shows "keeps I (on_peer_event env n ident local ev)"
  by (auto simp: on_peer_event_def split: PeerEvent.splits
      intro!: keeps_on_arrival [OF assms] keeps_modify inv_on_departure)

lemma keeps_peer_stream:
  assumes "env_keeps I env" "env_blake3 env = h"
  shows "keeps I (peer_stream env n ident local evs)"
proof (induction evs)
  case (Cons ev evs)
  have "peer_stream env n ident local (ev # evs) =
      await (on_peer_event env n ident local ev) (\<lambda>_. peer_stream env n ident local evs)"
    by (rule ext) simp
  then show ?case by (simp only:) (intro keeps_await keeps_on_peer_event [OF assms] Cons.IH)
qed (simp add: keeps_def)

end

interpretation certified: discovery_invariant h "certified h" for h
  by unfold_locales (auto simp: certified_def)

interpretation event_history: discovery_invariant h "\<lambda>s. prefix log (event_log s)" for h log
  by unfold_locales auto

interpretation history: discovery_invariant h
  "\<lambda>s. prefix msgs (delivered s) \<and> prefix tasks (relay_tasks s) \<and> dedup_inv (dedup s)" for h msgs tasks
  by unfold_locales auto


interpretation gate: router_invariant h "\<lambda>s. known_addrs s = A" for h A
  by unfold_locales (auto simp: emit_def)

section \<open>The gate of known addresses\<close>

abbreviation leaves_known :: "('e, 'h, 't, 'w NodeState) Env \<Rightarrow> bool" where
  "leaves_known env \<equiv> \<forall>A. env_keeps (\<lambda>s. known_addrs s = A) env"

lemma record_arrival_simps [simp]:
  "known_addrs (record_arrival p ann lk s) = known_addrs s"
  "last (event_log (record_arrival p ann lk s)) = PeerConnected p"
  "peers (record_arrival p ann lk s) = hm_insert p (hm_or_default [] p (peers s) @ [ann]) (peers s)"
  by (auto simp: record_arrival_def emit_def Let_def split: option.splits)

lemma on_arrival_cases:
  assumes "leaves_known env" "on_arrival env n ident local ann s = (Ready (), s')"
  obtains (known) "address ann \<in> known_addrs s" "s' = s"
  | (failed) "address ann \<notin> known_addrs s" "known_addrs s' = known_addrs s"
  | (self) s\<^sub>0 lk where "address ann \<notin> known_addrs s" "known_addrs s' = insert (address ann) (known_addrs s)"
      "try_connect env n ann ident s\<^sub>0 = (Ready (Inr (local, lk)), s')"
  | (connected) p where "address ann \<notin> known_addrs s" "known_addrs s' = insert (address ann) (known_addrs s)"
      "p \<noteq> local" "last (event_log s') = PeerConnected p" "ann \<in> set (hm_or_default [] p (peers s'))"
proof (cases "address ann \<in> known_addrs s")
  case True
  with assms(2) show ?thesis by (intro known) (simp_all add: on_arrival_def)
next
  case new: False
  let ?s = "s\<lparr>known_addrs := insert (address ann) (known_addrs s)\<rparr>"
  obtain r s\<^sub>1 where dial: "try_connect env n ann ident ?s = (Ready r, s\<^sub>1)"
    using assms(2) new by (auto simp: on_arrival_def await_def split: prod.splits poll.splits)
  have A: "known_addrs s\<^sub>1 = insert (address ann) (known_addrs s)"
    using keepsD [OF gate.keeps_try_connect [OF spec [OF assms(1)] refl] _ dial] by simp
  show ?thesis
  proof (cases r)
    case (Inl e)
    with assms(2) new dial have "s' = forget_addr (address ann) s\<^sub>1"
      by (simp add: on_arrival_def await_def)
    with A new show ?thesis by (intro failed) (simp_all add: forget_addr_def)
  next
    case (Inr x)
    obtain p lk where x: "x = (p, lk)" by (cases x)
    show ?thesis
    proof (cases "p = local")
      case True
      with assms(2) new dial Inr x have "s' = s\<^sub>1" by (simp add: on_arrival_def await_def ready_def)
      with A new dial Inr x True show ?thesis by (intro self [of ?s lk]) simp_all
    next
      case False
      with assms(2) new dial Inr x have "s' = record_arrival p ann lk s\<^sub>1" by (simp add: on_arrival_def await_def)
      with A new False show ?thesis by (intro connected [of p]) (simp_all add: hm_or_default_def)
    qed
  qed
qed

lemma owner_SomeD:
  assumes "owner addr table = Some p"
  shows "\<exists>anns. (p, anns) \<in> set table \<and> addr \<in> address ` set anns"
proof -
  obtain x where "find (\<lambda>(_, anns). list_ex (\<lambda>a. address a = addr) anns) table = Some x" "fst x = p"
    using assms by (auto simp: owner_def)
  moreover from this have "x \<in> set table \<and> list_ex (\<lambda>a. address a = addr) (snd x)"
    by (auto simp: find_Some_iff in_set_conv_nth)
  ultimately show ?thesis
    by (intro exI [of _ "snd x"]) (auto simp: list_ex_iff)
qed

lemma owner_None_iff: "owner addr table = None \<longleftrightarrow> (\<forall>(p, anns) \<in> set table. addr \<notin> address ` set anns)"
  by (auto simp: owner_def find_None_iff list_ex_iff)

section \<open>Discovery in the scripted environment\<close>

lemma leaves_known_script: "leaves_known script_env"
  by (auto intro!: script_env_keeps)

lemma script_try_connect:
  assumes "world s = [raw_bundle (bytes_of key), raw_message a]" "decode_addr_exchange a = None"
    and "length (private_key ident) = 32"
  defines "ses \<equiv> \<lparr>session_peer_id = peer_id_from_public_key first_byte_hash (bytes_of key),
        remote_static_key = key, transport_state = ()\<rparr>"
  shows "try_connect script_env n ann ident s =
    (Ready (Inr (session_peer_id ses, fst (record_key ses s))), (snd (record_key ses s))\<lparr>world := []\<rparr>)"
proof -
  have "world (snd (record_key ses (s\<lparr>world := w\<rparr>))) = w"
    "fst (record_key ses (s\<lparr>world := w\<rparr>)) = fst (record_key ses s)"
    "(snd (record_key ses (s\<lparr>world := w\<rparr>)))\<lparr>world := v\<rparr> = (snd (record_key ses s))\<lparr>world := v\<rparr>" for w v
    by (simp_all add: record_key_def case_prod_beta)
  moreover have "length (encode_addr_exchange []) \<le> 1000"
    by (simp add: encode_addr_exchange_def ADDR_EXCHANGE_CTRL_def)
  moreover have "close_conn script_conn st = (Ready (Inr ()), st)" for st
    by (cases st) (simp add: script_conn_def bundle_connection_def script_connection_def)
  ultimately show ?thesis
    using assms(1,2) script_initiate [of s key "[raw_message a]" ident] assms(3)
    by (simp add: try_connect_def with_connection_def try_await_def await_def update_apply scoped_apply
        exchange_addresses_def timeout_def script_session_send ready_def session_close_def ses_def)
qed

text \<open>The address of a peer that has the key \<open>2...2\<close>, and a node that discovers it.\<close>

definition seen_ann :: PeerAnnouncement where
  "seen_ann = \<lparr>address = Quic (V4 (fill_array 1) 9000), short_id = None\<rparr>"

definition seen_state :: "bytes list NodeState" where
  "seen_state = script_state [raw_bundle (bytes_of (fill_array 2 :: bytes32)), raw_message []]"

lemma seen_connect:
  assumes "world s = [raw_bundle (bytes_of (fill_array 2 :: bytes32)), raw_message []]"
  shows "\<exists>lk s\<^sub>1. try_connect script_env 0 seen_ann (plain_identity first_byte_hash 1) s =
      (Ready (Inr (PeerId (fill_array 2), lk)), s\<^sub>1) \<and> peers s\<^sub>1 = peers s"
  using script_try_connect [OF assms, of "plain_identity first_byte_hash 1" 0 seen_ann]
  by (simp add: decode_addr_exchange_def plain_identity_def generate_def peer_id_from_public_key_def
      first_byte_hash_def record_key_def case_prod_beta)

section \<open>Properties\<close>



text \<open>
  A departure of an address that some peer has is reported for a peer that has it, makes
  the address unknown, so that it can be discovered again, and leaves the peer table as it
  is; the departure of any other address changes nothing.
\<close>

theorem departure_reports_owner:
  "(\<exists>p anns. (p, anns) \<in> set (peers s) \<and> addr \<in> address ` set anns \<and>
      on_departure addr s = s\<lparr>known_addrs := known_addrs s - {addr}, event_log := event_log s @ [PeerDisconnected p]\<rparr>) \<or>
   (\<forall>p anns. (p, anns) \<in> set (peers s) \<longrightarrow> addr \<notin> address ` set anns) \<and> on_departure addr s = s"
proof (cases "owner addr (peers s)")
  case None
  then have "on_departure addr s = s" by (simp add: on_departure_def)
  with None [unfolded owner_None_iff] show ?thesis by blast
next
  case (Some p)
  with owner_SomeD [OF Some] show ?thesis by (auto simp: on_departure_def forget_addr_def emit_def)
qed

theorem departure_reports_owner_witness:
  "on_departure (address seen_ann) seen_state = seen_state"
  using departure_reports_owner [where s = seen_state and addr = "address seen_ann"]
  by (auto simp: seen_state_def script_state_def)

text \<open>
  A peer that leaves and comes back has its address twice.  The departure makes the
  address unknown but leaves it in the table, and the next arrival appends it again without a
  check; the set of known addresses does not prevent it.
\<close>

theorem rediscovery_duplicates_address:
  assumes "hm_get (peers s) p = Some anns" "address ann \<in> address ` set anns" "owner (address ann) (peers s) \<noteq> None"
    and "\<forall>s\<^sub>0. world s\<^sub>0 = world s \<and> peers s\<^sub>0 = peers s \<longrightarrow> (\<exists>lk s\<^sub>1.
      try_connect env n ann ident s\<^sub>0 = (Ready (Inr (p, lk)), s\<^sub>1) \<and> peers s\<^sub>1 = peers s)"
    and "p \<noteq> local"
  shows "\<exists>s'. peer_stream env n ident local [Departure (address ann), Arrival ann] s = (Ready (), s') \<and>
    hm_get (peers s') p = Some (anns @ [ann]) \<and> \<not> distinct (map address (anns @ [ann]))"
proof -
  obtain q where q: "owner (address ann) (peers s) = Some q"
    using assms(3) by auto
  let ?s = "(on_departure (address ann) s)\<lparr>known_addrs := insert (address ann) (known_addrs s - {address ann})\<rparr>"
  have s: "world ?s = world s" "peers ?s = peers s"
    by (simp_all add: on_departure_def q forget_addr_def emit_def)
  then obtain lk s\<^sub>1 where dial: "try_connect env n ann ident ?s = (Ready (Inr (p, lk)), s\<^sub>1)" "peers s\<^sub>1 = peers s"
    using assms(4) by blast
  have gone: "known_addrs (on_departure (address ann) s) = known_addrs s - {address ann}"
    by (simp add: on_departure_def q forget_addr_def emit_def)
  have "on_arrival env n ident local ann (on_departure (address ann) s) = (Ready (), record_arrival p ann lk s\<^sub>1)"
    using dial(1) assms(5) by (simp add: on_arrival_def gone await_def)
  then have "peer_stream env n ident local [Departure (address ann), Arrival ann] s = (Ready (), record_arrival p ann lk s\<^sub>1)"
    by (simp add: on_peer_event_def await_def)
  then show ?thesis
    using assms(1,2) dial(2) by (auto simp: hm_or_default_def image_iff)
qed

theorem rediscovery_duplicates_address_witness:
  "\<exists>s'. peer_stream script_env 0 (plain_identity first_byte_hash 1) (PeerId (fill_array 1))
      [Departure (address seen_ann), Arrival seen_ann]
      (seen_state\<lparr>peers := [(PeerId (fill_array 2), [seen_ann])]\<rparr>) = (Ready (), s') \<and>
    hm_get (peers s') (PeerId (fill_array 2)) = Some [seen_ann, seen_ann]"
proof -
  let ?s = "seen_state\<lparr>peers := [(PeerId (fill_array 2), [seen_ann])]\<rparr>"
  have "\<forall>s\<^sub>0. world s\<^sub>0 = world ?s \<and> peers s\<^sub>0 = peers ?s \<longrightarrow> (\<exists>lk s\<^sub>1.
      try_connect script_env 0 seen_ann (plain_identity first_byte_hash 1) s\<^sub>0 = (Ready (Inr (PeerId (fill_array 2), lk)), s\<^sub>1) \<and>
      peers s\<^sub>1 = peers ?s)"
    by (intro allI impI) (use seen_connect in \<open>fastforce simp: seen_state_def script_state_def\<close>)
  moreover have "hm_get (peers ?s) (PeerId (fill_array 2)) = Some [seen_ann]"
    "owner (address seen_ann) (peers ?s) \<noteq> None" "(PeerId (fill_array 2)) \<noteq> (PeerId (fill_array 1))"
    by (simp_all add: owner_def)
  ultimately show ?thesis
    using rediscovery_duplicates_address [where s = ?s and p = "PeerId (fill_array 2)" and anns = "[seen_ann]"
        and ann = seen_ann and env = script_env and n = 0 and ident = "plain_identity first_byte_hash 1"
        and local = "PeerId (fill_array 1)"]
    by auto
qed

end
