(* ===== verification/Node_Runs.thy ===== *)
theory Node_Runs
  imports Peer_Stream
begin

text \<open>
  The node as a state machine: one step is a call of the API or a turn of one of the tasks a
  node spawns, run to where it completes or hangs; what other tasks do while it waits is part
  of the operations it awaits.
\<close>

section \<open>Steps and reachable states\<close>

inductive node_step ::
  "('e, 'h, 't, 'w NodeState) Env \<Rightarrow> ('w NodeState \<Rightarrow> string + Interface list) \<Rightarrow> NodeCore \<Rightarrow>
     'w NodeState \<Rightarrow> 'w NodeState \<Rightarrow> bool"
  for env get_if_addrs nd where
  register: "register_transport n s = (s', i) \<Longrightarrow> node_step env get_if_addrs nd s s'"
| monitor_start: "monitor_init env get_if_addrs n i (identity nd) s = (r, s') \<Longrightarrow> node_step env get_if_addrs nd s s'"
| monitor_turn: "monitor_tick env get_if_addrs n i (identity nd) m s = (r, s') \<Longrightarrow> node_step env get_if_addrs nd s s'"
| set_handler: "node_step env get_if_addrs nd s (on_message s)"
| connect: "node_connect env nd ann s = (res, s') \<Longrightarrow> node_step env get_if_addrs nd s s'"
| add: "add_peer env nd p ann s = (s', task) \<Longrightarrow> node_step env get_if_addrs nd s s'"
| add_task: "drain_all env nd p s = (u, s') \<Longrightarrow> node_step env get_if_addrs nd s s'"
| send: "node_send env nd p payload s = (v, s') \<Longrightarrow> node_step env get_if_addrs nd s s'"
| send_routed: "send_routed env nd p payload s = (v, s') \<Longrightarrow> node_step env get_if_addrs nd s s'"
| send_sealed: "send_routed_sealed env nd p payload s = (v, s') \<Longrightarrow> node_step env get_if_addrs nd s s'"
| store: "store_forward env nd p payload s = (u, s') \<Longrightarrow> node_step env get_if_addrs nd s s'"
| store_routed: "store_forward_routed env nd p payload s = (u, s') \<Longrightarrow> node_step env get_if_addrs nd s s'"
| event: "on_event env nd ev s = (u, s') \<Longrightarrow> node_step env get_if_addrs nd s s'"
| relay: "run_relay_task env nd relayed s = (u, s') \<Longrightarrow> node_step env get_if_addrs nd s s'"
| accept: "accept_once k env nd n s = (u, s') \<Longrightarrow> node_step env get_if_addrs nd s s'"
| discover: "on_peer_event env n (identity nd) (peer_id (identity nd)) pe s = (u, s') \<Longrightarrow> node_step env get_if_addrs nd s s'"

inductive reachable ::
  "('e, 'h, 't, 'w NodeState) Env \<Rightarrow> ('w NodeState \<Rightarrow> string + Interface list) \<Rightarrow> NodeCore \<Rightarrow> 'w NodeState \<Rightarrow> bool"
  for env get_if_addrs nd where
  start: "node_new config (identity nd) w = (nd, s) \<Longrightarrow> reachable env get_if_addrs nd s"
| step: "reachable env get_if_addrs nd s \<Longrightarrow> node_step env get_if_addrs nd s s' \<Longrightarrow> reachable env get_if_addrs nd s'"

section \<open>Invariants of all steps\<close>

locale run_invariant = discovery_invariant h I
  for h :: "bytes \<Rightarrow> bytes32" and I :: "'w NodeState \<Rightarrow> bool" +
  assumes inv_transports: "I s \<Longrightarrow> I (s\<lparr>transports := ts\<rparr>)"
    and inv_handler: "I s \<Longrightarrow> I (s\<lparr>handler := True\<rparr>)"
begin

lemma inv_marks: "I s \<Longrightarrow> I (mark_started i k s)" "I s \<Longrightarrow> I (mark_stopped env i k s)"
  by (auto simp: mark_started_def mark_stopped_def set_available_def Let_def split: option.splits
      intro!: inv_emit inv_transports)

lemma keeps_monitor_init:
  assumes "env_keeps I env"
  shows "keeps I (monitor_init env ifs n i ident)"
proof (rule keepsI)
  fix s assume s: "I s"
  have "keeps I (transport_start (transport env n) ident)"
    using env_keepsD(1) [OF assms, of n] by (simp add: transport_keeps_def)
  then have "keeps I (await (transport_start (transport env n) ident) (\<lambda>r.
      if isl r then ready \<lparr>prev_addrs = prev, in_recovery = True, started = False\<rparr>
      else await (modify (mark_started i (transport_kind (transport env n)))) (\<lambda>_.
             ready \<lparr>prev_addrs = prev, in_recovery = False, started = True\<rparr>)))" for prev
    by (intro keeps_await) (auto intro!: keeps_intros inv_marks)
  from keeps_snd [OF this s] show "I (snd (monitor_init env ifs n i ident s))"
    by (simp add: monitor_init_def Let_def)
qed

lemma keeps_monitor_tick:
  assumes "env_keeps I env"
  shows "keeps I (monitor_tick env ifs n i ident m)"
proof (rule keepsI)
  fix s assume "I s"
  then have s: "I (sleep (runtime env) NETWORK_POLL_INTERVAL s)"
    unfolding sleep_def by (rule env_keepsD(2) [OF assms])
  let ?k = "transport_kind (transport env n)"
  have t: "keeps I (transport_start (transport env n) ident)" "keeps I (transport_stop (transport env n))"
    using env_keepsD(1) [OF assms, of n] by (simp_all add: transport_keeps_def)
  have "keeps I (if isl r then ready (m\<lparr>in_recovery := True, started := False\<rparr>)
          else await (modify (mark_started i ?k)) (\<lambda>_. ready (m\<lparr>prev_addrs := curr, in_recovery := False, started := True\<rparr>)))"
    for r :: "unit result" and curr
    by (auto intro!: keeps_intros inv_marks)
  moreover have "keeps I (modify (mark_stopped env i ?k))"
    by (rule keeps_modify) (rule inv_marks(2))
  ultimately have "keeps I (await (modify (mark_stopped env i ?k)) (\<lambda>_.
      await (transport_stop (transport env n)) (\<lambda>_. await (transport_start (transport env n) ident) (\<lambda>r.
        if isl r then ready (m\<lparr>in_recovery := True, started := False\<rparr>)
        else await (modify (mark_started i ?k)) (\<lambda>_. ready (m\<lparr>prev_addrs := curr, in_recovery := False, started := True\<rparr>))))))"
    for curr
    by (intro keeps_await t)
  from keeps_snd [OF this s] show "I (snd (monitor_tick env ifs n i ident m s))"
    using s by (simp add: monitor_tick_def Let_def)
qed

lemma inv_step:
  assumes env: "env_keeps I env" "env_blake3 env = h"
  shows "node_step env ifs nd s s' \<Longrightarrow> I s \<Longrightarrow> I s'"
proof (induction rule: node_step.induct)
  case (register n s s' i)
  then show ?case by (auto simp: register_transport_def intro: inv_transports)
next
  case (set_handler s)
  then show ?case by (simp add: on_message_def inv_handler)
next
  case (add p ann s s' task)
  then show ?case by (auto simp: add_peer_def intro: inv_remember)
qed (blast intro: keepsD [OF keeps_monitor_init [OF env(1)]] keepsD [OF keeps_monitor_tick [OF env(1)]]
      keepsD [OF keeps_node_connect [OF env]] keepsD [OF keeps_drain_all [OF env]] keepsD [OF keeps_node_send [OF env]]
      keepsD [OF keeps_send_routed [OF env]] keepsD [OF keeps_send_routed_sealed [OF env]]
      keepsD [OF keeps_store_forward [OF env]] keepsD [OF keeps_store_forward_routed [OF env]]
      keepsD [OF keeps_on_event [OF env]] keepsD [OF keeps_run_relay_task [OF env]]
      keepsD [OF keeps_accept_once [OF env]] keepsD [OF keeps_on_peer_event [OF env]])+

lemma inv_reachable:
  assumes env: "env_keeps I env" "env_blake3 env = h"
    and start: "\<And>config ident w. I (snd (node_new config ident w))"
  shows "reachable env ifs nd s \<Longrightarrow> I s"
proof (induction rule: reachable.induct)
  case (start config w s)
  then show ?case using assms(3) [of config "identity nd" w] by simp
next
  case (step s s')
  from inv_step [OF env step.hyps(2) step.IH] show ?case .
qed

end

interpretation certified: run_invariant h "certified h" for h
  by unfold_locales (auto simp: certified_def)

interpretation event_history: run_invariant h "\<lambda>s. prefix log (event_log s)" for h log
  by unfold_locales auto

interpretation history: run_invariant h
  "\<lambda>s. prefix msgs (delivered s) \<and> prefix tasks (relay_tasks s) \<and> dedup_inv (dedup s)" for h msgs tasks
  by unfold_locales auto

section \<open>Well-typed states\<close>

text \<open>
  A state is well typed when what stands for its hash maps are maps: no two entries of the
  peer table, of the two queues, of the registry and of the caches have the same key, and
  the registry's eviction queue lists entries of it, once each and within its bound.
\<close>

definition state_typed :: "'w NodeState \<Rightarrow> bool" where
  "state_typed s \<longleftrightarrow>
     hm_wf (peers s) \<and> hm_wf (pending_direct s) \<and> hm_wf (pending_routed s) \<and>
     registry_inv (key_registry s) \<and> dedup_inv (dedup s)"

interpretation typed: run_invariant h state_typed for h
  by unfold_locales
     (auto simp: state_typed_def emit_def remember_peer_def push_announcement_def Let_def hm_wf_upsert inv_intros)

lemma state_typed_new: "state_typed (snd (node_new config ident w))"
  by (simp add: state_typed_def node_new_def registry_new_def registry_inv_def dedup_new_def dedup_inv_def)

end
