(* ===== verification/Mesh.thy ===== *)
theory Mesh
  imports Node_Runs "HOL-Library.Multiset"
begin

text \<open>
  Several nodes: the frames that relaying puts under way between them, the end of every
  flood, and where it gets.  A node of the network is the model of \<open>Dispatch\<close>; a frame under way
  is what a relay task or \<open>flood_neighbors\<close> sends, on its way to the \<open>dispatch_payload\<close> of the
  neighbour.
\<close>

section \<open>Nodes and frames in flight\<close>

text \<open>A frame under way: who sent it, to whom, and its bytes.\<close>

type_synonym transit = "PeerId \<times> PeerId \<times> bytes"

record 'w Mesh =
  mesh_nodes :: "PeerId \<Rightarrow> 'w NodeState"
  in_flight :: "transit multiset"

text \<open>What node \<open>q\<close> sends on when dispatching a frame has taken it from \<open>s\<close> to \<open>s'\<close>.\<close>

definition onward :: "PeerId \<Rightarrow> 'w NodeState \<Rightarrow> 'w NodeState \<Rightarrow> transit list" where
  "onward q s s' = map (\<lambda>t. (q, task_peer t, task_payload t)) (new_tasks s s')"

text \<open>
  A step of the network: a frame arrives and is dispatched, and each of the relay tasks it
  spawns sends its copy, once, several times or not at all; a frame is lost; a node does
  anything else that sends no frame.
\<close>

inductive mesh_step ::
  "(PeerId \<Rightarrow> ('e, 'h, 't, 'w NodeState) Env) \<Rightarrow> (PeerId \<Rightarrow> NodeIdentity) \<Rightarrow> 'w Mesh \<Rightarrow> 'w Mesh \<Rightarrow> bool"
  for env ident where
  arrive: "(p, q, frame) \<in># in_flight m \<Longrightarrow>
    s' = dispatch_state (env q) (ident q) p q frame (mesh_nodes m q) \<Longrightarrow>
    set_mset sent \<subseteq> set (onward q (mesh_nodes m q) s') \<Longrightarrow>
    mesh_step env ident m
      \<lparr>mesh_nodes = (mesh_nodes m)(q := s'), in_flight = in_flight m - {#(p, q, frame)#} + sent\<rparr>"
| lose: "x \<in># in_flight m \<Longrightarrow> mesh_step env ident m (m\<lparr>in_flight := in_flight m - {#x#}\<rparr>)"
| elsewhere: "mesh_step env ident m (m\<lparr>mesh_nodes := N\<rparr>)"

section \<open>Every flood dies out\<close>

definition transit_life :: "transit \<Rightarrow> nat" where
  "transit_life x = life_of (snd (snd x))"

lemma onward_life:
  assumes "x \<in> set (onward q s (dispatch_state env ident p q frame s))"
  shows "Suc (transit_life x) = life_of frame"
proof -
  obtain t where "t \<in> set (new_tasks s (dispatch_state env ident p q frame s))" "x = (q, task_peer t, task_payload t)"
    using assms by (auto simp: onward_def)
  then have "relays env frame (snd (snd x))"
    unfolding relays_def by (metis imageI snd_conv)
  then show ?thesis by (simp add: transit_life_def relays_life)
qed

lemma flight_decreases:
  assumes "x \<in># F" "\<And>y. y \<in># sent \<Longrightarrow> transit_life y < transit_life x"
  shows "(image_mset transit_life (F - {#x#} + sent), image_mset transit_life F) \<in> mult less_than"
proof -
  have "F = (F - {#x#}) + {#x#}" using assms(1) by simp
  then have "image_mset transit_life F = image_mset transit_life (F - {#x#}) + {#transit_life x#}"
    by (metis image_mset_add_mset image_mset_single image_mset_union)
  moreover have "(image_mset transit_life (F - {#x#}) + image_mset transit_life sent,
      image_mset transit_life (F - {#x#}) + {#transit_life x#}) \<in> mult less_than"
    using assms(2) by (intro one_step_implies_mult) auto
  ultimately show ?thesis by simp
qed

lemma mesh_step_decreases:
  assumes "mesh_step env ident m m'"
  shows "in_flight m' = in_flight m \<or>
    (image_mset transit_life (in_flight m'), image_mset transit_life (in_flight m)) \<in> mult less_than"
  using assms
proof cases
  case (arrive p q frame s' sent)
  have "transit_life y < transit_life (p, q, frame)" if "y \<in># sent" for y
    using onward_life [of y q "mesh_nodes m q" "env q" "ident q" p frame] that arrive(3,4)
    by (auto simp: transit_life_def)
  from flight_decreases [OF arrive(2) this] arrive(1) show ?thesis by simp
next
  case (lose x)
  have "(image_mset transit_life (in_flight m - {#x#} + {#}), image_mset transit_life (in_flight m)) \<in> mult less_than"
    by (rule flight_decreases [OF lose(2)]) simp
  with lose(1) show ?thesis by simp
qed simp

lemma eventually_constant:
  assumes "wf r" "\<And>i. h (Suc i) = h i \<or> (g (h (Suc i)), g (h i)) \<in> r"
  shows "\<exists>n. \<forall>i\<ge>n. h i = h n"
proof -
  have "\<exists>n. \<forall>i\<ge>n. h i = h n" if "g (h k) = x" for x k
    using assms(1) that
  proof (induction x arbitrary: k rule: wf_induct_rule)
    case (less x)
    show ?case
    proof (cases "\<forall>i\<ge>k. h i = h k")
      case False
      then have ex: "\<exists>i. k \<le> i \<and> h i \<noteq> h k" by auto
      let ?j = "LEAST i. k \<le> i \<and> h i \<noteq> h k"
      have j: "k \<le> ?j" "h ?j \<noteq> h k" using LeastI_ex [OF ex] by blast+
      then obtain j where Suc: "?j = Suc j" by (cases ?j) auto
      with j have "k \<le> j" by (metis le_SucE)
      then have hj: "h j = h k" using not_less_Least [of j "\<lambda>i. k \<le> i \<and> h i \<noteq> h k"] Suc by auto
      then have "(g (h (Suc j)), x) \<in> r" using assms(2) [of j] j(2) Suc less.prems by auto
      from less.IH [OF this refl] show ?thesis .
    qed blast
  qed
  then show ?thesis by blast
qed

section \<open>Networks with a fixed order\<close>

text \<open>
  A network that loses nothing and handles the frames in the order they were sent, or the
  newest one first.
\<close>

datatype flood_order = Oldest_First | Newest_First

function flood ::
  "flood_order \<Rightarrow> (PeerId \<Rightarrow> ('e, 'h, 't, 'w NodeState) Env) \<Rightarrow> (PeerId \<Rightarrow> NodeIdentity) \<Rightarrow> (PeerId \<Rightarrow> 'w NodeState) \<Rightarrow>
     transit list \<Rightarrow> PeerId \<Rightarrow> 'w NodeState" where
  "flood ord env ident N [] = N"
| "flood ord env ident N ((p, q, frame) # rest) =
     (let s' = dispatch_state (env q) (ident q) p q frame (N q); new = onward q (N q) s' in
      flood ord env ident (N(q := s')) (case ord of Oldest_First \<Rightarrow> rest @ new | Newest_First \<Rightarrow> new @ rest))"
  by pat_completeness auto

termination
proof (relation "inv_image (mult less_than) (\<lambda>(_, _, _, _, queue). image_mset transit_life (mset queue))")
  fix ord and env :: "PeerId \<Rightarrow> ('e, 'h, 't, 'w NodeState) Env" and ident N p q frame rest s' new
  assume s': "s' = dispatch_state (env q) (ident q) p q frame (N q)" "new = onward q (N q) s'"
  have "transit_life y < transit_life (p, q, frame)" if "y \<in># mset new" for y
    using onward_life [of y q "N q" "env q" "ident q" p frame] that s' by (auto simp: transit_life_def)
  from flight_decreases [of "(p, q, frame)" "mset ((p, q, frame) # rest)" "mset new", OF _ this]
  show "((ord, env, ident, N(q := s'), case ord of Oldest_First \<Rightarrow> rest @ new | Newest_First \<Rightarrow> new @ rest),
      ord, env, ident, N, (p, q, frame) # rest)
      \<in> inv_image (mult less_than) (\<lambda>(_, _, _, _, queue). image_mset transit_life (mset queue))"
    by (cases ord) (simp_all add: union_commute)
qed (simp add: wf_mult)

section \<open>What a fair network delivers\<close>

definition knows :: "(PeerId \<Rightarrow> 'w NodeState) \<Rightarrow> PeerId \<Rightarrow> PeerId \<Rightarrow> bool" where
  "knows N u v \<longleftrightarrow> v \<in> fst ` set (peers (N u))"

text \<open>The frames \<open>flood_neighbors\<close> sends.\<close>

definition flood_from :: "NodeIdentity \<Rightarrow> bytes \<Rightarrow> u64 \<Rightarrow> 'w NodeState \<Rightarrow> transit list" where
  "flood_from ident frame_body msg_id s =
     map (\<lambda>(v, _). (peer_id ident, v, u64_to_be_bytes msg_id @ frame_body)) (neighbors ident s)"

text \<open>The time is a matter of the world, not of what a node remembers.\<close>

definition world_clock :: "('e, 'h, 't, 'w NodeState) Env \<Rightarrow> bool" where
  "world_clock env \<longleftrightarrow> (\<forall>s s'. world s = world s' \<longrightarrow> now (runtime env) s = now (runtime env) s')"

lemma dispatch_at_destination:
  "dispatch_state env ident p local (routed_frame 0x01 mid local life body) s =
    (let s' = s\<lparr>dedup := snd (check_and_insert_routed (now (runtime env) s) mid (dedup s))\<rparr> in
     if seen_recently env mid s then s' else deliver p body s')"
proof -
  let ?f = "routed_frame 0x01 mid local life body"
  have parts: "\<not> length ?f < 9" "\<not> length ?f < 42" "take 8 ?f = u64_to_be_bytes mid" "?f ! 8 = 1"
    "array_of (take 32 (drop 9 ?f)) = Some (as_bytes local)" "drop 42 ?f = body"
    by (simp_all add: wire_simps)
  have "dispatch_state env ident p local ?f s = dispatch_routed (now (runtime env) s) p local mid ?f s"
    using parts by (simp add: dispatch_state_def Let_def)
  then show ?thesis
    using parts by (simp add: dispatch_routed_def seen_recently_def case_prod_beta Let_def)
qed

lemma check_after_check:
  assumes "dedup_inv c" "0 < ttl c"
  shows "fst (dedup_check t k (snd (dedup_check t k c)))"
proof -
  let ?d = "snd (dedup_check t k c)"
  obtain t' where "dedup_lookup ?d k = Some t'" "fresh (ttl c) t t'"
  proof (cases "fst (dedup_check t k c)")
    case True
    then obtain t' where t': "dedup_lookup c k = Some t'" "fresh (ttl c) t t'"
      using dedup.verdict [OF assms(1), of t k] by auto
    show thesis by (rule that [OF dedup.keeps [OF assms(1) t', of k] t'(2)])
  next
    case False
    have "fresh (ttl c) t t" using assms(2) by (simp add: fresh_def)
    with dedup.records [OF assms(1) False] show thesis by (rule that)
  qed
  with dedup.verdict [OF dedup.inv_check [OF assms(1)], of t k t k] show ?thesis
    by (simp add: dedup.window_const)
qed

lemma seen_after_check:
  assumes "dedup_inv (dedup s)" "0 < ttl (dedup s)" "world_clock env"
    and "world s' = world s" "dedup s' = snd (check_and_insert_routed (now (runtime env) s) mid (dedup s))"
  shows "seen_recently env mid s'"
proof -
  have "now (runtime env) s' = now (runtime env) s"
    using assms(3,4) unfolding world_clock_def by blast
  with check_after_check [OF assms(1,2), of "now (runtime env) s" "Inr mid"] show ?thesis
    by (simp add: seen_recently_def assms(5) dedup_check_def)
qed

lemma map_pairI:
  "map f ts = map f' xs \<Longrightarrow> map g ts = map g' xs \<Longrightarrow> map (\<lambda>t. (q, f t, g t)) ts = map (\<lambda>x. (q, f' x, g' x)) xs"
proof (induction ts arbitrary: xs)
  case (Cons t ts)
  then show ?case by (cases xs) auto
qed simp

text \<open>What a node sends on of a routed frame.\<close>

lemma onward_routed:
  "onward q s (dispatch_state env ident p q (routed_frame 0x01 mid dest life body) s) =
    (if dest = q \<or> life = 0 \<or> seen_recently env mid s then []
     else map (\<lambda>x. (q, fst x, routed_frame 0x01 mid dest (min life MAX_TTL - 1) body)) (relay_targets p q s))"
proof (cases "dest = q \<or> life = 0 \<or> seen_recently env mid s")
  case True
  with dispatch_relays_routed [of "0x01" body s env ident p q mid dest life] show ?thesis
    by (auto simp: onward_def)
next
  case False
  let ?ts = "new_tasks s (dispatch_state env ident p q (routed_frame 0x01 mid dest life body) s)"
  have "map task_peer ?ts = map fst (relay_targets p q s)"
    "map task_payload ?ts = map (\<lambda>_. routed_frame 0x01 mid dest (min life MAX_TTL - 1) body) (relay_targets p q s)"
    using dispatch_relays_routed [of "0x01" body s env ident p q mid dest life] False by auto
  from map_pairI [OF this, of q] False show ?thesis by (simp add: onward_def)
qed

text \<open>
  Where a flood of \<open>copy\<close> of a message stands: \<open>H\<close> are the nodes that have handled a copy, \<open>N\<^sub>0\<close> the
  network before the flood.  Either the destination has the message, or a copy is under way
  to a node from where it lives long enough to get there through nodes that have seen none.
\<close>

definition has_message ::
  "('e, 'h, 't, 'w NodeState) Env \<Rightarrow> u64 \<Rightarrow> bytes \<Rightarrow> 'w NodeState \<Rightarrow> 'w NodeState \<Rightarrow> bool" where
  "has_message env mid body s\<^sub>0 s \<longleftrightarrow>
     dedup_inv (dedup s) \<and> 0 < ttl (dedup s) \<and> seen_recently env mid s \<and>
     (\<exists>p. delivered s = delivered s\<^sub>0 @ [(p, body)])"

definition live_copy ::
  "(PeerId \<Rightarrow> ('e, 'h, 't, 'w NodeState) Env) \<Rightarrow> u64 \<Rightarrow> PeerId \<Rightarrow> (PeerId \<Rightarrow> 'w NodeState) \<Rightarrow> PeerId set \<Rightarrow>
     transit \<Rightarrow> bool" where
  "live_copy env mid dest N\<^sub>0 used x \<longleftrightarrow>
     (\<exists>vs. last (fst (snd x) # vs) = dest \<and> distinct (fst (snd x) # vs) \<and> successively (knows N\<^sub>0) (fst (snd x) # vs) \<and>
       length vs \<le> transit_life x \<and> (\<forall>v \<in> set (fst (snd x) # vs). v \<notin> used \<and> \<not> seen_recently (env v) mid (N\<^sub>0 v)))"

definition flood_inv ::
  "(PeerId \<Rightarrow> ('e, 'h, 't, 'w NodeState) Env) \<Rightarrow> PeerId \<Rightarrow> PeerId \<Rightarrow> u64 \<Rightarrow> bytes \<Rightarrow> (PeerId \<Rightarrow> 'w NodeState) \<Rightarrow>
     PeerId set \<Rightarrow> (PeerId \<Rightarrow> 'w NodeState) \<Rightarrow> transit list \<Rightarrow> bool" where
  "flood_inv env origin dest mid body N\<^sub>0 H N queue \<longleftrightarrow>
     (\<forall>x \<in> set queue. fst x \<in> insert origin H \<and>
        (\<exists>life. snd (snd x) = routed_frame 0x01 mid dest life body \<and> life \<le> MAX_TTL)) \<and>
     (\<forall>v. v \<notin> H \<longrightarrow> N v = N\<^sub>0 v) \<and>
     sorted_wrt (\<ge>) (map transit_life queue) \<and>
     (\<forall>x \<in> set queue. \<forall>y \<in> set queue. transit_life x \<le> Suc (transit_life y)) \<and>
     (if dest \<in> H then has_message (env dest) mid body (N\<^sub>0 dest) (N dest)
      else \<exists>x \<in> set queue. live_copy env mid dest N\<^sub>0 (insert origin H) x)"

lemma has_message_first:
  assumes "dedup_inv (dedup s)" "0 < ttl (dedup s)" "world_clock env" "handler s" "\<not> seen_recently env mid s"
  shows "has_message env mid body s (dispatch_state env ident p dest (routed_frame 0x01 mid dest life body) s)"
proof -
  let ?s = "dispatch_state env ident p dest (routed_frame 0x01 mid dest life body) s"
  have s: "?s = deliver p body (s\<lparr>dedup := snd (check_and_insert_routed (now (runtime env) s) mid (dedup s))\<rparr>)"
    using assms(5) by (simp add: dispatch_at_destination)
  then have "dedup ?s = snd (check_and_insert_routed (now (runtime env) s) mid (dedup s))" "world ?s = world s"
      "delivered ?s = delivered s @ [(p, body)]"
    using assms(4) by (simp_all add: deliver_def)
  moreover from this have "dedup_inv (dedup ?s)" "ttl (dedup ?s) = ttl (dedup s)"
    using dedup.inv_check [OF assms(1), of "now (runtime env) s" "Inr mid"]
      dedup.window_const [of "now (runtime env) s" "Inr mid" "dedup s"] by (simp_all add: dedup_check_def)
  ultimately show ?thesis
    using assms(2) seen_after_check [OF assms(1-3)] by (auto simp: has_message_def)
qed

lemma has_message_again:
  assumes "has_message env mid body s\<^sub>0 s" "world_clock env"
  shows "has_message env mid body s\<^sub>0 (dispatch_state env ident p dest (routed_frame 0x01 mid dest life body) s)"
proof -
  let ?s = "dispatch_state env ident p dest (routed_frame 0x01 mid dest life body) s"
  have inv: "dedup_inv (dedup s)" "0 < ttl (dedup s)" "seen_recently env mid s"
    using assms(1) by (simp_all add: has_message_def)
  have s: "?s = s\<lparr>dedup := snd (check_and_insert_routed (now (runtime env) s) mid (dedup s))\<rparr>"
    using inv(3) by (simp add: dispatch_at_destination)
  moreover have "dedup_inv (dedup ?s)" "ttl (dedup ?s) = ttl (dedup s)"
    using s dedup.inv_check [OF inv(1), of "now (runtime env) s" "Inr mid"]
      dedup.window_const [of "now (runtime env) s" "Inr mid" "dedup s"] by (simp_all add: dedup_check_def)
  ultimately show ?thesis
    using assms(1) seen_after_check [OF inv(1,2) assms(2), of ?s mid] by (auto simp: has_message_def)
qed

lemma transit_life_routed: "life \<le> MAX_TTL \<Longrightarrow> transit_life (p, q, routed_frame 0x01 mid dest life body) = unat life"
  by (simp add: transit_life_def wire_simps min_absorb1)

lemma last_not_first: "distinct (x # y # zs) \<Longrightarrow> last (x # y # zs) \<noteq> x"
  using last_in_set [of "y # zs"] by (auto simp del: last.simps simp: last_ConsR)

text \<open>Handling a copy at a node of its way gives a copy to the next.\<close>

lemma live_copy_step:
  assumes path: "distinct (q # b # bs)" "last (q # b # bs) = dest" "successively (knows N\<^sub>0) (q # b # bs)"
      "\<forall>v \<in> set (q # b # bs). v \<notin> used \<and> \<not> seen_recently (env v) mid (N\<^sub>0 v)"
    and life: "length (b # bs) \<le> unat life" "life \<le> MAX_TTL" and p: "p \<in> used"
  shows "\<exists>x \<in> set (onward q (N\<^sub>0 q) (dispatch_state (env q) ident p q (routed_frame 0x01 mid dest life body) (N\<^sub>0 q))).
    live_copy env mid dest N\<^sub>0 (insert q used) x"
proof -
  let ?x = "(q, b, routed_frame 0x01 mid dest (life - 1) body)"
  have nonzero: "life \<noteq> 0" using life(1) by auto
  note life' = nonzero unat_minus_one [OF nonzero]
  then have "life - 1 \<le> MAX_TTL" using life(2) by (simp add: word_le_nat_alt)
  then have tl: "transit_life ?x = unat life - 1" by (simp add: transit_life_routed life')
  have "dest \<noteq> q" using last_not_first [OF path(1)] path(2) by simp
  moreover have "\<not> seen_recently (env q) mid (N\<^sub>0 q)" using path(4) by simp
  moreover obtain anns where "(b, anns) \<in> set (peers (N\<^sub>0 q))" using path(3) by (auto simp: knows_def)
  moreover have "b \<noteq> p" "b \<noteq> q" using path(1,4) p by auto
  ultimately have "?x \<in> set (onward q (N\<^sub>0 q) (dispatch_state (env q) ident p q (routed_frame 0x01 mid dest life body) (N\<^sub>0 q)))"
    using life(2) life' by (force simp: onward_routed relay_targets_def min_absorb1)
  moreover have "live_copy env mid dest N\<^sub>0 (insert q used) ?x"
    unfolding live_copy_def using path life(1) tl by (intro exI [of _ bs]) auto
  ultimately show ?thesis by blast
qed

lemma order_step:
  assumes "sorted_wrt (\<ge>) (map f (x # rest))" "\<forall>y \<in> set (x # rest). \<forall>z \<in> set (x # rest). f y \<le> Suc (f z)"
    and "\<forall>y \<in> set new. Suc (f y) = f x"
  shows "sorted_wrt (\<ge>) (map f (rest @ new)) \<and> (\<forall>y \<in> set (rest @ new). \<forall>z \<in> set (rest @ new). f y \<le> Suc (f z))"
proof -
  have bounds: "f y \<le> f x \<and> f x \<le> Suc (f y)" if "y \<in> set (rest @ new)" for y
    using that assms by auto
  have "sorted_wrt (\<ge>) (map f new)"
    using assms(3) by (induction new) auto
  moreover have "f z \<le> f y" if "y \<in> set rest" "z \<in> set new" for y z
    using bounds [of y] assms(3) that by (metis Suc_le_mono Un_iff set_append)
  ultimately have "sorted_wrt (\<ge>) (map f (rest @ new))"
    using assms(1) by (auto simp: sorted_wrt_append)
  moreover have "f y \<le> Suc (f z)" if "y \<in> set (rest @ new)" "z \<in> set (rest @ new)" for y z
    using bounds [OF that(1)] bounds [OF that(2)] by linarith
  ultimately show ?thesis by blast
qed

lemma flood_inv_step:
  assumes inv: "flood_inv env origin dest mid body N\<^sub>0 H N ((p, q, frame) # rest)"
    and clock: "world_clock (env dest)" and dest: "handler (N\<^sub>0 dest)" "dedup_inv (dedup (N\<^sub>0 dest))" "0 < ttl (dedup (N\<^sub>0 dest))"
  shows "flood_inv env origin dest mid body N\<^sub>0 (insert q H) (N(q := dispatch_state (env q) (ident q) p q frame (N q)))
    (rest @ onward q (N q) (dispatch_state (env q) (ident q) p q frame (N q)))"
proof -
  let ?s = "dispatch_state (env q) (ident q) p q frame (N q)"
  let ?new = "onward q (N q) ?s"
  obtain life where frame: "frame = routed_frame 0x01 mid dest life body" "life \<le> MAX_TTL"
    using inv by (auto simp: flood_inv_def)
  have life: "Suc (transit_life y) = transit_life (p, q, frame)" if "y \<in> set ?new" for y
    using onward_life [OF that] by (simp add: transit_life_def)
  have frames: "fst y = q \<and> (\<exists>life. snd (snd y) = routed_frame 0x01 mid dest life body \<and> life \<le> MAX_TTL)"
    if "y \<in> set ?new" for y
  proof -
    have "life \<noteq> 0" "fst y = q" "snd (snd y) = routed_frame 0x01 mid dest (min life MAX_TTL - 1) body"
      using that unfolding frame(1) onward_routed by (auto split: if_splits)
    moreover from this(1) have "min life MAX_TTL - 1 \<le> MAX_TTL"
      using frame(2) unat_minus_one [of life] by (simp add: word_le_nat_alt min_absorb1)
    ultimately show ?thesis by blast
  qed
  have order: "sorted_wrt (\<ge>) (map transit_life (rest @ ?new)) \<and>
      (\<forall>y \<in> set (rest @ ?new). \<forall>z \<in> set (rest @ ?new). transit_life y \<le> Suc (transit_life z))"
    using inv life by (intro order_step [where x = "(p, q, frame)"]) (auto simp: flood_inv_def)
  have goal: "if dest \<in> insert q H then has_message (env dest) mid body (N\<^sub>0 dest) ((N(q := ?s)) dest)
      else \<exists>x \<in> set (rest @ ?new). live_copy env mid dest N\<^sub>0 (insert origin (insert q H)) x"
  proof (cases "dest \<in> H")
    case True
    then have "has_message (env dest) mid body (N\<^sub>0 dest) (N dest)"
      using inv by (simp add: flood_inv_def)
    with True has_message_again [OF this clock] frame(1) show ?thesis by auto
  next
    case False
    then have N: "N dest = N\<^sub>0 dest" using inv by (simp add: flood_inv_def)
    obtain x where x: "x \<in> set ((p, q, frame) # rest)" "live_copy env mid dest N\<^sub>0 (insert origin H) x"
      using inv False by (auto simp: flood_inv_def)
    then obtain vs where vs: "last (fst (snd x) # vs) = dest" "distinct (fst (snd x) # vs)"
        "successively (knows N\<^sub>0) (fst (snd x) # vs)" "length vs \<le> transit_life x"
        "\<forall>v \<in> set (fst (snd x) # vs). v \<notin> insert origin H \<and> \<not> seen_recently (env v) mid (N\<^sub>0 v)"
      by (auto simp: live_copy_def)
    show ?thesis
    proof (cases "q \<in> set (fst (snd x) # vs)")
      case False
      then have "x \<in> set rest" using x(1) by auto
      moreover have "live_copy env mid dest N\<^sub>0 (insert origin (insert q H)) x"
        unfolding live_copy_def using vs False by (intro exI [of _ vs]) auto
      moreover have "dest \<noteq> q" using vs(1) False by (metis last_in_set list.discI)
      ultimately show ?thesis using \<open>dest \<notin> H\<close> by auto
    next
      case True
      then obtain as bs where split: "fst (snd x) # vs = as @ q # bs" by (meson split_list)
      have "transit_life x \<le> transit_life (p, q, frame)"
        using x(1) inv by (auto simp: flood_inv_def)
      then have bs: "length bs \<le> unat life"
        using vs(4) arg_cong [OF split, of length] frame by (simp add: transit_life_routed)
      have Nq: "N q = N\<^sub>0 q" "\<not> seen_recently (env q) mid (N\<^sub>0 q)"
        using vs(5) True inv by (auto simp: flood_inv_def)
      show ?thesis
      proof (cases bs)
        case Nil
        then have "dest = q" using vs(1) split by simp
        with has_message_first [OF dest(2,3) clock dest(1)] Nq frame(1) show ?thesis by auto
      next
        case (Cons b bs')
        have path: "distinct (q # b # bs')" "last (q # b # bs') = dest" "successively (knows N\<^sub>0) (q # b # bs')"
            "\<forall>v \<in> set (q # b # bs'). v \<notin> insert origin H \<and> \<not> seen_recently (env v) mid (N\<^sub>0 v)"
          using vs(1,2,3,5) unfolding split Cons by (auto simp: successively_append_iff)
        have "p \<in> insert origin H" using inv by (simp add: flood_inv_def)
        from live_copy_step [where env = env and ident = "ident q" and body = body, OF path _ frame(2) this] bs Cons
        obtain y where "y \<in> set ?new" "live_copy env mid dest N\<^sub>0 (insert q (insert origin H)) y"
          unfolding frame(1) Nq(1) by auto
        moreover have "dest \<noteq> q" using last_not_first [OF path(1)] path(2) by simp
        ultimately show ?thesis using \<open>dest \<notin> H\<close> by (auto simp: insert_commute)
      qed
    qed
  qed
  show ?thesis
    using inv frames order goal unfolding flood_inv_def by auto
qed

lemma flood_inv_run:
  "flood_inv env origin dest mid body N\<^sub>0 H N queue \<Longrightarrow> ord = Oldest_First \<Longrightarrow> world_clock (env dest) \<Longrightarrow>
    handler (N\<^sub>0 dest) \<Longrightarrow> dedup_inv (dedup (N\<^sub>0 dest)) \<Longrightarrow> 0 < ttl (dedup (N\<^sub>0 dest)) \<Longrightarrow>
    has_message (env dest) mid body (N\<^sub>0 dest) (flood ord env ident N queue dest)"
proof (induction ord env ident N queue arbitrary: H rule: flood.induct)
  case (1 ord env ident N)
  then show ?case by (simp add: flood_inv_def split: if_splits)
next
  case (2 ord env ident N p q frame rest)
  note step = flood_inv_step [where ident = ident, OF "2.prems"(1,3-6)]
  show ?case
    unfolding flood.simps Let_def
    by (rule "2.IH" [where H = "insert q H"]) (use "2.prems"(2-6) step in \<open>simp_all add: fun_upd_def\<close>)
qed

section \<open>Properties\<close>

text \<open>
  C9: every flood dies out.  Whatever nodes there are, however they are linked and whatever
  their states, in every run of the network (frames arriving in any order, relayed copies
  sent once, repeatedly or not at all, frames lost, nodes doing other things in between),
  only finitely many frames are handled: from some point on nothing moves any more.  It does
  not depend on the deduplication.
\<close>

theorem flood_dies_out:
  assumes "\<And>i. mesh_step env ident (run i) (run (Suc i))"
  shows "\<exists>n. \<forall>i\<ge>n. in_flight (run i) = in_flight (run n)"
proof (rule eventually_constant [where g = "image_mset transit_life"])
  show "wf (mult less_than)" by (simp add: wf_mult)
qed (rule mesh_step_decreases [OF assms])


text \<open>A network of nodes with the given neighbours, none of which has seen a frame.\<close>

abbreviation node_name :: "u8 \<Rightarrow> PeerId" where
  "node_name x \<equiv> PeerId (fill_array x)"

definition network :: "(u8 \<Rightarrow> u8 list) \<Rightarrow> PeerId \<Rightarrow> bytes list NodeState" where
  "network links v = (script_state [])\<lparr>peers := map (\<lambda>x. (node_name x, [])) (links (hd (bytes_of (as_bytes v))))\<rparr>"

lemma network_simps [simp]:
  "peers (network links (node_name x)) = map (\<lambda>y. (node_name y, [])) (links x)"
  "handler (network links v)" "dedup (network links v) = dedup_new" "delivered (network links v) = []"
  "\<not> seen_recently script_env mid (network links v)"
  by (simp_all add: network_def script_state_def not_seen_new)

lemma script_clock: "world_clock script_env"
  by (simp add: world_clock_def script_env_def)

lemma new_cache [simp]: "dedup_inv dedup_new" "0 < ttl dedup_new"
  by (simp_all add: dedup_new_def dedup_inv_def DEDUP_TTL_def)

definition line :: "u8 \<Rightarrow> u8 list" where
  "line x = (if x = 1 then [2] else if x = 2 then [1, 3] else [2])"

text \<open>The first node of the line sends a frame for the third; the second relays it, and that is all.\<close>

theorem flood_dies_out_witness:
  "\<exists>run :: nat \<Rightarrow> bytes list Mesh. in_flight (run 0) = {#(node_name 1, node_name 2, routed_frame 0x01 5 (node_name 3) 7 [10])#} \<and>
     in_flight (run 1) = {#(node_name 2, node_name 3, routed_frame 0x01 5 (node_name 3) 6 [10])#} \<and>
     (\<exists>n. \<forall>i\<ge>n. in_flight (run i) = in_flight (run n))"
proof -
  let ?N = "network line" and ?f = "\<lambda>life. routed_frame 0x01 5 (node_name 3) life [10]"
  let ?s = "dispatch_state script_env (plain_identity first_byte_hash 2) (node_name 1) (node_name 2) (?f 7) (?N (node_name 2))"
  let ?m = "\<lparr>mesh_nodes = ?N, in_flight = {#(node_name 1, node_name 2, ?f 7)#}\<rparr>"
  let ?m' = "\<lparr>mesh_nodes = ?N(node_name 2 := ?s), in_flight = {#(node_name 2, node_name 3, ?f 6)#}\<rparr>"
  let ?run = "\<lambda>i. if i = (0 :: nat) then ?m else ?m'"
  have "onward (node_name 2) (?N (node_name 2)) ?s = [(node_name 2, node_name 3, ?f 6)]"
    by (simp add: onward_routed relay_targets_def line_def MAX_TTL_def)
  then have "mesh_step (\<lambda>_. script_env) (\<lambda>_. plain_identity first_byte_hash 2) ?m ?m'"
    using mesh_step.arrive [of "node_name 1" "node_name 2" "?f 7" ?m ?s "\<lambda>_. script_env" "\<lambda>_. plain_identity first_byte_hash 2"
        "{#(node_name 2, node_name 3, ?f 6)#}"] by simp
  moreover have "mesh_step (\<lambda>_. script_env) (\<lambda>_. plain_identity first_byte_hash 2) ?m' ?m'"
    using mesh_step.elsewhere [of _ _ ?m' "mesh_nodes ?m'"] by simp
  ultimately have "mesh_step (\<lambda>_. script_env) (\<lambda>_. plain_identity first_byte_hash 2) (?run i) (?run (Suc i))" for i
    by simp
  from flood_dies_out [of _ _ ?run, OF this] show ?thesis
    by (intro exI [of _ ?run]) simp
qed

text \<open>
  C2: a fair network delivers exactly once to every destination in reach.  When frames are
  handled in the order they were sent, a routed message gets from its origin to a destination
  that some path of at most eight hops through the peer tables leads to, whatever other
  nodes and links there are; the destination's handler gets it once, although many
  copies may arrive.  The nodes of the path have not seen the id, and no clock moves on.
\<close>

theorem fair_flood_reaches_destination:
  assumes "origin = peer_id (ident origin)" "origin \<notin> set path" "path \<noteq> []" "last path = dest" "distinct path"
    and "length path \<le> Suc (unat MAX_TTL)" "successively (knows N) (origin # path)"
    and "\<forall>v \<in> set path. \<not> seen_recently (env v) mid (N v)"
    and "world_clock (env dest)" "handler (N dest)" "dedup_inv (dedup (N dest))" "0 < ttl (dedup (N dest))"
  shows "\<exists>p. delivered (flood Oldest_First env ident N (flood_from (ident origin) (routed_body 0x01 dest payload) mid (N origin)) dest) =
    delivered (N dest) @ [(p, payload)]"
proof -
  let ?f = "routed_frame 0x01 mid dest MAX_TTL payload"
  let ?queue = "flood_from (ident origin) (routed_body 0x01 dest payload) mid (N origin)"
  obtain v vs where path: "path = v # vs" using assms(3) by (cases path) auto
  have queue: "?queue = map (\<lambda>x. (origin, fst x, ?f)) (neighbors (ident origin) (N origin))"
    using assms(1) by (simp add: flood_from_def routed_body_frame case_prod_beta)
  have life: "transit_life (origin, u, ?f) = unat MAX_TTL" for u
    by (simp add: transit_life_routed)
  obtain anns where "(v, anns) \<in> set (peers (N origin))" "v \<noteq> origin"
    using assms(2,7) path by (auto simp: knows_def)
  then have "(origin, v, ?f) \<in> set ?queue"
    unfolding queue using assms(1) by (force simp: neighbors_def)
  moreover have "live_copy env mid dest N {origin} (origin, v, ?f)"
    unfolding live_copy_def life using assms(2,4-8) path by (intro exI [of _ vs]) auto
  moreover have "sorted_wrt (\<ge>) (map transit_life ?queue)"
    unfolding queue by (simp add: comp_def life sorted_wrt_iff_nth_less)
  ultimately have "flood_inv env origin dest mid payload N {} N ?queue"
    unfolding flood_inv_def by (auto simp: queue life)
  from flood_inv_run [OF this refl assms(9-12)] show ?thesis
    by (simp add: has_message_def)
qed


theorem fair_flood_reaches_destination_witness:
  "\<exists>p. delivered (flood Oldest_First (\<lambda>_. script_env) (plain_identity first_byte_hash \<circ> hd \<circ> bytes_of \<circ> as_bytes)
      (network line)
      (flood_from (plain_identity first_byte_hash 1) (routed_body 0x01 (node_name 3) [10, 20]) 5
        (network line (node_name 1))) (node_name 3)) = [(p, [10, 20])]"
proof -
  let ?N = "network line"
  let ?ident = "plain_identity first_byte_hash \<circ> hd \<circ> bytes_of \<circ> as_bytes"
  have path: "node_name 1 \<notin> set [node_name 2, node_name 3]" "[node_name 2, node_name 3] \<noteq> []"
      "last [node_name 2, node_name 3] = node_name 3" "distinct [node_name 2, node_name 3]"
      "length [node_name 2, node_name 3] \<le> Suc (unat MAX_TTL)"
      "successively (knows ?N) (node_name 1 # [node_name 2, node_name 3])"
      "node_name 1 = peer_id (?ident (node_name 1))"
    by (simp_all add: MAX_TTL_def knows_def line_def plain_identity_peer_id)
  show ?thesis
    using fair_flood_reaches_destination [where ident = ?ident and env = "\<lambda>_. script_env" and N = ?N and mid = 5
        and payload = "[10, 20]", OF path(7,1-6)]
    by (simp add: script_clock)
qed


lemma seen_after_relay:
  assumes "dedup_inv (dedup s)" "0 < ttl (dedup s)" "world_clock env" "dest \<noteq> q" "life \<noteq> 0"
  shows "seen_recently env mid (dispatch_state env ident p q (routed_frame 0x01 mid dest life body) s)"
proof -
  let ?f = "routed_frame 0x01 mid dest life body"
  have parts: "\<not> length ?f < 9" "\<not> length ?f < 42" "take 8 ?f = u64_to_be_bytes mid" "?f ! 8 = 1" "?f ! 41 = life"
    "array_of (take 32 (drop 9 ?f)) = Some (as_bytes dest)"
    by (simp_all add: wire_simps)
  have "min life MAX_TTL \<noteq> 0" using assms(5) by (auto simp: MAX_TTL_def min_def)
  then have "dispatch_state env ident p q ?f s = (let s' = s\<lparr>dedup := snd (check_and_insert_routed (now (runtime env) s) mid (dedup s))\<rparr> in
      if seen_recently env mid s then s'
      else spawn_relay_to_neighbors (0x01 # bytes_of (as_bytes dest) @ [min life MAX_TTL - 1] @ drop 42 ?f) mid p q s')"
    using parts assms(4) by (simp add: dispatch_state_def dispatch_routed_def seen_recently_def case_prod_beta Let_def)
  then show ?thesis
    by (intro seen_after_check [OF assms(1-3)]) (simp_all add: spawn_relay_to_neighbors_def Let_def)
qed

text \<open>A ring of the nodes 0 to 7, with the nodes 8 and 9 behind node 7.\<close>

definition ring_links :: "u8 \<Rightarrow> u8 list" where
  "ring_links x = (if x = 0 then [1, 7] else if x = 7 then [6, 8, 0] else if x = 9 then [8] else [x - 1, x + 1])"

lemma ring_simps:
  "ring_links 0 = [1, 7]" "ring_links 1 = [0, 2]" "ring_links 2 = [1, 3]" "ring_links 3 = [2, 4]"
  "ring_links 4 = [3, 5]" "ring_links 5 = [4, 6]" "ring_links 6 = [5, 7]" "ring_links 7 = [6, 8, 0]"
  "ring_links 8 = [7, 9]" "ring_links 9 = [8]"
  by (simp_all add: ring_links_def)


end
