(* ===== verification/Hex_Ids.thy ===== *)
theory Hex_Ids
  imports Wire
begin

text \<open>
  Short ids in hexadecimal, as \<open>crates/pathweave-transport-ble/src/advertising.rs\<close> and both
  back ends of \<open>crates/pathweave-transport-wifi-direct/src\<close> write and parse them, with the
  parts of \<open>std\<close> they use: slicing of strings, which panics off a character boundary, and
  \<open>u8::from_str_radix\<close>.
\<close>

section \<open>Strings and digits of the standard library\<close>

definition is_char_boundary :: "bytes \<Rightarrow> nat \<Rightarrow> bool" where
  "is_char_boundary s i \<longleftrightarrow> i = 0 \<or> i = length s \<or> i < length s \<and> \<not> is_cont (s ! i)"

text \<open>\<open>&s[a..b]\<close>\<close>

definition str_slice :: "bytes \<Rightarrow> nat \<Rightarrow> nat \<Rightarrow> bytes panicking" where
  "str_slice s a b =
     (if a \<le> b \<and> is_char_boundary s a \<and> is_char_boundary s b then Done (take (b - a) (drop a s)) else Panic)"

definition to_digit16 :: "u8 \<Rightarrow> nat option" where
  "to_digit16 c =
     (let n = unat c in
      if 48 \<le> n \<and> n \<le> 57 then Some (n - 48)
      else if 97 \<le> n \<and> n \<le> 102 then Some (n - 87)
      else if 65 \<le> n \<and> n \<le> 70 then Some (n - 55)
      else None)"

fun parse_digits :: "nat \<Rightarrow> bytes \<Rightarrow> nat option" where
  "parse_digits acc [] = Some acc"
| "parse_digits acc (c # cs) =
     (case to_digit16 c of
        None \<Rightarrow> None
      | Some d \<Rightarrow> if 16 * acc + d < 256 then parse_digits (16 * acc + d) cs else None)"

text \<open>A leading plus sign is skipped; a minus sign is no digit of an unsigned number.\<close>

definition u8_from_str_radix16 :: "bytes \<Rightarrow> u8 option" where
  "u8_from_str_radix16 s =
     (if s = [] \<or> s = [43] \<or> s = [45] then None
      else map_option of_nat (parse_digits 0 (if hd s = 43 then tl s else s)))"

section \<open>Short ids\<close>

definition short_id_to_hex :: "bytes8 \<Rightarrow> rstring" where
  "short_id_to_hex i = Abs_rstring (concat (map hex_byte (bytes_of i)))"

text \<open>The loop over the pairs; it stops at the first pair that does not parse.\<close>

fun parse_pairs :: "bytes \<Rightarrow> nat list \<Rightarrow> bytes option panicking" where
  "parse_pairs hex [] = Done (Some [])"
| "parse_pairs hex (i # is) =
     (case str_slice hex (i * 2) (i * 2 + 2) of
        Panic \<Rightarrow> Panic
      | Done pair \<Rightarrow>
          (case u8_from_str_radix16 pair of
             None \<Rightarrow> Done None
           | Some b \<Rightarrow>
               (case parse_pairs hex is of
                  Panic \<Rightarrow> Panic
                | Done r \<Rightarrow> Done (map_option (Cons b) r))))"

definition parse_hex16 :: "bytes \<Rightarrow> bytes8 option panicking" where
  "parse_hex16 hex =
     (if length hex \<noteq> 16 then Done None
      else case parse_pairs hex [0..<8] of
        Panic \<Rightarrow> Panic
      | Done r \<Rightarrow> Done (Option.bind r array_of))"

definition hex_to_short_id :: "rstring \<Rightarrow> bytes8 option panicking" where
  "hex_to_short_id hex = parse_hex16 (str_bytes hex)"

section \<open>Round trip\<close>

lemma hex_digit_ascii: "n < 16 \<Longrightarrow> unat (hex_digit n) = (if n < 10 then 48 + n else 87 + n)"
  using unat_of_nat [of "48 + n", where 'a = 8] unat_of_nat [of "87 + n", where 'a = 8]
  by (simp add: hex_digit_def)

lemma unat_byte: "unat (b :: u8) < 256"
  using unsigned_less [of b] by simp

lemma to_digit_hex_digit: "n < 16 \<Longrightarrow> to_digit16 (hex_digit n) = Some n"
  by (auto simp: to_digit16_def hex_digit_ascii Let_def)

lemma hex_digit_less: "n < 16 \<Longrightarrow> hex_digit n < 0x80"
  by (simp add: word_less_nat_alt hex_digit_ascii)

lemma hex_digit_not_plus: "n < 16 \<Longrightarrow> hex_digit n \<noteq> 43"
  using hex_digit_ascii [of n] by (auto split: if_splits)

lemma parse_hex_byte: "u8_from_str_radix16 (hex_byte b) = Some b"
proof -
  have n: "unat b div 16 < 16" "unat b mod 16 < 16"
    using unat_byte [of b] by auto
  have "16 * (unat b div 16) + unat b mod 16 = unat b" "unat b < 256"
    using unat_byte [of b] by auto
  then show ?thesis
    using n hex_digit_not_plus [OF n(1)]
    by (simp add: u8_from_str_radix16_def hex_byte_def to_digit_hex_digit)
qed

lemma hex_byte_ascii: "c \<in> set (hex_byte b) \<Longrightarrow> c < 0x80"
  using unat_byte [of b] by (auto simp: hex_byte_def intro!: hex_digit_less)

lemma length_hex_byte [simp]: "length (hex_byte b) = 2"
  by (simp add: hex_byte_def)

lemma length_concat_hex [simp]: "length (concat (map hex_byte bs)) = 2 * length bs"
  by (induction bs) simp_all

lemma concat_hex_ascii: "c \<in> set (concat (map hex_byte bs)) \<Longrightarrow> c < 0x80"
  using hex_byte_ascii by auto

lemma ascii_boundary: "\<forall>c \<in> set s. c < 0x80 \<Longrightarrow> i \<le> length s \<Longrightarrow> is_char_boundary s i"
  by (auto simp: is_char_boundary_def is_cont_def not_le dest!: nth_mem)

lemma slice_hex:
  assumes "i < length bs"
  shows "str_slice (concat (map hex_byte bs)) (i * 2) (i * 2 + 2) = Done (hex_byte (bs ! i))"
proof -
  let ?s = "concat (map hex_byte bs)"
  have b: "is_char_boundary ?s j" if "j \<le> 2 * length bs" for j
    by (rule ascii_boundary) (use concat_hex_ascii that in auto)
  have split: "concat (map hex_byte bs) =
      concat (map hex_byte (take i bs)) @ hex_byte (bs ! i) @ concat (map hex_byte (drop (Suc i) bs))"
    by (subst id_take_nth_drop [OF assms]) simp
  have "take 2 (drop (i * 2) ?s) = hex_byte (bs ! i)"
    by (subst split) (use assms in simp)
  then show ?thesis
    using assms b [of "i * 2"] b [of "i * 2 + 2"] by (simp add: str_slice_def)
qed

lemma parse_pairs_hex:
  "\<forall>i \<in> set is. i < length bs \<Longrightarrow>
     parse_pairs (concat (map hex_byte bs)) is = Done (Some (map (nth bs) is))"
  by (induction "is") (simp_all add: slice_hex [simplified] parse_hex_byte)

lemma parse_hex16_concat:
  assumes "length bs = 8"
  shows "parse_hex16 (concat (map hex_byte bs)) = Done (array_of bs)"
proof -
  have "map (nth bs) [0..<8] = bs"
    using map_nth [of bs] assms by simp
  then show ?thesis
    using parse_pairs_hex [of "[0..<8]" bs] assms by (simp add: parse_hex16_def)
qed

lemma str_bytes_short_id: "str_bytes (short_id_to_hex i) = concat (map hex_byte (bytes_of i))"
  unfolding short_id_to_hex_def
  by (rule str_bytes_Abs, rule utf8_valid_ascii) (use concat_hex_ascii in blast)

lemma hex_to_short_id_to_hex: "hex_to_short_id (short_id_to_hex i) = Done (Some i)"
  by (simp add: hex_to_short_id_def str_bytes_short_id parse_hex16_concat)

section \<open>Which strings parse\<close>

lemma parse_pairs_ascii:
  assumes "\<forall>c \<in> set s. c < 0x80"
  shows "\<forall>i \<in> set is. i * 2 + 2 \<le> length s \<Longrightarrow> parse_pairs s is \<noteq> Panic"
proof (induction "is")
  case (Cons i "is")
  then have "is_char_boundary s (i * 2)" "is_char_boundary s (i * 2 + 2)"
    by (auto intro!: ascii_boundary [OF assms])
  with Cons show ?case by (auto simp: str_slice_def split: option.splits panicking.splits)
qed simp

lemma parse_hex16_ascii:
  assumes "\<forall>c \<in> set s. c < 0x80"
  shows "parse_hex16 s \<noteq> Panic"
proof (cases "length s = 16")
  case True
  then have "parse_pairs s [0..<8] \<noteq> Panic"
    by (intro parse_pairs_ascii [OF assms]) auto
  then show ?thesis by (auto simp: parse_hex16_def split: panicking.splits)
qed (simp add: parse_hex16_def)

section \<open>Properties\<close>

text \<open>
  The hexadecimal form of a short id parses back to it, so the address a node advertises
  leads back to the node; and parsing cannot fail otherwise than by returning nothing as long
  as the string is ASCII.
\<close>

theorem hex_id_roundtrip:
  assumes "\<forall>c \<in> set (str_bytes s). c < 0x80"
  shows "hex_to_short_id (short_id_to_hex i) = Done (Some i) \<and> (\<exists>r. hex_to_short_id s = Done r)"
  using parse_hex16_ascii [OF assms] hex_to_short_id_to_hex
  by (cases "hex_to_short_id s") (auto simp: hex_to_short_id_def)

theorem hex_id_roundtrip_witness:
  "hex_to_short_id (short_id_to_hex (fill_array 0xC0)) = Done (Some (fill_array 0xC0)) \<and>
   (\<exists>r. hex_to_short_id (Abs_rstring [0x7A]) = Done r)"
proof -
  have "str_bytes (Abs_rstring [0x7A]) = [0x7A]"
    by (rule str_bytes_Abs) simp
  then show ?thesis
    using hex_id_roundtrip [of "Abs_rstring [0x7A]" "fill_array 0xC0"] by simp
qed

text \<open>The string of a zero, an e with acute accent (two bytes) and thirteen zeros.\<close>

definition accented_id :: bytes where
  "accented_id = 0x30 # 0xC3 # 0xA9 # replicate 13 0x30"

text \<open>
  A peer can make a node panic with an address.  The address exchange accepts every string
  for an advertising address; one of sixteen bytes with a two-byte character across a pair
  of digits makes \<open>hex_to_short_id\<close> slice inside the character.
\<close>

theorem multibyte_address_panics:
  "\<exists>s. str_bytes s = accented_id \<and>
     decode_addr_exchange (encode_addr_exchange [BleAdvertising s]) = Some [BleAdvertising s] \<and>
     hex_to_short_id s = Panic"
proof (intro exI conjI)
  let ?s = "Abs_rstring accented_id"
  have valid: "utf8_valid accented_id"
    by code_simp
  then show bytes: "str_bytes ?s = accented_id"
    by (rule str_bytes_Abs)
  show "decode_addr_exchange (encode_addr_exchange [BleAdvertising ?s]) = Some [BleAdvertising ?s]"
  proof -
    have "length (str_bytes ?s) = 16"
      unfolding bytes by (simp add: accented_id_def)
    then show ?thesis
      using decode_encode_addr_exchange [of "[BleAdvertising ?s]" "[]"] by simp
  qed
  show "hex_to_short_id ?s = Panic"
    unfolding hex_to_short_id_def bytes
    by code_simp
qed

end
