(* ===== verification/Socket_Addr.thy ===== *)
theory Socket_Addr
  imports Hex_Ids
begin

text \<open>
  \<open>str::parse::<SocketAddr>\<close> of the standard library, which the WiFi Direct transport applies to
  an IP address the platform names and a port: the parsers of \<open>core::net\<close>, on bytes.
\<close>

section \<open>Parsers\<close>

text \<open>A parser returns what it read and the rest of the input, or nothing.\<close>

type_synonym 'a parser = "bytes \<Rightarrow> ('a \<times> bytes) option"

definition given_char :: "u8 \<Rightarrow> unit parser" where
  "given_char c bs = (case bs of b # rest \<Rightarrow> if b = c then Some ((), rest) else None | [] \<Rightarrow> None)"

text \<open>The separator is read before every element but the first.\<close>

definition separated :: "u8 \<Rightarrow> nat \<Rightarrow> 'a parser \<Rightarrow> 'a parser" where
  "separated sep i p bs =
     (if 0 < i then (case given_char sep bs of Some (_, rest) \<Rightarrow> p rest | None \<Rightarrow> None) else p bs)"

definition digit_value :: "nat \<Rightarrow> u8 \<Rightarrow> nat option" where
  "digit_value radix b = (case to_digit16 b of Some d \<Rightarrow> if d < radix then Some d else None | None \<Rightarrow> None)"

fun span_digits :: "nat \<Rightarrow> bytes \<Rightarrow> nat list \<times> bytes" where
  "span_digits radix [] = ([], [])"
| "span_digits radix (b # bs) =
     (case digit_value radix b of
        Some d \<Rightarrow> let (ds, rest) = span_digits radix bs in (d # ds, rest)
      | None \<Rightarrow> ([], b # bs))"

definition digits_value :: "nat \<Rightarrow> nat list \<Rightarrow> nat" where
  "digits_value radix = foldl (\<lambda>acc d. radix * acc + d) 0"

text \<open>
  \<open>read_number\<close>: all digits that follow, at most \<open>max_digits\<close> of them, with a value below
  \<open>bound\<close>, the first value past the integer type.
\<close>

definition read_number :: "nat \<Rightarrow> nat option \<Rightarrow> bool \<Rightarrow> nat \<Rightarrow> nat parser" where
  "read_number radix max_digits allow_zero_prefix bound bs =
     (let (ds, rest) = span_digits radix bs; v = digits_value radix ds in
      if ds = [] \<or> (case max_digits of Some m \<Rightarrow> m < length ds | None \<Rightarrow> False) \<or> bound \<le> v
        \<or> \<not> allow_zero_prefix \<and> hd ds = 0 \<and> 1 < length ds
      then None else Some (v, rest))"

definition read_port :: "u16 parser" where
  "read_port bs =
     (case given_char 58 bs of
        None \<Rightarrow> None
      | Some (_, rest) \<Rightarrow> map_option (\<lambda>(v, r). (of_nat v, r)) (read_number 10 None True (2 ^ 16) rest))"

section \<open>IPv4\<close>

fun read_octets :: "nat \<Rightarrow> nat \<Rightarrow> bytes parser" where
  "read_octets i 0 bs = Some ([], bs)"
| "read_octets i (Suc n) bs =
     (case separated 46 i (read_number 10 (Some 3) False (2 ^ 8)) bs of
        None \<Rightarrow> None
      | Some (v, rest) \<Rightarrow> map_option (\<lambda>(os, r). (of_nat v # os, r)) (read_octets (Suc i) n rest))"

definition read_ipv4_addr :: "bytes4 parser" where
  "read_ipv4_addr bs =
     (case read_octets 0 4 bs of
        Some (os, rest) \<Rightarrow> map_option (\<lambda>ip. (ip, rest)) (array_of os)
      | None \<Rightarrow> None)"

definition read_socket_addr_v4 :: "SocketAddr parser" where
  "read_socket_addr_v4 bs =
     (case read_ipv4_addr bs of
        None \<Rightarrow> None
      | Some (ip, rest) \<Rightarrow> map_option (\<lambda>(p, r). (V4 ip p, r)) (read_port rest))"

section \<open>IPv6\<close>

text \<open>
  \<open>read_groups\<close> with \<open>limit\<close> slots, from slot \<open>i\<close> on: the groups read, the rest, and whether it
  ended with an embedded IPv4 address.
\<close>

fun read_groups :: "nat \<Rightarrow> nat \<Rightarrow> bytes \<Rightarrow> u16 list \<times> bytes \<times> bool" where
  "read_groups i 0 bs = ([], bs, False)"
| "read_groups i (Suc left) bs =
     (case (if 0 < left then separated 58 i read_ipv4_addr bs else None) of
        Some (ip, rest) \<Rightarrow>
          ([u16_from_be_bytes (take 2 (bytes_of ip)), u16_from_be_bytes (drop 2 (bytes_of ip))], rest, True)
      | None \<Rightarrow>
          (case separated 58 i (read_number 16 (Some 4) True (2 ^ 16)) bs of
             None \<Rightarrow> ([], bs, False)
           | Some (g, rest) \<Rightarrow>
               let (gs, r, v4) = read_groups (Suc i) left rest in (of_nat g # gs, r, v4)))"

definition groups_addr :: "u16 list \<Rightarrow> bytes16 option" where
  "groups_addr gs = array_of (concat (map u16_to_be_bytes gs))"

definition read_ipv6_addr :: "bytes16 parser" where
  "read_ipv6_addr bs =
     (let (head, rest, v4) = read_groups 0 8 bs in
      if length head = 8 then map_option (\<lambda>ip. (ip, rest)) (groups_addr head)
      else if v4 then None
      else case given_char 58 rest of
        None \<Rightarrow> None
      | Some (_, rest\<^sub>1) \<Rightarrow>
          (case given_char 58 rest\<^sub>1 of
             None \<Rightarrow> None
           | Some (_, rest\<^sub>2) \<Rightarrow>
               let (tail, rest\<^sub>3, _) = read_groups 0 (8 - (length head + 1)) rest\<^sub>2 in
               map_option (\<lambda>ip. (ip, rest\<^sub>3))
                 (groups_addr (head @ replicate (8 - length head - length tail) 0 @ tail))))"

text \<open>A scope id is optional; without one it is zero, and so is the flow info.\<close>

definition read_scope_id :: "u32 parser" where
  "read_scope_id bs =
     (case given_char 37 bs of
        None \<Rightarrow> None
      | Some (_, rest) \<Rightarrow> map_option (\<lambda>(v, r). (of_nat v, r)) (read_number 10 None True (2 ^ 32) rest))"

definition read_socket_addr_v6 :: "SocketAddr parser" where
  "read_socket_addr_v6 bs =
     (case given_char 91 bs of
        None \<Rightarrow> None
      | Some (_, rest) \<Rightarrow>
          (case read_ipv6_addr rest of
             None \<Rightarrow> None
           | Some (ip, rest\<^sub>1) \<Rightarrow>
               let (scope, rest\<^sub>2) = (case read_scope_id rest\<^sub>1 of Some r \<Rightarrow> r | None \<Rightarrow> (0, rest\<^sub>1)) in
               (case given_char 93 rest\<^sub>2 of
                  None \<Rightarrow> None
                | Some (_, rest\<^sub>3) \<Rightarrow> map_option (\<lambda>(p, r). (V6 ip p 0 scope, r)) (read_port rest\<^sub>3))))"

section \<open>Socket addresses\<close>

text \<open>The whole input has to be read.\<close>

definition parse_socket_addr :: "bytes \<Rightarrow> SocketAddr option" where
  "parse_socket_addr bs =
     (case (case read_socket_addr_v4 bs of Some r \<Rightarrow> Some r | None \<Rightarrow> read_socket_addr_v6 bs) of
        Some (addr, []) \<Rightarrow> Some addr
      | _ \<Rightarrow> None)"

section \<open>Numbers as they are displayed\<close>

function dec_digits :: "nat \<Rightarrow> nat list" where
  "dec_digits n = (if n < 10 then [n] else dec_digits (n div 10) @ [n mod 10])"
  by auto
termination
  by (relation "measure id") auto

declare dec_digits.simps [simp del]

definition show_nat :: "nat \<Rightarrow> bytes" where
  "show_nat n = map (\<lambda>d. of_nat (48 + d)) (dec_digits n)"

definition show_ipv4 :: "bytes4 \<Rightarrow> bytes" where
  "show_ipv4 ip = (case map (show_nat \<circ> unat) (bytes_of ip) of
     [a, b, c, d] \<Rightarrow> a @ [46] @ b @ [46] @ c @ [46] @ d | _ \<Rightarrow> [])"

lemma dec_digits_less: "\<forall>d \<in> set (dec_digits n). d < 10"
proof (induction n rule: dec_digits.induct)
  case (1 n)
  then show ?case by (subst dec_digits.simps) auto
qed

lemma digits_value_dec: "digits_value 10 (dec_digits n) = n"
proof (induction n rule: dec_digits.induct)
  case (1 n)
  then show ?case by (subst dec_digits.simps) (auto simp: digits_value_def)
qed

lemma dec_digits_head: "dec_digits n \<noteq> [] \<and> (hd (dec_digits n) = 0 \<longrightarrow> n = 0)"
proof (induction n rule: dec_digits.induct)
  case (1 n)
  then show ?case by (subst (1 2) dec_digits.simps) auto
qed

lemma dec_digits_0 [simp]: "dec_digits 0 = [0]"
  by (subst dec_digits.simps) simp

lemma length_dec_digits: "n < 10 ^ k \<Longrightarrow> 0 < k \<Longrightarrow> length (dec_digits n) \<le> k"
proof (induction n arbitrary: k rule: dec_digits.induct)
  case (1 n)
  show ?case
  proof (cases "n < 10")
    case True
    with 1 show ?thesis by (subst dec_digits.simps) simp
  next
    case False
    with 1(2,3) have "k \<noteq> 0" "k \<noteq> Suc 0" by auto
    then obtain j where j: "k = Suc j" "0 < j"
      by (cases k) auto
    have "n div 10 < 10 ^ j"
      using 1(2) j by (simp add: less_mult_imp_div_less mult.commute)
    with 1(1) [OF False this j(2)] False j show ?thesis
      by (subst dec_digits.simps) simp
  qed
qed

lemma digit_value_char: "d < 10 \<Longrightarrow> digit_value 10 (of_nat (48 + d)) = Some d"
  using unat_of_nat [of "48 + d", where 'a = 8] by (simp add: digit_value_def to_digit16_def)

definition no_digit :: "bytes \<Rightarrow> bool" where
  "no_digit bs \<longleftrightarrow> bs = [] \<or> digit_value 10 (hd bs) = None"

lemma span_digits_show:
  "\<forall>d \<in> set ds. d < 10 \<Longrightarrow> no_digit rest \<Longrightarrow>
     span_digits 10 (map (\<lambda>d. of_nat (48 + d)) ds @ rest) = (ds, rest)"
proof (induction ds)
  case Nil
  then show ?case by (cases rest) (auto simp: no_digit_def)
next
  case (Cons d ds)
  then show ?case using digit_value_char [of d] by (simp del: of_nat_add)
qed

lemma read_number_show:
  assumes "n < bound" "no_digit rest" "\<And>m. max_digits = Some m \<Longrightarrow> n < 10 ^ m \<and> 0 < m"
  shows "read_number 10 max_digits zero bound (show_nat n @ rest) = Some (n, rest)"
proof -
  have "span_digits 10 (show_nat n @ rest) = (dec_digits n, rest)"
    unfolding show_nat_def by (rule span_digits_show [OF dec_digits_less assms(2)])
  moreover have "\<not> (hd (dec_digits n) = 0 \<and> 1 < length (dec_digits n))"
    using dec_digits_head [of n] by (cases "n = 0") auto
  moreover have "\<not> (case max_digits of Some m \<Rightarrow> m < length (dec_digits n) | None \<Rightarrow> False)"
    using assms(3) length_dec_digits [of n] by (auto simp: not_less split: option.splits)
  ultimately show ?thesis
    using assms(1) dec_digits_head [of n] by (auto simp: read_number_def digits_value_dec Let_def)
qed

lemma separators_no_digit: "no_digit (46 # bs)" "no_digit (58 # bs)" "no_digit []"
  by (simp_all add: no_digit_def digit_value_def to_digit16_def)

lemma read_octet_show:
  assumes "no_digit rest"
  shows "read_number 10 (Some 3) False (2 ^ 8) (show_nat (unat (b :: u8)) @ rest) = Some (unat b, rest)"
  using unsigned_less [of b, where 'a = nat] by (intro read_number_show assms) auto

text \<open>An IPv4 address and a port, displayed with a colon between them, parse back.\<close>

lemma parse_show_socket_addr:
  "parse_socket_addr (show_ipv4 ip @ 58 # show_nat (unat p)) = Some (V4 ip p)"
proof -
  obtain a b c d where ip: "bytes_of ip = [a, b, c, d]"
  proof -
    have "length (bytes_of ip) = Suc (Suc (Suc (Suc 0)))" by simp
    then show thesis using that by (auto simp only: length_Suc_conv length_0_conv)
  qed
  then have "array_of [a, b, c, d] = Some ip"
    by (simp add: array_of_Some_iff)
  moreover have "read_port (58 # show_nat (unat p)) = Some (p, [])"
    using read_number_show [of "unat p" "2 ^ 16" "[]" None True] unsigned_less [of p, where 'a = nat]
    by (simp add: read_port_def given_char_def separators_no_digit)
  moreover have "read_octets 0 4 (show_ipv4 ip @ 58 # show_nat (unat p)) = Some ([a, b, c, d], 58 # show_nat (unat p))"
  proof -
    have four: "(4::nat) = Suc (Suc (Suc (Suc 0)))" by simp
    show ?thesis
      unfolding four read_octets.simps
      by (simp add: show_ipv4_def ip separated_def given_char_def read_octet_show [simplified] separators_no_digit)
  qed
  ultimately show ?thesis
    by (simp add: parse_socket_addr_def read_socket_addr_v4_def read_ipv4_addr_def)
qed

end
