(* ===== verification/Std_Text.thy ===== *)
theory Std_Text
  imports Hex_Ids Socket_Addr
begin

text \<open>
  What the programs use of the standard library's text: characters and their encoding,
  \<open>push\<close> and \<open>pop\<close> on strings, and the lossy decoding of bytes.
\<close>

section \<open>Characters\<close>

typedef rchar = "{n :: nat. n < 0xD800 \<or> 0xE000 \<le> n \<and> n \<le> 0x10FFFF}"
  morphisms char_code Abs_rchar
  by (rule exI [of _ 0]) simp

instantiation rchar :: equal
begin

definition equal_rchar :: "rchar \<Rightarrow> rchar \<Rightarrow> bool" where
  "equal_rchar a b \<longleftrightarrow> char_code a = char_code b"

instance
  by standard (simp add: equal_rchar_def char_code_inject)

end

text \<open>\<open>char::encode_utf8\<close>.\<close>

definition encode_utf8 :: "rchar \<Rightarrow> bytes" where
  "encode_utf8 c =
     (let n = char_code c in
      map of_nat
        (if n < 0x80 then [n]
         else if n < 0x800 then [0xC0 + n div 64, 0x80 + n mod 64]
         else if n < 0x10000 then [0xE0 + n div 4096, 0x80 + n div 64 mod 64, 0x80 + n mod 64]
         else [0xF0 + n div 262144, 0x80 + n div 4096 mod 64, 0x80 + n div 64 mod 64, 0x80 + n mod 64]))"

text \<open>\<open>String::pop\<close>: the last character goes.\<close>

definition str_pop :: "bytes \<Rightarrow> bytes" where
  "str_pop s = rev (tl (dropWhile is_cont (rev s)))"

section \<open>Lossy decoding\<close>

definition REPLACEMENT :: bytes where
  "REPLACEMENT = [0xEF, 0xBF, 0xBD]"

text \<open>
  \<open>String::from_utf8_lossy\<close>: every longest prefix of a character that is not continued
  becomes one replacement character.
\<close>

fun lossy :: "bytes \<Rightarrow> bytes" where
  "lossy [] = []"
| "lossy (b # bs) =
     (if b < 0x80 then b # lossy bs
      else if 0xC2 \<le> b \<and> b \<le> 0xDF then
        (case bs of
           c # cs \<Rightarrow> if is_cont c then b # c # lossy cs else REPLACEMENT @ lossy bs
         | [] \<Rightarrow> REPLACEMENT)
      else if 0xE0 \<le> b \<and> b \<le> 0xEF then
        (case bs of
           c # cs \<Rightarrow>
             if utf8_second3 b c then
               (case cs of
                  d # ds \<Rightarrow> if is_cont d then b # c # d # lossy ds else REPLACEMENT @ lossy cs
                | [] \<Rightarrow> REPLACEMENT)
             else REPLACEMENT @ lossy bs
         | [] \<Rightarrow> REPLACEMENT)
      else if 0xF0 \<le> b \<and> b \<le> 0xF4 then
        (case bs of
           c # cs \<Rightarrow>
             if utf8_second4 b c then
               (case cs of
                  d # ds \<Rightarrow>
                    if is_cont d then
                      (case ds of
                         e # es \<Rightarrow> if is_cont e then b # c # d # e # lossy es else REPLACEMENT @ lossy ds
                       | [] \<Rightarrow> REPLACEMENT)
                    else REPLACEMENT @ lossy cs
                | [] \<Rightarrow> REPLACEMENT)
             else REPLACEMENT @ lossy bs
         | [] \<Rightarrow> REPLACEMENT)
      else REPLACEMENT @ lossy bs)"

section \<open>Encodings are valid\<close>

lemma of_nat_byte: "n < 256 \<Longrightarrow> unat (of_nat n :: u8) = n"
  by (simp add: unat_of_nat)

lemma of_nat_byte_cmp:
  assumes "n < 256"
  shows "(of_nat n :: u8) < w \<longleftrightarrow> n < unat w" "(of_nat n :: u8) \<le> w \<longleftrightarrow> n \<le> unat w" "w \<le> (of_nat n :: u8) \<longleftrightarrow> unat w \<le> n"
  using assms by (auto simp: word_less_nat_alt word_le_nat_alt of_nat_byte)

lemma of_nat_byte_eq: "n < 256 \<Longrightarrow> (of_nat n :: u8) = numeral k \<longleftrightarrow> n = unat (numeral k :: u8)"
  by (auto simp: of_nat_byte word_unat_eq_iff)

lemma of_nat_byte_cont: "n < 64 \<Longrightarrow> is_cont (of_nat (0x80 + n))"
  unfolding is_cont_def by (simp add: of_nat_byte_cmp del: of_nat_add)

lemma of_nat_byte_lead: "n < 0x80 \<or> 0xC0 \<le> n \<and> n < 256 \<Longrightarrow> \<not> is_cont (of_nat n)"
  unfolding is_cont_def by (auto simp: of_nat_byte_cmp)

lemma char_code_range: "char_code c < 0xD800 \<or> 0xE000 \<le> char_code c \<and> char_code c \<le> 0x10FFFF"
  using char_code [of c] by simp

text \<open>The four lengths of an encoding, with the bounds of its first byte.\<close>

lemma encode_utf8_cases:
  obtains (one) n where "encode_utf8 c = [of_nat n]" "n < 0x80"
  | (two) a b where "encode_utf8 c = [of_nat (0xC0 + a), of_nat (0x80 + b)]" "2 \<le> a" "a < 32" "b < 64"
  | (three) a b d where "encode_utf8 c = [of_nat (0xE0 + a), of_nat (0x80 + b), of_nat (0x80 + d)]" "a < 16" "b < 64" "d < 64"
      "a = 0 \<Longrightarrow> 32 \<le> b" "a = 13 \<Longrightarrow> b < 32"
  | (four) a b d e where "encode_utf8 c = [of_nat (0xF0 + a), of_nat (0x80 + b), of_nat (0x80 + d), of_nat (0x80 + e)]"
      "a < 5" "b < 64" "d < 64" "e < 64" "a = 0 \<Longrightarrow> 16 \<le> b" "a = 4 \<Longrightarrow> b < 16"
proof -
  let ?n = "char_code c"
  consider "?n < 0x80" | "0x80 \<le> ?n" "?n < 0x800" | "0x800 \<le> ?n" "?n < 0x10000" | "0x10000 \<le> ?n" "?n \<le> 0x10FFFF"
    using char_code_range [of c] by linarith
  then show thesis
  proof cases
    case 1
    then show thesis by (intro one [of ?n]) (simp_all add: encode_utf8_def)
  next
    case 2
    then show thesis by (intro two [of "?n div 64" "?n mod 64"]) (simp_all add: encode_utf8_def Let_def)
  next
    case 3
    let ?m = "?n div 64"
    have m: "?n div 4096 = ?m div 64" using div_mult2_eq [of ?n 64 64] by simp
    have split: "?m = 64 * (?m div 64) + ?m mod 64" by simp
    have "?m < 864 \<or> 896 \<le> ?m" "32 \<le> ?m" "?m < 1024" using char_code_range [of c] 3 by auto
    with split have "?m div 64 = 0 \<Longrightarrow> 32 \<le> ?m mod 64" "?m div 64 = 13 \<Longrightarrow> ?m mod 64 < 32" "?m div 64 < 16"
      using mod_less_divisor [of 64 ?m] by linarith+
    with 3 m show thesis
      by (intro three [of "?n div 4096" "?m mod 64" "?n mod 64"]) (simp_all add: encode_utf8_def Let_def)
  next
    case 4
    let ?m = "?n div 4096"
    have m: "?n div 262144 = ?m div 64" using div_mult2_eq [of ?n 4096 64] by simp
    have split: "?m = 64 * (?m div 64) + ?m mod 64" by simp
    have "16 \<le> ?m" "?m \<le> 271" using 4 by auto
    with split have "?m div 64 = 0 \<Longrightarrow> 16 \<le> ?m mod 64" "?m div 64 = 4 \<Longrightarrow> ?m mod 64 < 16" "?m div 64 < 5"
      using mod_less_divisor [of 64 ?m] by linarith+
    with 4 m show thesis
      by (intro four [of "?n div 262144" "?m mod 64" "?n div 64 mod 64" "?n mod 64"]) (simp_all add: encode_utf8_def Let_def)
  qed
qed

text \<open>A character is a byte that continues nothing, followed by bytes that do.\<close>

lemma encode_utf8_shape:
  obtains b bs where "encode_utf8 c = b # bs" "\<not> is_cont b" "\<forall>x \<in> set bs. is_cont x"
  by (cases c rule: encode_utf8_cases; rule that)
     (auto simp: of_nat_byte_lead of_nat_byte_cont simp del: of_nat_add)

lemma str_pop_push [simp]: "str_pop (s @ encode_utf8 c) = s"
proof -
  obtain b bs where "encode_utf8 c = b # bs" "\<not> is_cont b" "\<forall>x \<in> set bs. is_cont x"
    using encode_utf8_shape by blast
  moreover from this have "dropWhile is_cont (rev bs @ b # rev s) = b # rev s"
    by (subst dropWhile_append2) auto
  ultimately show ?thesis by (simp add: str_pop_def)
qed

lemma str_pop_Nil [simp]: "str_pop [] = []"
  by (simp add: str_pop_def)

lemma utf8_valid_encode [simp]: "utf8_valid (encode_utf8 c @ s) \<longleftrightarrow> utf8_valid s"
proof (cases c rule: encode_utf8_cases)
  case (one n)
  then show ?thesis by (simp add: of_nat_byte_cmp)
next
  case (two a b)
  then show ?thesis by (simp add: of_nat_byte_cont of_nat_byte_cmp del: of_nat_add)
next
  case (three a b d)
  then have "utf8_second3 (of_nat (0xE0 + a)) (of_nat (0x80 + b))"
    by (auto simp: utf8_second3_def of_nat_byte_cmp of_nat_byte_eq of_nat_byte_cont simp del: of_nat_add)
  with three(1-4) show ?thesis by (simp add: of_nat_byte_cont of_nat_byte_cmp del: of_nat_add)
next
  case (four a b d e)
  then have "utf8_second4 (of_nat (0xF0 + a)) (of_nat (0x80 + b))"
    by (auto simp: utf8_second4_def of_nat_byte_cmp of_nat_byte_eq of_nat_byte_cont simp del: of_nat_add)
  with four(1-5) show ?thesis by (simp add: of_nat_byte_cont of_nat_byte_cmp del: of_nat_add)
qed

definition encode_str :: "rchar list \<Rightarrow> bytes" where
  "encode_str cs = concat (map encode_utf8 cs)"

lemma encode_str_simps [simp]:
  "encode_str [] = []" "encode_str (cs @ [c]) = encode_str cs @ encode_utf8 c"
  by (simp_all add: encode_str_def)

lemma utf8_valid_encode_str [simp]: "utf8_valid (encode_str cs)"
proof -
  have "utf8_valid (encode_str cs @ s) \<longleftrightarrow> utf8_valid s" for s
    by (induction cs) (simp_all add: encode_str_def)
  from this [of "[]"] show ?thesis by simp
qed

lemma str_pop_encode_str: "str_pop (encode_str cs) = encode_str (butlast cs)"
  by (cases cs rule: rev_cases) simp_all

section \<open>Validity\<close>

text \<open>One character after the other, by its first byte.\<close>

lemma utf8_lead_cases:
  fixes b :: u8
  obtains "b < 0x80" | "\<not> b < 0x80" "0xC2 \<le> b \<and> b \<le> 0xDF"
    | "\<not> b < 0x80" "\<not> (0xC2 \<le> b \<and> b \<le> 0xDF)" "0xE0 \<le> b \<and> b \<le> 0xEF"
    | "\<not> b < 0x80" "\<not> (0xC2 \<le> b \<and> b \<le> 0xDF)" "\<not> (0xE0 \<le> b \<and> b \<le> 0xEF)" "0xF0 \<le> b \<and> b \<le> 0xF4"
    | "\<not> b < 0x80" "\<not> (0xC2 \<le> b \<and> b \<le> 0xDF)" "\<not> (0xE0 \<le> b \<and> b \<le> 0xEF)" "\<not> (0xF0 \<le> b \<and> b \<le> 0xF4)"
  by blast

lemma utf8_valid_Cons_cases:
  assumes "utf8_valid (b # bs)"
  obtains (one) "b < 0x80" "utf8_valid bs"
  | (two) c cs where "bs = c # cs" "\<not> b < 0x80" "0xC2 \<le> b \<and> b \<le> 0xDF" "is_cont c" "utf8_valid cs"
  | (three) c d cs where "bs = c # d # cs" "\<not> b < 0x80" "\<not> (0xC2 \<le> b \<and> b \<le> 0xDF)" "0xE0 \<le> b \<and> b \<le> 0xEF"
      "utf8_second3 b c" "is_cont d" "utf8_valid cs"
  | (four) c d e cs where "bs = c # d # e # cs" "\<not> b < 0x80" "\<not> (0xC2 \<le> b \<and> b \<le> 0xDF)" "\<not> (0xE0 \<le> b \<and> b \<le> 0xEF)"
      "0xF0 \<le> b \<and> b \<le> 0xF4" "utf8_second4 b c" "is_cont d" "is_cont e" "utf8_valid cs"
proof -
  show thesis
  proof (cases b rule: utf8_lead_cases)
    case 1
    with assms show thesis by (intro one) simp_all
  next
    case 2
    with assms have "case bs of c # cs \<Rightarrow> is_cont c \<and> utf8_valid cs | _ \<Rightarrow> False" by (simp only: utf8_valid.simps if_False if_True)
    then obtain c cs where c: "bs = c # cs" "is_cont c" "utf8_valid cs" by (cases bs) auto
    show thesis by (rule two [OF c(1) 2 c(2,3)])
  next
    case 3
    with assms have "case bs of c # d # cs \<Rightarrow> utf8_second3 b c \<and> is_cont d \<and> utf8_valid cs | _ \<Rightarrow> False"
      by (simp only: utf8_valid.simps if_False if_True)
    then obtain c d cs where c: "bs = c # d # cs" "utf8_second3 b c" "is_cont d" "utf8_valid cs"
      by (cases bs; cases "tl bs") auto
    show thesis by (rule three [OF c(1) 3 c(2-4)])
  next
    case 4
    with assms have "case bs of c # d # e # cs \<Rightarrow> utf8_second4 b c \<and> is_cont d \<and> is_cont e \<and> utf8_valid cs | _ \<Rightarrow> False"
      by (simp only: utf8_valid.simps if_False if_True)
    then obtain c d e cs where c: "bs = c # d # e # cs" "utf8_second4 b c" "is_cont d" "is_cont e" "utf8_valid cs"
      by (cases bs; cases "tl bs"; cases "tl (tl bs)") auto
    show thesis by (rule four [OF c(1) 4 c(2-5)])
  next
    case 5
    with assms show thesis by (simp only: utf8_valid.simps if_False if_True)
  qed
qed

lemma utf8_valid_append: "utf8_valid s \<Longrightarrow> utf8_valid (s @ t) \<longleftrightarrow> utf8_valid t"
proof (induction s rule: length_induct)
  case (1 s)
  show ?case
  proof (cases s)
    case (Cons b bs)
    with 1(2) have "utf8_valid (b # bs)" by simp
    then show ?thesis
      using 1(1) Cons
      by (cases rule: utf8_valid_Cons_cases) (simp_all only: append_Cons utf8_valid.simps if_True if_False list.case, auto)
  qed simp
qed

lemma lossy_valid: "utf8_valid s \<Longrightarrow> lossy s = s"
proof (induction s rule: length_induct)
  case (1 s)
  show ?case
  proof (cases s)
    case (Cons b bs)
    with 1(2) have "utf8_valid (b # bs)" by simp
    then show ?thesis
      using 1(1) Cons
      by (cases rule: utf8_valid_Cons_cases) (simp_all only: lossy.simps if_True if_False list.case, auto)
  qed simp
qed

lemma utf8_valid_replacement [simp]: "utf8_valid (REPLACEMENT @ s) \<longleftrightarrow> utf8_valid s" "utf8_valid REPLACEMENT"
  by (simp_all add: REPLACEMENT_def utf8_second3_def is_cont_def)

lemma utf8_valid_char:
  "\<not> b < 0x80 \<Longrightarrow> 0xC2 \<le> b \<and> b \<le> 0xDF \<Longrightarrow> is_cont c \<Longrightarrow> utf8_valid (b # c # t) \<longleftrightarrow> utf8_valid t"
  "\<not> b < 0x80 \<Longrightarrow> \<not> (0xC2 \<le> b \<and> b \<le> 0xDF) \<Longrightarrow> 0xE0 \<le> b \<and> b \<le> 0xEF \<Longrightarrow> utf8_second3 b c \<Longrightarrow> is_cont d \<Longrightarrow>
     utf8_valid (b # c # d # t) \<longleftrightarrow> utf8_valid t"
  "\<not> b < 0x80 \<Longrightarrow> \<not> (0xC2 \<le> b \<and> b \<le> 0xDF) \<Longrightarrow> \<not> (0xE0 \<le> b \<and> b \<le> 0xEF) \<Longrightarrow> 0xF0 \<le> b \<and> b \<le> 0xF4 \<Longrightarrow>
     utf8_second4 b c \<Longrightarrow> is_cont d \<Longrightarrow> is_cont e \<Longrightarrow> utf8_valid (b # c # d # e # t) \<longleftrightarrow> utf8_valid t"
  by (simp_all only: utf8_valid.simps list.case if_True if_False simp_thms)

lemma utf8_valid_lossy: "utf8_valid (lossy s)"
proof (induction s rule: length_induct)
  case (1 s)
  show ?case
  proof (cases s)
    case (Cons b bs)
    have IH: "utf8_valid (lossy t)" if "length t \<le> length bs" for t using 1 Cons that by simp
    note ok = utf8_valid_replacement IH
    have "utf8_valid (lossy (b # bs))"
    proof (cases b rule: utf8_lead_cases)
      case 1
      with IH [of bs] show ?thesis by simp
    next
      case 2
      show ?thesis
        unfolding lossy.simps if_not_P [OF 2(1)] if_P [OF 2(2)]
        by (cases bs) (simp_all add: ok utf8_valid_char(1) [OF 2] del: utf8_valid.simps(2) lossy.simps(2))
    next
      case 3
      show ?thesis
        unfolding lossy.simps if_not_P [OF 3(1)] if_not_P [OF 3(2)] if_P [OF 3(3)]
        by (cases bs; cases "tl bs") (auto simp add: ok utf8_valid_char(2) [OF 3] simp del: utf8_valid.simps(2) lossy.simps(2))
    next
      case 4
      show ?thesis
        unfolding lossy.simps if_not_P [OF 4(1)] if_not_P [OF 4(2)] if_not_P [OF 4(3)] if_P [OF 4(4)]
        by (cases bs; cases "tl bs"; cases "tl (tl bs)") (auto simp add: ok utf8_valid_char(3) [OF 4] simp del: utf8_valid.simps(2) lossy.simps(2))
    next
      case 5
      show ?thesis
        unfolding lossy.simps if_not_P [OF 5(1)] if_not_P [OF 5(2)] if_not_P [OF 5(3)] if_not_P [OF 5(4)] by (simp add: ok)
    qed
    with Cons show ?thesis by simp
  qed simp
qed

definition from_utf8_lossy :: "bytes \<Rightarrow> rstring" where
  "from_utf8_lossy v = Abs_rstring (lossy v)"

lemma from_utf8_lossy_str: "from_utf8_lossy (str_bytes s) = s"
  by (simp add: from_utf8_lossy_def lossy_valid str_bytes_inverse)

end
