(* ===== verification/Pw_Chat.thy ===== *)
theory Pw_Chat
  imports Node_Runs Std_Text
begin

text \<open>
  \<open>examples/pw-chat/src/main.rs\<close>: the terminal chat over the API of a node.  The terminal
  (ratatui, crossterm) and the base58 crate are arguments.
\<close>

section \<open>The application state\<close>

definition DEFAULT_LISTEN_PORT :: u16 where
  "DEFAULT_LISTEN_PORT = 9001"

record Args =
  peer_arg :: "SocketAddr option"
  port_arg :: u16

text \<open>Lines and input are UTF-8 text.\<close>

record App =
  messages :: "bytes list"
  input :: bytes
  app_peer_id :: "PeerId option"
  peer_short_id :: "bytes option"
  transport_name :: "string option"
  app_short_id :: bytes

text \<open>\<open>id.to_base58()[..8].to_owned()\<close>, with the panic of a slice.\<close>

definition short_base58 :: "(PeerId \<Rightarrow> bytes) \<Rightarrow> PeerId \<Rightarrow> bytes panicking" where
  "short_base58 to_base58 p = str_slice (to_base58 p) 0 8"

definition app_new :: "(PeerId \<Rightarrow> bytes) \<Rightarrow> bytes \<Rightarrow> PeerId option \<Rightarrow> App panicking" where
  "app_new to_base58 local_id peer =
     (let app = \<lparr>messages = [], input = [], app_peer_id = peer, peer_short_id = None, transport_name = None,
            app_short_id = local_id\<rparr> in
      case peer of
        None \<Rightarrow> Done app
      | Some p \<Rightarrow>
          (case short_base58 to_base58 p of
             Panic \<Rightarrow> Panic
           | Done short \<Rightarrow> Done (app\<lparr>peer_short_id := Some short\<rparr>)))"

fun transport_kind_name :: "TransportKind \<Rightarrow> string" where
  "transport_kind_name KQuic = ''QUIC''"
| "transport_kind_name KBle = ''BLE''"
| "transport_kind_name KWifiDirect = ''WiFiDirect''"
| "transport_kind_name KBleAdvertising = ''BLE-Advertising''"

definition push_line :: "bytes \<Rightarrow> App \<Rightarrow> App" where
  "push_line l app = app\<lparr>messages := messages app @ [l]\<rparr>"

text \<open>\<open>Display\<close> of \<open>PathweaveError\<close>.\<close>

fun show_error :: "(PeerId \<Rightarrow> bytes) \<Rightarrow> PathweaveError \<Rightarrow> bytes" where
  "show_error b58 NoTransportAvailable = ascii ''no transport available to reach peer''"
| "show_error b58 DeliveryFailed = ascii ''delivery failed: all retry attempts exhausted without confirmation''"
| "show_error b58 (Transport m) = ascii (''transport error: '' @ m)"
| "show_error b58 (PathweaveError.Session m) = ascii (''session error: '' @ m)"
| "show_error b58 (Bundle m) = ascii (''bundle error: '' @ m)"
| "show_error b58 InvalidKey = ascii ''invalid key material''"
| "show_error b58 (KeyUnknown p) = ascii ''no known key for destination '' @ b58 p"
| "show_error b58 (Io m) = ascii m"

section \<open>Drawing\<close>

record Rect =
  rect_x :: u16
  rect_y :: u16
  rect_width :: u16
  rect_height :: u16

record Screen =
  status_line :: bytes
  shown :: "bytes list"
  input_line :: bytes
  cursor :: "u16 \<times> u16"

definition saturating_sub :: "u16 \<Rightarrow> u16 \<Rightarrow> u16" where
  "saturating_sub a b = (if b \<le> a then a - b else 0)"

text \<open>
  What one frame shows, in the three chunks of the layout.  The additions on \<open>u16\<close> wrap, as in
  a release build.
\<close>

definition draw :: "Rect \<times> Rect \<times> Rect \<Rightarrow> App \<Rightarrow> Screen" where
  "draw = (\<lambda>(_, c\<^sub>1, c\<^sub>2) app.
     let peer_label = (case peer_short_id app of Some l \<Rightarrow> l | None \<Rightarrow> ascii ''waiting...'');
         transport_label = (case transport_name app of Some l \<Rightarrow> l | None \<Rightarrow> ''none'');
         inner_height = unat (saturating_sub (rect_height c\<^sub>1) 2);
         start = length (messages app) - inner_height;
         cursor_x = rect_x c\<^sub>2 + 1 + 2 + of_nat (length (input app));
         max_x = rect_x c\<^sub>2 + saturating_sub (rect_width c\<^sub>2) 2 in
     \<lparr>status_line = ascii '' me: '' @ app_short_id app @ ascii ''   peer: '' @ peer_label @ ascii ''   transport: '' @
        ascii transport_label,
      shown = drop start (messages app), input_line = ascii ''> '' @ input app,
      cursor = (min cursor_x max_x, rect_y c\<^sub>2 + 1)\<rparr>)"

text \<open>The terminal: the chunks the layout gives for its size, and showing a frame.\<close>

record 's Terminal =
  layout_chunks :: "'s \<Rightarrow> Rect \<times> Rect \<times> Rect"
  show_frame :: "Screen \<Rightarrow> 's \<Rightarrow> (string + unit) \<times> 's"

definition terminal_draw :: "'s Terminal \<Rightarrow> (string + unit, App \<times> 's) future" where
  "terminal_draw term = (\<lambda>(app, s).
     let (r, s') = show_frame term (draw (layout_chunks term s) app) s in (Ready r, (app, s')))"

section \<open>The event loop\<close>

datatype KeyCode = CharKey rchar | EnterKey | EscKey | BackspaceKey | OtherKey

datatype KeyEventKind = Press | Repeat | Release

record KeyEvent =
  key_code :: KeyCode
  key_control :: bool
  key_kind :: KeyEventKind

text \<open>
  What \<open>select!\<close> takes next: a key, any other result of the stream of keys, the next of the
  node's events or its end, the next message from the handler or its end.
\<close>

datatype AppEvent =
    Key KeyEvent
  | NoKey
  | NodeEvent "TransportEvent option"
  | Message "(PeerId \<times> bytes) option"

text \<open>How a turn ends: the loop goes on, the function returns, the program panics.\<close>

datatype turn = GoOn | Return "string + unit" | Crash

definition submit ::
  "('e, 'h, 't, 'w NodeState) Env \<Rightarrow> NodeCore \<Rightarrow> 'w NodeState Terminal \<Rightarrow> (PeerId \<Rightarrow> bytes) \<Rightarrow> PeerId \<Rightarrow>
     (turn, App \<times> 'w NodeState) future" where
  "submit env nd term b58 p = (\<lambda>(app, s).
     let text = input app; app' = push_line (ascii ''me: '' @ text) (app\<lparr>input := []\<rparr>) in
     await (terminal_draw term) (\<lambda>r.
       case r of
         Inl e \<Rightarrow> ready (Return (Inl e))
       | Inr _ \<Rightarrow>
           await (on_snd (node_send env nd p text)) (\<lambda>r.
             case r of
               Inr _ \<Rightarrow> ready GoOn
             | Inl e \<Rightarrow> update (\<lambda>(app, s). (GoOn, (push_line (ascii ''[error] '' @ show_error b58 e) app, s))))) (app', s))"

definition on_key ::
  "('e, 'h, 't, 'w NodeState) Env \<Rightarrow> NodeCore \<Rightarrow> 'w NodeState Terminal \<Rightarrow> (PeerId \<Rightarrow> bytes) \<Rightarrow> KeyEvent \<Rightarrow>
     (turn, App \<times> 'w NodeState) future" where
  "on_key env nd term b58 key = (\<lambda>(app, s).
     if key_kind key \<noteq> Press then (Ready GoOn, (app, s))
     else case key_code key of
       CharKey c \<Rightarrow>
         if char_code c = 99 \<and> key_control key then (Ready (Return (Inr ())), (app, s))
         else (Ready GoOn, (app\<lparr>input := input app @ encode_utf8 c\<rparr>, s))
     | EscKey \<Rightarrow> (Ready (Return (Inr ())), (app, s))
     | EnterKey \<Rightarrow>
         if input app = [] then (Ready GoOn, (app, s))
         else (case app_peer_id app of
                 None \<Rightarrow> (Ready GoOn, (app, s))
               | Some p \<Rightarrow> submit env nd term b58 p (app, s))
     | BackspaceKey \<Rightarrow> (Ready GoOn, (app\<lparr>input := str_pop (input app)\<rparr>, s))
     | OtherKey \<Rightarrow> (Ready GoOn, (app, s)))"

definition on_node_event :: "(PeerId \<Rightarrow> bytes) \<Rightarrow> TransportEvent option \<Rightarrow> App \<Rightarrow> turn \<times> App" where
  "on_node_event b58 ev app =
     (case ev of
        Some (MessageDelivered _ k) \<Rightarrow> (GoOn, app\<lparr>transport_name := Some (transport_kind_name k)\<rparr>)
      | Some (PeerConnected p) \<Rightarrow>
          (case short_base58 b58 p of
             Panic \<Rightarrow> (Crash, app)
           | Done short \<Rightarrow>
               (GoOn, (push_line (ascii ''[connected] peer: '' @ short) app)
                  \<lparr>peer_short_id := Some short, app_peer_id := Some p\<rparr>))
      | Some (PeerDisconnected p) \<Rightarrow>
          (case short_base58 b58 p of
             Panic \<Rightarrow> (Crash, app)
           | Done short \<Rightarrow> (GoOn, push_line (ascii ''[disconnected] peer: '' @ short) app))
      | _ \<Rightarrow> (GoOn, app))"

definition on_chat_message :: "(PeerId \<Rightarrow> bytes) \<Rightarrow> (PeerId \<times> bytes) option \<Rightarrow> App \<Rightarrow> turn \<times> App" where
  "on_chat_message b58 msg app =
     (case msg of
        None \<Rightarrow> (GoOn, app)
      | Some (p, payload) \<Rightarrow>
          (case short_base58 b58 p of
             Panic \<Rightarrow> (Crash, app)
           | Done short \<Rightarrow> (GoOn, push_line (short @ ascii '': '' @ lossy payload) app)))"

definition on_app_event ::
  "('e, 'h, 't, 'w NodeState) Env \<Rightarrow> NodeCore \<Rightarrow> 'w NodeState Terminal \<Rightarrow> (PeerId \<Rightarrow> bytes) \<Rightarrow> AppEvent \<Rightarrow>
     (turn, App \<times> 'w NodeState) future" where
  "on_app_event env nd term b58 ev =
     (case ev of
        Key key \<Rightarrow> on_key env nd term b58 key
      | NoKey \<Rightarrow> ready GoOn
      | NodeEvent e \<Rightarrow> update (\<lambda>(app, s). let (t, app') = on_node_event b58 e app in (t, (app', s)))
      | Message m \<Rightarrow> update (\<lambda>(app, s). let (t, app') = on_chat_message b58 m app in (t, (app', s))))"

text \<open>The loop, over the events in the order it takes them; \<open>None\<close> is a panic.\<close>

fun run_app ::
  "('e, 'h, 't, 'w NodeState) Env \<Rightarrow> NodeCore \<Rightarrow> 'w NodeState Terminal \<Rightarrow> (PeerId \<Rightarrow> bytes) \<Rightarrow> AppEvent list \<Rightarrow>
     ((string + unit) option, App \<times> 'w NodeState) future" where
  "run_app env nd term b58 [] st = (Pending, st)"
| "run_app env nd term b58 (ev # evs) st =
     await (terminal_draw term) (\<lambda>r.
       case r of
         Inl e \<Rightarrow> ready (Some (Inl e))
       | Inr _ \<Rightarrow>
           await (on_app_event env nd term b58 ev) (\<lambda>t.
             case t of
               GoOn \<Rightarrow> run_app env nd term b58 evs
             | Return r \<Rightarrow> ready (Some r)
             | Crash \<Rightarrow> ready None)) st"

section \<open>The program\<close>

definition default_config :: NodeConfig where
  "default_config =
     \<lparr>listen_port = None, cfg_store_ttl = None, cfg_max_queue_depth = None, max_key_registry_size = None\<rparr>"

definition chat_listen_addr :: "u16 \<Rightarrow> SocketAddr panicking" where
  "chat_listen_addr port =
     (case parse_socket_addr (ascii ''0.0.0.0:'' @ show_nat (unat port)) of Some a \<Rightarrow> Done a | None \<Rightarrow> Panic)"

text \<open>
  Up to the terminal: the process exits with a code, panics, or has a node and an application
  to run.  Transport 0 is QUIC on the listen address, transport 1 is BLE.
\<close>

datatype chat_start = ExitCode nat | StartPanic | Started App

definition chat_main ::
  "(bytes \<Rightarrow> bytes32) \<Rightarrow> (SocketAddr \<Rightarrow> ('e, 'h, 't, 'w NodeState) Env) \<Rightarrow> (PeerId \<Rightarrow> bytes) \<Rightarrow> Args \<Rightarrow> bytes \<times> bytes \<Rightarrow> 'w \<Rightarrow>
     (chat_start poll \<times> 'w NodeState) \<times> NodeCore" where
  "chat_main blake3 env b58 args keypair w =
     (let ident = generate blake3 keypair;
          (nd, s\<^sub>0) = node_new default_config ident w;
          s\<^sub>1 = on_message (fst (register_transport 1 (fst (register_transport 0 s\<^sub>0)))) in
      (case (short_base58 b58 (peer_id ident), chat_listen_addr (port_arg args)) of
         (Done local_id, Done addr) \<Rightarrow>
           await (case peer_arg args of
                    None \<Rightarrow> ready (Inr None)
                  | Some a \<Rightarrow> await (node_connect (env addr) nd \<lparr>address = Quic a, short_id = None\<rparr>) (\<lambda>r.
                      ready (map_sum id Some r))) (\<lambda>r.
             ready (case r of
                 Inl _ \<Rightarrow> ExitCode 1
               | Inr peer \<Rightarrow> (case app_new b58 local_id peer of Panic \<Rightarrow> StartPanic | Done app \<Rightarrow> Started app))) s\<^sub>1
       | _ \<Rightarrow> (Ready StartPanic, s\<^sub>0), nd))"

section \<open>Short ids and the listen address\<close>

text \<open>
  What is documented of base58: the 32 bytes of an id become at least as many characters of an
  alphabet that is part of ASCII.
\<close>

definition base58_ok :: "(PeerId \<Rightarrow> bytes) \<Rightarrow> bool" where
  "base58_ok b58 \<longleftrightarrow> (\<forall>p. 32 \<le> length (b58 p) \<and> (\<forall>b \<in> set (b58 p). b < 0x80))"

lemma short_base58_ok:
  assumes "base58_ok b58"
  shows "short_base58 b58 p = Done (take 8 (b58 p))" "utf8_valid (take 8 (b58 p))"
proof -
  have p: "\<forall>b \<in> set (b58 p). b < 0x80" "8 \<le> length (b58 p)"
    using assms by (auto simp: base58_ok_def intro: order_trans [of 8 32])
  have "is_char_boundary (b58 p) 0" "is_char_boundary (b58 p) 8"
    using ascii_boundary [OF p(1)] p(2) by simp_all
  then show "short_base58 b58 p = Done (take 8 (b58 p))"
    by (simp add: short_base58_def str_slice_def)
  show "utf8_valid (take 8 (b58 p))"
    using p(1) by (intro utf8_valid_ascii) (meson in_set_takeD)
qed

lemma chat_listen_addr_parses: "chat_listen_addr port = Done (V4 (fill_array 0) port)"
proof -
  have "show_ipv4 (fill_array 0) @ 58 # s = ascii ''0.0.0.0:'' @ s" for s
    by (simp add: show_ipv4_def eval_nat_numeral show_nat_def dec_digits.simps ascii_def)
  with parse_show_socket_addr [of "fill_array 0" port] show ?thesis by (simp add: chat_listen_addr_def)
qed

section \<open>Turns of the loop\<close>

text \<open>A terminal that works; it is no part of the node.\<close>

definition terminal_ok :: "'s Terminal \<Rightarrow> bool" where
  "terminal_ok term \<longleftrightarrow> (\<forall>screen s. show_frame term screen s = (Inr (), s))"

lemma terminal_draw_ok: "terminal_ok term \<Longrightarrow> terminal_draw term (app, s) = (Ready (Inr ()), (app, s))"
  by (simp add: terminal_draw_def terminal_ok_def)

lemma run_app_turn:
  assumes "terminal_ok term" "on_app_event env nd term b58 ev (app, s) = (Ready GoOn, st)"
  shows "run_app env nd term b58 (ev # evs) (app, s) = run_app env nd term b58 evs st"
  using assms by (simp add: await_def terminal_draw_ok)

declare run_app.simps(2) [simp del]

lemma submit_ok:
  assumes "terminal_ok term"
  shows "submit env nd term b58 p (app, s) =
    (let app' = push_line (ascii ''me: '' @ input app) (app\<lparr>input := []\<rparr>) in
     case node_send env nd p (input app) s of
       (Ready (Inr _), s') \<Rightarrow> (Ready GoOn, (app', s'))
     | (Ready (Inl e), s') \<Rightarrow> (Ready GoOn, (push_line (ascii ''[error] '' @ show_error b58 e) app', s'))
     | (Pending, s') \<Rightarrow> (Pending, (app', s')))"
  by (auto simp: submit_def await_def terminal_draw_ok [OF assms] Let_def ready_def update_def
      split: prod.splits poll.splits sum.splits)

definition keystroke :: "KeyCode \<Rightarrow> AppEvent" where
  "keystroke code = Key \<lparr>key_code = code, key_control = False, key_kind = Press\<rparr>"

text \<open>What editing keys make of the characters typed so far.\<close>

fun edit :: "KeyCode \<Rightarrow> rchar list \<Rightarrow> rchar list" where
  "edit (CharKey c) cs = cs @ [c]"
| "edit BackspaceKey cs = butlast cs"
| "edit _ cs = cs"

definition edits :: "KeyCode \<Rightarrow> bool" where
  "edits code \<longleftrightarrow> code \<noteq> EnterKey \<and> code \<noteq> EscKey"

lemma on_edit:
  assumes "edits code" "input app = encode_str cs"
  shows "on_app_event env nd term b58 (keystroke code) (app, s) =
    (Ready GoOn, (app\<lparr>input := encode_str (edit code cs)\<rparr>, s))"
  using assms
  by (cases code) (simp_all add: on_app_event_def on_key_def keystroke_def edits_def str_pop_encode_str)

lemma run_typing:
  assumes "terminal_ok term" "list_all edits codes" "input app = encode_str cs"
  shows "run_app env nd term b58 (map keystroke codes @ evs) (app, s) =
    run_app env nd term b58 evs (app\<lparr>input := encode_str (fold edit codes cs)\<rparr>, s)"
  using assms(2,3)
proof (induction codes arbitrary: app cs)
  case Nil
  then have "app\<lparr>input := encode_str cs\<rparr> = app" by simp
  then show ?case by simp
next
  case (Cons code codes)
  let ?app = "app\<lparr>input := encode_str (edit code cs)\<rparr>"
  have "run_app env nd term b58 (map keystroke (code # codes) @ evs) (app, s) =
      run_app env nd term b58 (map keystroke codes @ evs) (?app, s)"
    using run_app_turn [OF assms(1) on_edit [of code app cs]] Cons.prems by simp
  also have "\<dots> = run_app env nd term b58 evs (?app\<lparr>input := encode_str (fold edit codes (edit code cs))\<rparr>, s)"
    using Cons.prems by (intro Cons.IH) simp_all
  finally show ?case by simp
qed

section \<open>Text on the screen\<close>

definition app_typed :: "App \<Rightarrow> bool" where
  "app_typed app \<longleftrightarrow> list_all utf8_valid (messages app) \<and> input app \<in> range encode_str"

lemma app_typed_push: "app_typed app \<Longrightarrow> utf8_valid l \<Longrightarrow> app_typed (push_line l app)"
  by (simp add: app_typed_def push_line_def)

lemma utf8_valid_text: "utf8_valid (ascii m) \<Longrightarrow> utf8_valid s \<Longrightarrow> utf8_valid (ascii m @ s)"
  by (simp add: utf8_valid_append)

lemma app_typed_input: "app_typed app \<Longrightarrow> utf8_valid (input app)"
  by (auto simp: app_typed_def)

text \<open>The texts of the errors a node reports are strings.\<close>

definition errors_are_text :: "('e, 'h, 't, 'w NodeState) Env \<Rightarrow> NodeCore \<Rightarrow> (PeerId \<Rightarrow> bytes) \<Rightarrow> bool" where
  "errors_are_text env nd b58 \<longleftrightarrow>
     (\<forall>p text s e s'. node_send env nd p text s = (Ready (Inl e), s') \<longrightarrow> utf8_valid (show_error b58 e))"

lemma ascii_labels [simp]:
  "utf8_valid (ascii ''me: '')" "utf8_valid (ascii ''[error] '')" "utf8_valid (ascii ''[connected] peer: '')"
  "utf8_valid (ascii ''[disconnected] peer: '')" "utf8_valid (ascii '': '')"
  by (simp_all add: ascii_def)

lemma app_typed_submit:
  assumes "terminal_ok term" "errors_are_text env nd b58" "app_typed app"
    and "submit env nd term b58 p (app, s) = (r, (app', s'))"
  shows "app_typed app' \<and> r \<noteq> Ready Crash"
proof -
  let ?app = "push_line (ascii ''me: '' @ input app) (app\<lparr>input := []\<rparr>)"
  have "app_typed (app\<lparr>input := []\<rparr>)"
    using assms(3) by (auto simp: app_typed_def image_iff intro: exI [of _ "[]"])
  then have "app_typed ?app"
    using app_typed_input [OF assms(3)] by (intro app_typed_push utf8_valid_text) simp_all
  moreover have "utf8_valid (ascii ''[error] '' @ show_error b58 e)"
    if "node_send env nd p (input app) s = (Ready (Inl e), t)" for e t
    using assms(2) that unfolding errors_are_text_def by (intro utf8_valid_text) (simp, blast)
  ultimately show ?thesis
    using assms(4) unfolding submit_ok [OF assms(1)]
    by (auto simp: Let_def intro: app_typed_push split: prod.splits poll.splits sum.splits)
qed

lemma app_typed_event:
  assumes "terminal_ok term" "errors_are_text env nd b58" "base58_ok b58" "app_typed app"
    and "on_app_event env nd term b58 ev (app, s) = (r, (app', s'))"
  shows "app_typed app' \<and> r \<noteq> Ready Crash"
proof (cases ev)
  case (Key key)
  have type: "app_typed (app\<lparr>input := input app @ encode_utf8 c\<rparr>)" "app_typed (app\<lparr>input := str_pop (input app)\<rparr>)" for c
    using assms(4) by (auto simp: app_typed_def str_pop_encode_str simp flip: encode_str_simps(2))
  show ?thesis
    using assms(4,5) Key type app_typed_submit [OF assms(1,2,4)]
    by (auto simp: on_app_event_def on_key_def split: if_splits KeyCode.splits option.splits)
next
  case (NodeEvent e)
  then have "app' = snd (on_node_event b58 e app)" "r = Ready (fst (on_node_event b58 e app))"
    using assms(5) by (auto simp: on_app_event_def update_def case_prod_beta)
  moreover have "app_typed (snd (on_node_event b58 e app)) \<and> fst (on_node_event b58 e app) \<noteq> Crash"
    using assms(4) short_base58_ok [OF assms(3)]
    by (auto simp: on_node_event_def app_typed_def push_line_def utf8_valid_text split: option.splits TransportEvent.splits)
  ultimately show ?thesis by simp
next
  case (Message m)
  then have "app' = snd (on_chat_message b58 m app)" "r = Ready (fst (on_chat_message b58 m app))"
    using assms(5) by (auto simp: on_app_event_def update_def case_prod_beta)
  moreover have "app_typed (snd (on_chat_message b58 m app)) \<and> fst (on_chat_message b58 m app) \<noteq> Crash"
    using assms(4) short_base58_ok [OF assms(3)]
    by (auto simp: on_chat_message_def app_typed_def push_line_def utf8_valid_append utf8_valid_lossy split: option.splits)
  ultimately show ?thesis by simp
qed (use assms in \<open>auto simp: on_app_event_def ready_def\<close>)

lemma app_typed_run:
  assumes "terminal_ok term" "errors_are_text env nd b58" "base58_ok b58"
  shows "app_typed app \<Longrightarrow> run_app env nd term b58 evs (app, s) = (r, (app', s')) \<Longrightarrow> app_typed app' \<and> r \<noteq> Ready None"
proof (induction evs arbitrary: app s)
  case (Cons ev evs)
  obtain t app'' s'' where ev: "on_app_event env nd term b58 ev (app, s) = (t, (app'', s''))"
    by (cases "on_app_event env nd term b58 ev (app, s)") auto
  note typed = app_typed_event [OF assms Cons.prems(1) ev]
  have run: "(case t of Ready GoOn \<Rightarrow> run_app env nd term b58 evs (app'', s'') | Ready (Return q) \<Rightarrow> (Ready (Some q), (app'', s''))
      | Ready Crash \<Rightarrow> (Ready None, (app'', s'')) | Pending \<Rightarrow> (Pending, (app'', s''))) = (r, (app', s'))"
    using Cons.prems(2) ev by (simp add: run_app.simps(2) await_def terminal_draw_ok [OF assms(1)] ready_def split: poll.splits turn.splits)
  show ?case
    using run typed Cons.IH by (auto split: poll.splits turn.splits)
qed simp

section \<open>A chat on scripted connections\<close>

definition chat_ann :: PeerAnnouncement where
  "chat_ann = \<lparr>address = Quic (V4 (fill_array 1) 9000), short_id = None\<rparr>"

definition chat_state :: "bytes list NodeState" where
  "chat_state = (script_state [raw_bundle (bytes_of (fill_array 2 :: bytes32)), raw_message [], raw_message []])
     \<lparr>peers := [(PeerId (fill_array 2), [chat_ann])]\<rparr>"

lemma chat_state_sends:
  assumes "length payload \<le> 800"
  shows "\<exists>s'. node_send script_env script_node (PeerId (fill_array 2)) payload chat_state = (Ready (Inr ()), s')"
proof -
  have "matching script_env [chat_ann] chat_state = [(0, chat_ann)]" "any_available chat_state"
    by (simp_all add: matching_def script_state_def chat_state_def chat_ann_def any_available_def)
  moreover have "getrandom (runtime script_env) chat_state = (fill_array 0, chat_state)"
    by (simp add: script_env_def)
  moreover have "\<exists>lk s'. try_send script_env 0 chat_ann (identity script_node) (0 # payload) mid p chat_state = (Ready (Inr lk), s')" for mid p
    using script_try_send [of chat_state "fill_array 2" "[]" "[]" "identity script_node" "0 # payload"] assms
    by (simp add: chat_state_def script_state_def decode_addr_exchange_def script_node_def plain_identity_def generate_def)
  then obtain lk s' where "try_send script_env 0 chat_ann (identity script_node) (0 # payload)
      (new_message_id (fill_array 0)) (PeerId (fill_array 2)) chat_state = (Ready (Inr lk), s')" by blast
  moreover have "hm_get (peers chat_state) (PeerId (fill_array 2)) = Some [chat_ann]"
    by (simp add: chat_state_def)
  ultimately show ?thesis
    by (simp add: node_send_def router_send_def MAX_SEND_ATTEMPTS_def numeral_3_eq_3 sort_candidates_def await_def)
qed

definition blank_terminal :: "'s Terminal" where
  "blank_terminal = \<lparr>layout_chunks = (\<lambda>_. let r = \<lparr>rect_x = 0, rect_y = 0, rect_width = 80, rect_height = 10\<rparr> in (r, r, r)),
     show_frame = (\<lambda>_ s. (Inr (), s))\<rparr>"

definition id_base58 :: "PeerId \<Rightarrow> bytes" where
  "id_base58 = (\<lambda>PeerId key \<Rightarrow> replicate 32 (0x31 + bytes_of key ! 0 mod 8))"

definition blank_app :: App where
  "blank_app = \<lparr>messages = [], input = [], app_peer_id = Some (PeerId (fill_array 2)), peer_short_id = None,
     transport_name = None, app_short_id = []\<rparr>"

lemma blank_terminal_ok: "terminal_ok blank_terminal"
  by (simp add: terminal_ok_def blank_terminal_def)

lemma id_base58_ok: "base58_ok id_base58"
proof -
  have "0x31 + w mod 8 < 0x80" for w :: u8
  proof -
    have "unat (w mod 8) < 8" by (simp add: unat_mod)
    then show ?thesis by (simp add: word_less_nat_alt unat_word_ariths)
  qed
  then show ?thesis by (auto simp: base58_ok_def id_base58_def split: PeerId.splits)
qed

section \<open>Properties\<close>



text \<open>
  The peer that connected last gets the message.  When a peer connects while something is
  typed, the line goes to that peer, whoever it was typed for: the connection replaces the
  addressee, and nothing keeps the text from being sent.
\<close>

theorem connected_peer_takes_over:
  assumes "terminal_ok term" "base58_ok b58" "input app \<noteq> []" "node_send env nd q (input app) s = (Ready (Inr ()), s')"
  shows "run_app env nd term b58 [NodeEvent (Some (PeerConnected q)), keystroke EnterKey] (app, s) =
    (Pending, (app\<lparr>messages := messages app @ [ascii ''[connected] peer: '' @ take 8 (b58 q), ascii ''me: '' @ input app],
        input := [], app_peer_id := Some q, peer_short_id := Some (take 8 (b58 q))\<rparr>, s'))"
proof -
  let ?app = "(push_line (ascii ''[connected] peer: '' @ take 8 (b58 q)) app)\<lparr>peer_short_id := Some (take 8 (b58 q)), app_peer_id := Some q\<rparr>"
  have "on_app_event env nd term b58 (NodeEvent (Some (PeerConnected q))) (app, s) = (Ready GoOn, (?app, s))"
    by (simp add: on_app_event_def on_node_event_def update_def short_base58_ok [OF assms(2)])
  moreover have "on_app_event env nd term b58 (keystroke EnterKey) (?app, s) = submit env nd term b58 q (?app, s)"
    using assms(3) by (simp add: on_app_event_def on_key_def keystroke_def push_line_def)
  then have "on_app_event env nd term b58 (keystroke EnterKey) (?app, s) =
      (Ready GoOn, (push_line (ascii ''me: '' @ input app) (?app\<lparr>input := []\<rparr>), s'))"
    using assms(4) by (simp add: submit_ok [OF assms(1)] Let_def push_line_def)
  ultimately have "run_app env nd term b58 [NodeEvent (Some (PeerConnected q)), keystroke EnterKey] (app, s) =
      (Pending, (push_line (ascii ''me: '' @ input app) (?app\<lparr>input := []\<rparr>), s'))"
    by (simp add: run_app_turn [OF assms(1)])
  then show ?thesis by (cases app) (simp add: push_line_def)
qed

theorem connected_peer_takes_over_witness:
  "\<exists>s'. run_app script_env script_node blank_terminal id_base58
      [NodeEvent (Some (PeerConnected (PeerId (fill_array 2)))), keystroke EnterKey]
      (blank_app\<lparr>input := [104], app_peer_id := Some (PeerId (fill_array 3))\<rparr>, chat_state) =
    (Pending, (blank_app\<lparr>messages := [ascii ''[connected] peer: '' @ take 8 (id_base58 (PeerId (fill_array 2))), ascii ''me: '' @ [104]],
       input := [], app_peer_id := Some (PeerId (fill_array 2)),
       peer_short_id := Some (take 8 (id_base58 (PeerId (fill_array 2))))\<rparr>, s'))"
proof -
  let ?app = "blank_app\<lparr>input := [104], app_peer_id := Some (PeerId (fill_array 3))\<rparr>"
  obtain s' where send: "node_send script_env script_node (PeerId (fill_array 2)) (input ?app) chat_state = (Ready (Inr ()), s')"
    using chat_state_sends [of "[104]"] by auto
  have "input ?app \<noteq> []" by simp
  from connected_peer_takes_over [OF blank_terminal_ok id_base58_ok this send] show ?thesis
    by (auto simp: blank_app_def)
qed

end
