(* ===== verification/Event_Channel.thy ===== *)
theory Event_Channel
  imports Async
begin

text \<open>
  Receiving from a broadcast channel of tokio, as \<open>Router::events\<close>, the event task of a node and
  \<open>discover\<close> of the advertising transport do.  The channel itself is an argument.
\<close>

section \<open>Receiving\<close>

datatype 'a RecvResult = Received 'a | Lagged nat | Closed

text \<open>
  A receiver is a position in what has been sent since the channel was made; receiving depends
  on that and on whether a sender is left.
\<close>

type_synonym 'a receive = "'a list \<Rightarrow> bool \<Rightarrow> ('a RecvResult, nat) future"

text \<open>
  The documented behaviour of a channel that retains \<open>cap\<close> values: a receiver gets them in
  order; one that has fallen behind is told by how many and goes on with the oldest value
  retained; the end is reported when all senders are gone.
\<close>

definition broadcast_ok :: "nat \<Rightarrow> 'a receive \<Rightarrow> bool" where
  "broadcast_ok cap recv \<longleftrightarrow>
     (\<forall>log sender pos. pos \<le> length log \<longrightarrow>
        recv log sender pos =
          (if pos = length log then (if sender then Pending else Ready Closed, pos)
           else if length log - pos \<le> cap then (Ready (Received (log ! pos)), Suc pos)
           else (Ready (Lagged (length log - cap - pos)), length log - cap)))"

lemma broadcast_okD:
  assumes "broadcast_ok cap recv"
  shows "recv log True (length log) = (Pending, length log)"
    and "recv log False (length log) = (Ready Closed, length log)"
    and "pos < length log \<Longrightarrow> length log - pos \<le> cap \<Longrightarrow> recv log b pos = (Ready (Received (log ! pos)), Suc pos)"
    and "pos < length log \<Longrightarrow> cap < length log - pos \<Longrightarrow>
      recv log b pos = (Ready (Lagged (length log - cap - pos)), length log - cap)"
  using assms by (auto simp: broadcast_ok_def)

text \<open>
  The next value of the stream: the loop of \<open>Router::events\<close> and of \<open>discover\<close>, for \<open>k\<close> receptions.
\<close>

fun next_event :: "nat \<Rightarrow> 'a receive \<Rightarrow> 'a list \<Rightarrow> bool \<Rightarrow> ('a option, nat) future" where
  "next_event 0 recv log sender pos = (Pending, pos)"
| "next_event (Suc k) recv log sender pos =
     await (recv log sender) (\<lambda>r.
       case r of
         Received event \<Rightarrow> ready (Some event)
       | Lagged _ \<Rightarrow> next_event k recv log sender
       | Closed \<Rightarrow> ready None) pos"

section \<open>Two receptions are enough\<close>

text \<open>
  The stream yields the oldest value that is retained and was not yet yielded; what lies
  before it is lost without a trace.
\<close>

lemma next_event_yields:
  assumes ok: "broadcast_ok cap recv" "0 < cap" and pos: "pos < length log" and k: "2 \<le> k"
  shows "next_event k recv log sender pos =
    (Ready (Some (log ! max pos (length log - cap))), Suc (max pos (length log - cap)))"
proof -
  obtain j where j: "k = Suc (Suc j)" using k by (metis Suc_le_D numeral_2_eq_2 Suc_le_mono)
  show ?thesis
  proof (cases "length log - pos \<le> cap")
    case True
    then have "max pos (length log - cap) = pos" by simp
    with True pos show ?thesis by (simp add: j await_def ready_def broadcast_okD(3) [OF ok(1)])
  next
    case False
    then have "max pos (length log - cap) = length log - cap" "length log - cap < length log"
      "length log - (length log - cap) \<le> cap" using ok(2) pos by auto
    with False pos show ?thesis
      by (simp add: j await_def ready_def broadcast_okD(3,4) [OF ok(1)])
  qed
qed

lemma next_event_waits_or_ends:
  assumes "broadcast_ok cap recv" "0 < k"
  shows "next_event k recv log sender (length log) = (if sender then Pending else Ready None, length log)"
  using assms(2) by (cases k) (simp_all add: await_def ready_def broadcast_okD(1,2) [OF assms(1)])

text \<open>A receiver that is never more than \<open>cap\<close> values behind gets all of them, in order.\<close>

fun next_events :: "nat \<Rightarrow> 'a receive \<Rightarrow> 'a list \<Rightarrow> nat \<Rightarrow> 'a list" where
  "next_events 0 recv log pos = []"
| "next_events (Suc n) recv log pos =
     (case next_event 2 recv log True pos of
        (Ready (Some event), pos') \<Rightarrow> event # next_events n recv log pos'
      | _ \<Rightarrow> [])"

lemma next_events_all:
  assumes ok: "broadcast_ok cap recv" "0 < cap"
  shows "pos \<le> length log \<Longrightarrow> length log - pos \<le> cap \<Longrightarrow> length log - pos \<le> n \<Longrightarrow> next_events n recv log pos = drop pos log"
proof (induction n arbitrary: pos)
  case (Suc n)
  show ?case
  proof (cases "pos < length log")
    case True
    then have "max pos (length log - cap) = pos" using Suc.prems by simp
    with True Suc next_event_yields [OF ok True order_refl, of True] show ?thesis
      by (simp add: Cons_nth_drop_Suc)
  qed (use Suc.prems next_event_waits_or_ends [OF ok(1), of 2 log True] in simp)
qed simp

end
