(* ===== verification/Event_Watcher.thy ===== *)
theory Event_Watcher
  imports Node_Runs Event_Channel
begin

text \<open>
  The task that \<open>PathweaveNode::new\<close> spawns to act on the events of its own router, beside
  everything else a node does.
\<close>

section \<open>The task\<close>

definition EVENT_CAPACITY :: nat where
  "EVENT_CAPACITY = 64"

text \<open>\<open>Router::events\<close>, for a caller that holds the router: a stream of what is fired from then on.\<close>

definition router_events :: "nat \<Rightarrow> TransportEvent receive \<Rightarrow> 'w NodeState \<Rightarrow> (TransportEvent option, nat) future" where
  "router_events k recv s = next_event k recv (event_log s) True"

lemma fired_event_is_seen:
  assumes "broadcast_ok EVENT_CAPACITY recv" "2 \<le> k"
  shows "router_events k recv (emit e s) (length (event_log s)) = (Ready (Some e), Suc (length (event_log s)))"
  using next_event_yields [OF assms(1) _ _ assms(2), of "length (event_log s)" "event_log (emit e s)" True]
  by (simp add: router_events_def emit_def EVENT_CAPACITY_def)

text \<open>The task holds the router, which has a sender, and a sender of its own.\<close>

definition captured_senders :: nat where
  "captured_senders = 2"

text \<open>
  One turn of the task's loop: whether it goes on.  \<open>others\<close> is the number of senders outside
  the task.
\<close>

definition watch_turn ::
  "TransportEvent receive \<Rightarrow> ('e, 'h, 't, 'w NodeState) Env \<Rightarrow> NodeCore \<Rightarrow> nat \<Rightarrow>
     (bool, nat \<times> 'w NodeState) future" where
  "watch_turn recv env nd others = (\<lambda>(pos, s).
     case recv (event_log s) (0 < others + captured_senders) pos of
       (Ready (Received ev), pos') \<Rightarrow>
         (case on_event env nd ev s of (Ready _, s') \<Rightarrow> (Ready True, (pos', s')) | (Pending, s') \<Rightarrow> (Pending, (pos', s')))
     | (Ready Closed, pos') \<Rightarrow> (Ready False, (pos', s))
     | (Ready (Lagged _), pos') \<Rightarrow> (Ready True, (pos', s))
     | (Pending, pos') \<Rightarrow> (Pending, (pos', s)))"

text \<open>
  A node with its event task: the task's position in the log, the state, the events it has
  acted on and the positions it has skipped.
\<close>

inductive watched ::
  "TransportEvent receive \<Rightarrow> ('e, 'h, 't, 'w NodeState) Env \<Rightarrow> ('w NodeState \<Rightarrow> string + Interface list) \<Rightarrow> NodeCore \<Rightarrow>
     nat \<Rightarrow> 'w NodeState \<Rightarrow> TransportEvent list \<Rightarrow> nat set \<Rightarrow> bool"
  for recv env ifs nd where
  new: "node_new config (identity nd) w = (nd, s) \<Longrightarrow> watched recv env ifs nd 0 s [] {}"
| other: "watched recv env ifs nd pos s acted skipped \<Longrightarrow> node_step env ifs nd s s' \<Longrightarrow>
    watched recv env ifs nd pos s' acted skipped"
| act: "watched recv env ifs nd pos s acted skipped \<Longrightarrow>
    recv (event_log s) True pos = (Ready (Received ev), pos') \<Longrightarrow>
    watch_turn recv env nd others (pos, s) = (Ready True, (pos', s')) \<Longrightarrow>
    watched recv env ifs nd pos' s' (acted @ [ev]) skipped"
| lag: "watched recv env ifs nd pos s acted skipped \<Longrightarrow>
    recv (event_log s) True pos = (Ready (Lagged n), pos') \<Longrightarrow>
    watch_turn recv env nd others (pos, s) = (Ready True, (pos', s')) \<Longrightarrow>
    watched recv env ifs nd pos' s' acted (skipped \<union> {pos..<pos'})"

text \<open>The comment says that the task exits when the channel closes; the channel cannot close before it.\<close>

lemma watcher_never_exits:
  assumes "broadcast_ok cap recv" "pos \<le> length (event_log s)"
  shows "fst (watch_turn recv env nd others (pos, s)) \<noteq> Ready False"
  using assms
  by (auto simp: watch_turn_def captured_senders_def broadcast_ok_def split: poll.splits prod.splits)

lemma watch_turn_act:
  assumes "recv (event_log s) True pos = (Ready (Received ev), pos')"
    and "watch_turn recv env nd others (pos, s) = (Ready True, (pos', s'))"
  shows "\<exists>u. on_event env nd ev s = (Ready u, s')"
  using assms by (auto simp: watch_turn_def captured_senders_def split: poll.splits prod.splits)

lemma watch_turn_lag:
  assumes "recv (event_log s) True pos = (Ready (Lagged n), pos')"
    and "watch_turn recv env nd others (pos, s) = (Ready True, (pos', s'))"
  shows "s' = s"
  using assms by (auto simp: watch_turn_def captured_senders_def)

text \<open>What the task does is among the steps of the node.\<close>

lemma watched_reachable: "watched recv env ifs nd pos s acted skipped \<Longrightarrow> reachable env ifs nd s"
proof (induction rule: watched.induct)
  case (act pos s acted skipped ev pos' others s')
  then show ?case by (meson reachable.step node_step.event watch_turn_act)
next
  case (lag pos s acted skipped n pos' others s')
  then show ?case using watch_turn_lag by metis
qed (auto intro: reachable.intros)

section \<open>What it acts on\<close>

lemma node_step_logs:
  assumes "logs env" "node_step env ifs nd s s'"
  shows "prefix (event_log s) (event_log s')"
  using event_history.inv_step [OF spec [OF assms(1)] refl assms(2), of "event_log s"] by simp

lemma nths_take_grow:
  assumes "pos \<le> length xs" "prefix xs ys"
  shows "take pos ys = take pos xs"
  using assms by (auto simp: prefix_def)

lemma nths_skip:
  assumes "pos \<le> pos'" "pos' \<le> length xs" "A \<subseteq> {..<pos}"
  shows "nths (take pos' xs) (- (A \<union> {pos..<pos'})) = nths (take pos xs) (- A)"
proof -
  have "take pos' xs = take pos xs @ take (pos' - pos) (drop pos xs)"
    using assms(1) by (metis le_add_diff_inverse take_add)
  moreover have "nths (take pos xs) (- (A \<union> {pos..<pos'})) = nths (take pos xs) (- A)"
    using assms(1,2) by (auto simp: nths_def intro!: arg_cong [where f = "map fst"] filter_cong dest: set_zip_rightD)
  moreover have "nths (take (pos' - pos) (drop pos xs)) {j. j + length (take pos xs) \<in> - (A \<union> {pos..<pos'})} = []"
    using assms by (auto simp: nths_empty nths_def filter_empty_conv dest!: set_zip_rightD)
  ultimately show ?thesis by (simp add: nths_append)
qed

lemma nths_act:
  assumes "pos < length xs" "A \<subseteq> {..<pos}"
  shows "nths (take (Suc pos) xs) (- A) = nths (take pos xs) (- A) @ [xs ! pos]"
  using assms by (auto simp: take_Suc_conv_app_nth nths_append nths_singleton)

definition watch_inv :: "'w NodeState \<Rightarrow> nat \<Rightarrow> TransportEvent list \<Rightarrow> nat set \<Rightarrow> bool" where
  "watch_inv s pos acted skipped \<longleftrightarrow>
     pos \<le> length (event_log s) \<and> skipped \<subseteq> {..<pos} \<and> acted = nths (take pos (event_log s)) (- skipped)"

lemma watch_inv_grow:
  assumes "watch_inv s pos acted skipped" "prefix (event_log s) (event_log s')"
  shows "watch_inv s' pos acted skipped"
  using assms nths_take_grow [of pos "event_log s" "event_log s'"] prefix_length_le [OF assms(2)]
  by (auto simp: watch_inv_def)

lemma watched_inv:
  assumes ok: "broadcast_ok cap recv" "logs env"
  shows "watched recv env ifs nd pos s acted skipped \<Longrightarrow> watch_inv s pos acted skipped"
proof (induction rule: watched.induct)
  case (new config w s)
  then show ?case by (simp add: watch_inv_def)
next
  case (other pos s acted skipped s')
  then show ?case using watch_inv_grow node_step_logs [OF ok(2)] by blast
next
  case (act pos s acted skipped ev pos' others s')
  obtain u where "on_event env nd ev s = (Ready u, s')" using watch_turn_act [OF act.hyps(2,3)] by blast
  then have grow: "prefix (event_log s) (event_log s')" by (meson node_step_logs [OF ok(2)] node_step.event)
  have "pos < length (event_log s)" "pos' = Suc pos" "ev = event_log s ! pos"
    using act.hyps(2) act.IH ok(1) by (auto simp: broadcast_ok_def watch_inv_def split: if_splits)
  with act.IH have "watch_inv s pos' (acted @ [ev]) skipped"
    by (auto simp: watch_inv_def nths_act)
  with grow show ?case by (rule watch_inv_grow [rotated])
next
  case (lag pos s acted skipped n pos' others s')
  have "pos \<le> pos'" "pos' \<le> length (event_log s)"
    using lag.hyps(2) lag.IH ok(1) by (auto simp: broadcast_ok_def watch_inv_def split: if_splits)
  with lag.IH watch_turn_lag [OF lag.hyps(2,3)] nths_skip [of pos pos' "event_log s" skipped] show ?case
    by (auto simp: watch_inv_def)
qed

section \<open>Properties\<close>

text \<open>
  C14: the event task acts on every event once, in the order they were fired, unless it has fallen
  more than 64 events behind.  Whatever else the node does meanwhile, the events it has acted
  on are those of the log up to its position without the skipped ones, and none is skipped
  while the task keeps up: with at most 64 events waiting its next turn acts on the first of
  them.  With more, the next turn forgets all but the last 64 and does nothing for them, so
  that a \<open>PeerConnected\<close> among them drains no queue.
\<close>

theorem events_are_acted_on_in_order:
  assumes ok: "broadcast_ok EVENT_CAPACITY recv" "logs env" and run: "watched recv env ifs nd pos s acted skipped"
  shows "acted = nths (take pos (event_log s)) (- skipped) \<and> skipped \<subseteq> {..<pos} \<and>
    (pos < length (event_log s) \<longrightarrow> length (event_log s) \<le> pos + 64 \<longrightarrow>
       watch_turn recv env nd others (pos, s) =
         (case on_event env nd (event_log s ! pos) s of
            (Ready _, s') \<Rightarrow> (Ready True, (Suc pos, s')) | (Pending, s') \<Rightarrow> (Pending, (Suc pos, s')))) \<and>
    (pos + 64 < length (event_log s) \<longrightarrow>
       watch_turn recv env nd others (pos, s) = (Ready True, (length (event_log s) - 64, s)) \<and>
       watched recv env ifs nd (length (event_log s) - 64) s acted (skipped \<union> {pos..<length (event_log s) - 64}))"
proof -
  have turn: "watch_turn recv env nd others (pos, s) = (Ready True, (length (event_log s) - 64, s))"
    "recv (event_log s) True pos = (Ready (Lagged (length (event_log s) - 64 - pos)), length (event_log s) - 64)"
    if "pos + 64 < length (event_log s)"
    using broadcast_okD(4) [OF ok(1), of pos "event_log s"] that
    by (simp_all add: watch_turn_def captured_senders_def EVENT_CAPACITY_def)
  have "watched recv env ifs nd (length (event_log s) - 64) s acted (skipped \<union> {pos..<length (event_log s) - 64})"
    if "pos + 64 < length (event_log s)"
    using watched.lag [OF run turn(2) turn(1)] that by simp
  moreover have "watch_turn recv env nd others (pos, s) =
      (case on_event env nd (event_log s ! pos) s of
         (Ready _, s') \<Rightarrow> (Ready True, (Suc pos, s')) | (Pending, s') \<Rightarrow> (Pending, (Suc pos, s')))"
    if "pos < length (event_log s)" "length (event_log s) \<le> pos + 64"
    using broadcast_okD(3) [OF ok(1), of pos "event_log s"] that
    by (simp add: watch_turn_def captured_senders_def EVENT_CAPACITY_def)
  ultimately show ?thesis
    using watched_inv [OF ok run] turn(1) by (simp add: watch_inv_def)
qed

text \<open>A channel as documented, and a node that has fired \<open>n\<close> events since its task last ran.\<close>

definition tokio_recv :: "'a receive" where
  "tokio_recv log sender pos =
     (if pos = length log then (if sender then Pending else Ready Closed, pos)
      else if length log - pos \<le> 64 then (Ready (Received (log ! pos)), Suc pos)
      else (Ready (Lagged (length log - 64 - pos)), length log - 64))"

lemma tokio_recv_ok: "broadcast_ok EVENT_CAPACITY tokio_recv"
  by (simp add: broadcast_ok_def tokio_recv_def EVENT_CAPACITY_def)

lemma watched_events:
  "\<exists>s. watched recv script_env (\<lambda>_. Inr []) script_node 0 s [] {} \<and> length (event_log s) = n"
proof (induction n)
  case 0
  let ?config = "\<lparr>listen_port = None, cfg_store_ttl = Some 1000, cfg_max_queue_depth = Some 1, max_key_registry_size = None\<rparr>"
  have "fst (node_new ?config (identity script_node) []) = script_node"
    "event_log (snd (node_new ?config (identity script_node) [])) = []"
    by (simp_all add: node_new_def script_node_def)
  then show ?case by (metis watched.new list.size(3) prod.collapse)
next
  case (Suc n)
  then obtain s where s: "watched recv script_env (\<lambda>_. Inr []) script_node 0 s [] {}" "length (event_log s) = n" by blast
  obtain r s' where init: "monitor_init script_env (\<lambda>_. Inr []) 0 0 (identity script_node) s = (r, s')" by fastforce
  then have "length (event_log s') = Suc n"
    using s(2) by (auto simp: monitor_init_def script_env_def script_transport_def mark_started_def emit_def Let_def
        await_def ready_def modify_def update_def)
  with watched.other [OF s(1) node_step.monitor_start [OF init]] show ?case by blast
qed

theorem events_are_acted_on_in_order_witness:
  "\<exists>s. length (event_log s) = 66 \<and> watched tokio_recv script_env (\<lambda>_. Inr []) script_node 2 s [] {0..<2}"
proof -
  obtain s where s: "watched tokio_recv script_env (\<lambda>_. Inr []) script_node 0 s [] {}" "length (event_log s) = 66"
    using watched_events by blast
  from events_are_acted_on_in_order [OF tokio_recv_ok logs_script_env s(1)] s(2) show ?thesis by auto
qed

end
