(* ===== verification/Network_Cost.thy ===== *)
theory Network_Cost
  imports Health_Monitor
begin

text \<open>
  The detection of the network's cost in \<open>crates/pathweave-transport-quic/src/lib.rs\<close>: the
  route table on Linux, the connection profile on Windows, the active interfaces on macOS.
\<close>

section \<open>Lines and words of a string\<close>

text \<open>
  \<open>str::lines\<close> and \<open>str::split_whitespace\<close> on the UTF-8 bytes.  A white space of Unicode has one
  to three bytes, and its first byte starts a character, so the scan can go byte by byte.
\<close>

definition white_len :: "bytes \<Rightarrow> nat" where
  "white_len bs =
     (case bs of
        [] \<Rightarrow> 0
      | b # cs \<Rightarrow>
          if 9 \<le> b \<and> b \<le> 13 \<or> b = 0x20 then 1
          else case cs of
            [] \<Rightarrow> 0
          | c # ds \<Rightarrow>
              if b = 0xC2 \<and> (c = 0x85 \<or> c = 0xA0) then 2
              else case ds of
                [] \<Rightarrow> 0
              | d # _ \<Rightarrow>
                  if b = 0xE1 \<and> c = 0x9A \<and> d = 0x80
                    \<or> b = 0xE2 \<and> c = 0x80 \<and> (0x80 \<le> d \<and> d \<le> 0x8A \<or> d = 0xA8 \<or> d = 0xA9 \<or> d = 0xAF)
                    \<or> b = 0xE2 \<and> c = 0x81 \<and> d = 0x9F
                    \<or> b = 0xE3 \<and> c = 0x80 \<and> d = 0x80
                  then 3 else 0)"

definition non_empty :: "bytes \<Rightarrow> bytes list" where
  "non_empty w = (if w = [] then [] else [w])"

function split_white :: "bytes \<Rightarrow> bytes \<Rightarrow> bytes list" where
  "split_white w [] = non_empty w"
| "split_white w (b # bs) =
     (let n = white_len (b # bs) in
      if n = 0 then split_white (w @ [b]) bs
      else non_empty w @ split_white [] (drop (n - 1) bs))"
  by pat_completeness auto
termination
  by (relation "measure (length \<circ> snd)") auto

definition split_whitespace :: "bytes \<Rightarrow> bytes list" where
  "split_whitespace = split_white []"

definition strip_cr :: "bytes \<Rightarrow> bytes" where
  "strip_cr l = (if l \<noteq> [] \<and> last l = 13 then butlast l else l)"

fun split_lines :: "bytes \<Rightarrow> bytes \<Rightarrow> bytes list" where
  "split_lines l [] = non_empty l"
| "split_lines l (b # bs) = (if b = 10 then strip_cr l # split_lines [] bs else split_lines (l @ [b]) bs)"

definition str_lines :: "bytes \<Rightarrow> bytes list" where
  "str_lines = split_lines []"

fun find_map :: "('a \<Rightarrow> 'b option) \<Rightarrow> 'a list \<Rightarrow> 'b option" where
  "find_map f [] = None"
| "find_map f (x # xs) = (case f x of Some y \<Rightarrow> Some y | None \<Rightarrow> find_map f xs)"

section \<open>Linux: the interface of the default route\<close>

definition default_route :: "bytes \<Rightarrow> bytes option" where
  "default_route line =
     (case split_whitespace line of
        iface # dest # _ \<Rightarrow> if dest = ascii ''00000000'' then Some iface else None
      | _ \<Rightarrow> None)"

definition starts_with_any :: "string list \<Rightarrow> bytes \<Rightarrow> bool" where
  "starts_with_any ps n \<longleftrightarrow> list_ex (\<lambda>p. take (length p) n = ascii p) ps"

definition interface_cost :: "bytes option \<Rightarrow> TransportCost" where
  "interface_cost iface =
     (case iface of
        None \<Rightarrow> Unknown
      | Some n \<Rightarrow>
          if starts_with_any [''wlan'', ''wlp'', ''wlx''] n then Free
          else if starts_with_any [''eth'', ''enp'', ''eno'', ''ens'', ''enx''] n then Free
          else if starts_with_any [''wwan'', ''rmnet'', ''ppp''] n then Metered
          else Unknown)"

text \<open>The argument is what reading \<open>/proc/net/route\<close> gives.\<close>

definition detect_network_cost_linux :: "string + rstring \<Rightarrow> TransportCost" where
  "detect_network_cost_linux content =
     (case content of
        Inl _ \<Rightarrow> Unknown
      | Inr c \<Rightarrow> interface_cost (find_map default_route (drop 1 (str_lines (str_bytes c)))))"

section \<open>Windows: the cost of the connection profile\<close>

datatype NetworkCostType = NctUnknown | NctUnrestricted | NctFixed | NctVariable

text \<open>The three calls of \<open>NetworkInformation\<close>, on opaque objects.\<close>

definition detect_network_cost_windows ::
  "string + 'p \<Rightarrow> ('p \<Rightarrow> string + 'c) \<Rightarrow> ('c \<Rightarrow> string + NetworkCostType) \<Rightarrow> TransportCost" where
  "detect_network_cost_windows profile get_cost cost_type =
     (case profile of
        Inl _ \<Rightarrow> Unknown
      | Inr p \<Rightarrow>
          (case get_cost p of
             Inl _ \<Rightarrow> Unknown
           | Inr c \<Rightarrow>
               (case cost_type c of
                  Inl _ \<Rightarrow> Unknown
                | Inr t \<Rightarrow>
                    if t = NctUnrestricted then Free
                    else if t = NctUnknown then Unknown
                    else Metered)))"

section \<open>macOS: the types of the active interfaces\<close>

datatype SCNetworkInterfaceType = IEEE80211 | Ethernet | WWAN | OtherInterface

record SCNetworkInterface =
  bsd_name :: "rstring option"
  interface_type :: "SCNetworkInterfaceType option"

text \<open>The body of the loop, on \<open>found_free\<close> and \<open>found_metered\<close>.\<close>

definition see_interface :: "rstring list \<Rightarrow> SCNetworkInterface \<Rightarrow> bool \<times> bool \<Rightarrow> bool \<times> bool" where
  "see_interface active iface found =
     (case bsd_name iface of
        None \<Rightarrow> found
      | Some bsd \<Rightarrow>
          if bsd \<notin> set active then found
          else case interface_type iface of
            Some IEEE80211 \<Rightarrow> (True, snd found)
          | Some Ethernet \<Rightarrow> (True, snd found)
          | Some WWAN \<Rightarrow> (fst found, True)
          | _ \<Rightarrow> found)"

definition detect_network_cost_macos ::
  "string + (rstring \<times> Interface) list \<Rightarrow> SCNetworkInterface list \<Rightarrow> TransportCost" where
  "detect_network_cost_macos if_addrs interfaces =
     (let active = map fst (filter (\<lambda>(_, i). \<not> is_loopback i) (case if_addrs of Inr is \<Rightarrow> is | Inl _ \<Rightarrow> []));
          (found_free, found_metered) = fold (see_interface active) interfaces (False, False) in
      if found_free then Free else if found_metered then Metered else Unknown)"

section \<open>The platforms\<close>

text \<open>The platform the crate is compiled for, with what it asks the system.\<close>

datatype ('p, 'c, 'n) Platform =
    Linux "'n \<Rightarrow> string + rstring"
  | Windows "'n \<Rightarrow> string + 'p" "'p \<Rightarrow> string + 'c" "'c \<Rightarrow> string + NetworkCostType"
  | MacOs "'n \<Rightarrow> string + (rstring \<times> Interface) list" "'n \<Rightarrow> SCNetworkInterface list"
  | OtherOs

fun detect_network_cost :: "('p, 'c, 'n) Platform \<Rightarrow> 'n \<Rightarrow> TransportCost" where
  "detect_network_cost (Linux route) n = detect_network_cost_linux (route n)"
| "detect_network_cost (Windows profile get_cost cost_type) n = detect_network_cost_windows (profile n) get_cost cost_type"
| "detect_network_cost (MacOs if_addrs interfaces) n = detect_network_cost_macos (if_addrs n) (interfaces n)"
| "detect_network_cost OtherOs n = Unknown"

section \<open>What the detection finds\<close>

text \<open>A row of the route table: interface, destination and the other columns.\<close>

definition route_row :: "bytes \<times> bytes \<times> bytes \<Rightarrow> bytes" where
  "route_row r = (case r of (iface, dest, rest) \<Rightarrow> iface @ [9] @ dest @ [9] @ rest @ [10])"

definition graphic :: "bytes \<Rightarrow> bool" where
  "graphic w \<longleftrightarrow> w \<noteq> [] \<and> (\<forall>b \<in> set w. 0x20 < b \<and> b < 0x80)"

definition row_ok :: "bytes \<times> bytes \<times> bytes \<Rightarrow> bool" where
  "row_ok r = (case r of (iface, dest, rest) \<Rightarrow> graphic iface \<and> graphic dest \<and> 10 \<notin> set rest \<and> 13 \<notin> set rest)"

lemma white_len_graphic: "0x20 < b \<Longrightarrow> b < 0x80 \<Longrightarrow> white_len (b # bs) = 0"
proof -
  assume "0x20 < b" "b < 0x80"
  then have "\<not> (9 \<le> b \<and> b \<le> 13 \<or> b = 0x20)" "b \<noteq> 0xC2" "b \<noteq> 0xE1" "b \<noteq> 0xE2" "b \<noteq> 0xE3"
    by (auto simp: word_less_nat_alt word_le_nat_alt)
  then show ?thesis by (simp add: white_len_def split: list.splits)
qed

lemma split_white_word:
  "\<forall>b \<in> set w. 0x20 < b \<and> b < 0x80 \<Longrightarrow> split_white v (w @ bs) = split_white (v @ w) bs"
  by (induction w arbitrary: v) (simp_all add: white_len_graphic)

lemma split_white_tab: "split_white w (9 # bs) = non_empty w @ split_white [] bs"
  by (simp add: white_len_def)

lemma default_route_row:
  assumes "graphic iface" "graphic dest"
  shows "default_route (iface @ [9] @ dest @ [9] @ rest) = (if dest = ascii ''00000000'' then Some iface else None)"
proof -
  have "split_whitespace (iface @ [9] @ dest @ [9] @ rest) = iface # dest # split_white [] rest"
    using assms
    by (simp add: split_whitespace_def graphic_def split_white_word split_white_tab non_empty_def del: split_white.simps)
  then show ?thesis by (simp add: default_route_def)
qed

lemma split_lines_row: "10 \<notin> set l \<Longrightarrow> split_lines v (l @ 10 # bs) = strip_cr (v @ l) # split_lines [] bs"
  by (induction l arbitrary: v) auto

lemma row_without_newline:
  assumes "row_ok (iface, dest, rest)"
  shows "10 \<notin> set (iface @ [9] @ dest @ [9] @ rest)" "strip_cr (iface @ [9] @ dest @ [9] @ rest) = iface @ [9] @ dest @ [9] @ rest"
proof -
  show "10 \<notin> set (iface @ [9] @ dest @ [9] @ rest)"
    using assms by (auto simp: row_ok_def graphic_def)
  have "last ([9] @ rest) \<noteq> 13"
    using assms by (cases rest rule: rev_cases) (auto simp: row_ok_def)
  then have "last (iface @ [9] @ dest @ [9] @ rest) \<noteq> 13"
    by simp
  then show "strip_cr (iface @ [9] @ dest @ [9] @ rest) = iface @ [9] @ dest @ [9] @ rest"
    by (simp add: strip_cr_def)
qed

lemma find_default_route:
  assumes "\<forall>r \<in> set rows. row_ok r"
  shows "find_map default_route (split_lines [] (concat (map route_row rows))) =
    map_option fst (find (\<lambda>(_, dest, _). dest = ascii ''00000000'') rows)"
  using assms
proof (induction rows)
  case (Cons r rows)
  obtain iface dest rest where r: "r = (iface, dest, rest)" by (cases r)
  then have ok: "row_ok (iface, dest, rest)" using Cons.prems by simp
  have "split_lines [] (concat (map route_row (r # rows))) =
      (iface @ [9] @ dest @ [9] @ rest) # split_lines [] (concat (map route_row rows))"
    using split_lines_row [OF row_without_newline(1) [OF ok], of "[]" "concat (map route_row rows)"]
      row_without_newline(2) [OF ok]
    by (simp add: r route_row_def)
  moreover have "default_route (iface @ [9] @ dest @ [9] @ rest) = (if dest = ascii ''00000000'' then Some iface else None)"
    using ok by (intro default_route_row) (simp_all add: row_ok_def)
  ultimately show ?case
    using Cons r by simp
qed (simp add: non_empty_def)

text \<open>
  On a route table of any length, the cost is that of the interface of the first default
  route, and unknown when there is none.
\<close>

lemma cost_of_default_route:
  assumes "str_bytes content = header @ [10] @ concat (map route_row rows)" "10 \<notin> set header" "\<forall>r \<in> set rows. row_ok r"
  shows "detect_network_cost_linux (Inr content) =
    interface_cost (map_option fst (find (\<lambda>(_, dest, _). dest = ascii ''00000000'') rows))"
  using assms split_lines_row [OF assms(2), of "[]" "concat (map route_row rows)"]
  by (simp add: detect_network_cost_linux_def str_lines_def find_default_route)

lemma fold_see_interface:
  "fold (see_interface active) is found =
     (fst found \<or> (\<exists>i \<in> set is. \<exists>bsd \<in> set active. bsd_name i = Some bsd \<and> interface_type i \<in> {Some IEEE80211, Some Ethernet}),
      snd found \<or> (\<exists>i \<in> set is. \<exists>bsd \<in> set active. bsd_name i = Some bsd \<and> interface_type i = Some WWAN))"
proof (induction "is" arbitrary: found)
  case (Cons i "is")
  have "see_interface active i found =
     (fst found \<or> (\<exists>bsd \<in> set active. bsd_name i = Some bsd \<and> interface_type i \<in> {Some IEEE80211, Some Ethernet}),
      snd found \<or> (\<exists>bsd \<in> set active. bsd_name i = Some bsd \<and> interface_type i = Some WWAN))"
    by (cases found) (auto simp: see_interface_def split: option.splits SCNetworkInterfaceType.splits)
  then show ?case by (simp add: Cons.IH disj_assoc)
qed simp

text \<open>On macOS a free active interface wins over a metered one, in whatever order they come.\<close>

lemma macos_cost_best:
  "detect_network_cost_macos (Inr ifs) interfaces = Free \<longleftrightarrow>
     (\<exists>i \<in> set interfaces. \<exists>(bsd, a) \<in> set ifs. \<not> is_loopback a \<and> bsd_name i = Some bsd \<and>
        interface_type i \<in> {Some IEEE80211, Some Ethernet})"
  by (auto simp: detect_network_cost_macos_def fold_see_interface Let_def)

end
