(* ===== verification/Stream_Framing.thy ===== *)
theory Stream_Framing
  imports Wire Async
begin

text \<open>
  The length-prefixed framing that \<open>QuicConnection\<close> in
  \<open>crates/pathweave-transport-quic/src/lib.rs\<close> and \<open>WifiDirectConnection\<close> in
  \<open>crates/pathweave-transport-wifi-direct/src/lib.rs\<close> share.  The byte streams themselves
  (\<open>quinn\<close>, \<open>tokio::net::TcpStream\<close>) are arguments.
\<close>

section \<open>Byte streams\<close>

text \<open>The operations of a stream; an error is its rendering with \<open>to_string\<close>.\<close>

record 's ByteStream =
  write_all :: "bytes \<Rightarrow> (string + unit, 's) future"
  read_exact :: "nat \<Rightarrow> (string + bytes, 's) future"
  finish_stream :: "(string + unit, 's) future"

definition transport_err :: "string + 'a \<Rightarrow> 'a result" where
  "transport_err r = (case r of Inl e \<Rightarrow> Inl (Transport e) | Inr a \<Rightarrow> Inr a)"

definition lift_err :: "(string + 'a, 's) future \<Rightarrow> ('a result, 's) future" where
  "lift_err m = await m (\<lambda>r. ready (transport_err r))"

section \<open>Framing\<close>

text \<open>\<open>(bytes.len() as u32).to_be_bytes()\<close>: the cast keeps the low 32 bits.\<close>

definition frame_header :: "bytes \<Rightarrow> bytes" where
  "frame_header bs = u32_to_be_bytes (of_nat (length bs))"

definition framed_send :: "'s ByteStream \<Rightarrow> bytes \<Rightarrow> (unit result, 's) future" where
  "framed_send st bs =
     try_await (lift_err (write_all st (frame_header bs))) (\<lambda>_. lift_err (write_all st bs))"

definition framed_recv :: "'s ByteStream \<Rightarrow> (bytes result, 's) future" where
  "framed_recv st =
     try_await (lift_err (read_exact st 4)) (\<lambda>len_buf.
     lift_err (read_exact st (unat (u32_from_be_bytes len_buf))))"

definition framed_connection :: "nat \<Rightarrow> 's ByteStream \<Rightarrow> 's Connection" where
  "framed_connection m st =
     \<lparr>send_bytes = framed_send st, recv_bytes = framed_recv st, close_conn = lift_err (finish_stream st), mtu = m\<rparr>"

definition quic_connection :: "'s ByteStream \<Rightarrow> 's Connection" where
  "quic_connection = framed_connection 1200"

definition wifi_direct_connection :: "'s ByteStream \<Rightarrow> 's Connection" where
  "wifi_direct_connection = framed_connection 1400"

section \<open>Frames as a prefix code\<close>

definition encode_frame :: "bytes \<Rightarrow> bytes" where
  "encode_frame bs = frame_header bs @ bs"

definition decode_frame :: "bytes \<Rightarrow> (bytes \<times> bytes) option" where
  "decode_frame bs =
     (if length bs < 4 then None
      else let len = unat (u32_from_be_bytes (take 4 bs)); body = drop 4 bs in
        if length body < len then None else Some (take len body, drop len body))"

lemma length_frame_header [simp]: "length (frame_header bs) = 4"
  by (simp add: frame_header_def)

lemma header_value: "unat (u32_from_be_bytes (frame_header bs)) = length bs mod 2 ^ 32"
  by (simp add: frame_header_def unat_of_nat)

lemma decode_encode_frame:
  "length bs < 2 ^ 32 \<Longrightarrow> decode_frame (encode_frame bs @ rest) = Some (bs, rest)"
  by (simp add: decode_frame_def encode_frame_def header_value)

interpretation frame_code: prefix_codec encode_frame decode_frame Some "\<lambda>bs. length bs < 2 ^ 32"
  by unfold_locales (simp add: decode_encode_frame)

section \<open>Over a reliable stream\<close>

text \<open>
  What the documentation of a reliable stream promises: \<open>content\<close> is what has been written and
  not been read; \<open>write_all\<close> appends to it, and \<open>read_exact\<close> takes the first bytes once there
  are enough.
\<close>

definition pipe_ok :: "'s ByteStream \<Rightarrow> ('s \<Rightarrow> bytes) \<Rightarrow> bool" where
  "pipe_ok st content \<longleftrightarrow>
     (\<forall>bs s. \<exists>s'. write_all st bs s = (Ready (Inr ()), s') \<and> content s' = content s @ bs) \<and>
     (\<forall>n s. n \<le> length (content s) \<longrightarrow>
        (\<exists>s'. read_exact st n s = (Ready (Inr (take n (content s))), s') \<and> content s' = drop n (content s)))"

lemma framed_send_pipe:
  assumes "pipe_ok st content"
  shows "\<exists>s'. framed_send st bs s = (Ready (Inr ()), s') \<and> content s' = content s @ encode_frame bs"
proof -
  obtain s\<^sub>1 where 1: "write_all st (frame_header bs) s = (Ready (Inr ()), s\<^sub>1)" "content s\<^sub>1 = content s @ frame_header bs"
    using assms unfolding pipe_ok_def by blast
  obtain s\<^sub>2 where 2: "write_all st bs s\<^sub>1 = (Ready (Inr ()), s\<^sub>2)" "content s\<^sub>2 = content s\<^sub>1 @ bs"
    using assms unfolding pipe_ok_def by blast
  show ?thesis
    using 1 2 by (intro exI [of _ s\<^sub>2])
      (simp add: framed_send_def try_await_def lift_err_def await_def ready_def transport_err_def encode_frame_def)
qed

lemma framed_recv_pipe:
  assumes "pipe_ok st content" "decode_frame (content s) = Some (bs, rest)"
  shows "\<exists>s'. framed_recv st s = (Ready (Inr bs), s') \<and> content s' = rest"
proof -
  let ?len = "unat (u32_from_be_bytes (take 4 (content s)))"
  have dec: "4 \<le> length (content s)" "?len \<le> length (drop 4 (content s))"
      "bs = take ?len (drop 4 (content s))" "rest = drop ?len (drop 4 (content s))"
    using assms(2) by (auto simp: decode_frame_def Let_def split: if_splits)
  obtain s\<^sub>1 where 1: "read_exact st 4 s = (Ready (Inr (take 4 (content s))), s\<^sub>1)" "content s\<^sub>1 = drop 4 (content s)"
    using assms(1) dec(1) unfolding pipe_ok_def by blast
  have "?len \<le> length (content s\<^sub>1)"
    using 1(2) dec(2) by simp
  then obtain s\<^sub>2 where 2: "read_exact st ?len s\<^sub>1 = (Ready (Inr (take ?len (content s\<^sub>1))), s\<^sub>2)"
      "content s\<^sub>2 = drop ?len (content s\<^sub>1)"
    using assms(1) unfolding pipe_ok_def by blast
  show ?thesis
    using 1 2 dec(3,4) by (intro exI [of _ s\<^sub>2])
      (simp add: framed_recv_def try_await_def lift_err_def await_def ready_def transport_err_def)
qed

lemma framed_send_all:
  assumes "pipe_ok st content"
  shows "\<exists>s'. send_all (framed_connection m st) ms s = (Ready (Inr ()), s') \<and>
    content s' = content s @ concat (map encode_frame ms)"
proof (induction ms arbitrary: s)
  case (Cons b ms)
  obtain s\<^sub>1 where 1: "framed_send st b s = (Ready (Inr ()), s\<^sub>1)" "content s\<^sub>1 = content s @ encode_frame b"
    using framed_send_pipe [OF assms] by blast
  obtain s\<^sub>2 where 2: "send_all (framed_connection m st) ms s\<^sub>1 = (Ready (Inr ()), s\<^sub>2)"
      "content s\<^sub>2 = content s\<^sub>1 @ concat (map encode_frame ms)"
    using Cons.IH by blast
  show ?case
    using 1 2 by (intro exI [of _ s\<^sub>2]) (simp add: framed_connection_def try_await_def)
qed simp

lemma framed_recv_all:
  assumes "pipe_ok st content" "\<forall>b \<in> set ms. length b < 2 ^ 32"
  shows "content s = concat (map encode_frame ms) @ rest \<Longrightarrow>
    \<exists>s'. yields (recv_bytes (framed_connection m st)) ms s s' \<and> content s' = rest"
  using assms(2)
proof (induction ms arbitrary: s)
  case (Cons b ms)
  have "decode_frame (content s) = Some (b, concat (map encode_frame ms) @ rest)"
    using Cons.prems decode_encode_frame [of b "concat (map encode_frame ms) @ rest"] by simp
  from framed_recv_pipe [OF assms(1) this] obtain s\<^sub>1 where 1: "framed_recv st s = (Ready (Inr b), s\<^sub>1)"
      "content s\<^sub>1 = concat (map encode_frame ms) @ rest"
    by blast
  obtain s\<^sub>2 where "yields (recv_bytes (framed_connection m st)) ms s\<^sub>1 s\<^sub>2" "content s\<^sub>2 = rest"
    using Cons.IH [OF 1(2)] Cons.prems(2) by auto
  with 1(1) show ?case by (auto simp: framed_connection_def)
qed simp

section \<open>Properties\<close>

text \<open>A stream that is its content, for the instances.\<close>

definition memory_stream :: "bytes ByteStream" where
  "memory_stream =
     \<lparr>write_all = (\<lambda>bs s. (Ready (Inr ()), s @ bs)),
      read_exact = (\<lambda>n s. if n \<le> length s then (Ready (Inr (take n s)), drop n s) else (Pending, s)),
      finish_stream = (\<lambda>s. (Ready (Inr ()), s))\<rparr>"

lemma memory_pipe_ok: "pipe_ok memory_stream id"
  by (simp add: pipe_ok_def memory_stream_def)

text \<open>
  C40: the framing of QUIC and WiFi Direct connections preserves messages.  Whatever sequence of
  messages shorter than 4 GiB is sent over a reliable byte stream, the receiver gets the
  same sequence of messages, whole and in order, and what follows on the stream is left.
\<close>

theorem framed_messages_roundtrip:
  assumes "pipe_ok st content" "content s = []" "\<forall>b \<in> set ms. length b < 2 ^ 32"
    and "c = quic_connection st \<or> c = wifi_direct_connection st"
  shows "\<exists>s' s''. send_all c ms s = (Ready (Inr ()), s') \<and> yields (recv_bytes c) ms s' s'' \<and> content s'' = []"
proof -
  obtain m where c: "c = framed_connection m st"
    using assms(4) by (auto simp: quic_connection_def wifi_direct_connection_def)
  obtain s' where s': "send_all c ms s = (Ready (Inr ()), s')" "content s' = concat (map encode_frame ms) @ []"
    using framed_send_all [OF assms(1), of m ms s] assms(2) c by auto
  from framed_recv_all [OF assms(1,3) s'(2), of m] s'(1) c show ?thesis by blast
qed

theorem framed_messages_roundtrip_witness:
  "\<exists>s' s''. send_all (quic_connection memory_stream) [[1, 2], [], [3]] [] = (Ready (Inr ()), s') \<and>
     yields (recv_bytes (quic_connection memory_stream)) [[1, 2], [], [3]] s' s'' \<and> id s'' = []"
  by (rule framed_messages_roundtrip [OF memory_pipe_ok]) simp_all

end
