(* ===== verification/Quic.thy ===== *)
theory Quic
  imports Network_Cost Stream_Framing
begin

text \<open>
  \<open>crates/pathweave-transport-quic/src/lib.rs\<close>: the QUIC transport, with the bridge from mDNS
  events to announcements and departures.  The crates \<open>quinn\<close>, \<open>rcgen\<close> and \<open>mdns_sd\<close> and the
  sockets of the system are an argument; their objects are handles.
\<close>

section \<open>The mDNS bridge\<close>

record ServiceInfo =
  info_port :: u16
  info_fullname :: rstring
  info_addresses_v4 :: "bytes4 list"

datatype ServiceEvent =
    ServiceResolved ServiceInfo
  | ServiceRemoved rstring rstring
  | OtherServiceEvent

text \<open>
  The task's map of resolved services and its two channels: what is in them, and whether the
  receiver is still there.
\<close>

record Bridge =
  resolved :: "(rstring, SocketAddr list) hmap"
  announce_queue :: "PeerAnnouncement list"
  announce_open :: bool
  departure_queue :: "PeerAddress list"
  departure_open :: bool

definition bridge_new :: Bridge where
  "bridge_new = \<lparr>resolved = [], announce_queue = [], announce_open = True, departure_queue = [], departure_open = True\<rparr>"

text \<open>The loops over addresses; \<open>None\<close> and \<open>False\<close> are the \<open>return\<close> on a closed channel.\<close>

fun announce_addrs :: "u16 \<Rightarrow> bytes4 list \<Rightarrow> SocketAddr list \<Rightarrow> Bridge \<Rightarrow> SocketAddr list option \<times> Bridge" where
  "announce_addrs port [] addrs b = (Some addrs, b)"
| "announce_addrs port (ip # ips) addrs b =
     (let addr = V4 ip port in
      if announce_open b then
        announce_addrs port ips (addrs @ [addr])
          (b\<lparr>announce_queue := announce_queue b @ [\<lparr>address = Quic addr, short_id = None\<rparr>]\<rparr>)
      else (None, b))"

fun depart_addrs :: "SocketAddr list \<Rightarrow> Bridge \<Rightarrow> bool \<times> Bridge" where
  "depart_addrs [] b = (True, b)"
| "depart_addrs (addr # addrs) b =
     (if departure_open b then depart_addrs addrs (b\<lparr>departure_queue := departure_queue b @ [Quic addr]\<rparr>)
      else (False, b))"

definition bridge_event :: "ServiceEvent \<Rightarrow> Bridge \<Rightarrow> bool \<times> Bridge" where
  "bridge_event ev b =
     (case ev of
        ServiceResolved info \<Rightarrow>
          (case announce_addrs (info_port info) (info_addresses_v4 info) [] b of
             (None, b') \<Rightarrow> (False, b')
           | (Some addrs, b') \<Rightarrow> (True, b'\<lparr>resolved := hm_insert (info_fullname info) addrs (resolved b')\<rparr>))
      | ServiceRemoved _ fullname \<Rightarrow>
          (case hm_get (resolved b) fullname of
             None \<Rightarrow> (True, b)
           | Some addrs \<Rightarrow> depart_addrs addrs (b\<lparr>resolved := hm_remove fullname (resolved b)\<rparr>))
      | OtherServiceEvent \<Rightarrow> (True, b))"

fun bridge_run :: "ServiceEvent list \<Rightarrow> Bridge \<Rightarrow> bool \<times> Bridge" where
  "bridge_run [] b = (True, b)"
| "bridge_run (ev # evs) b = (let (go_on, b') = bridge_event ev b in if go_on then bridge_run evs b' else (False, b'))"

section \<open>The crates and the system\<close>

type_synonym handle = nat

text \<open>A call of a library: it can change the state \<open>'n\<close> of the network and of the libraries.\<close>

type_synonym ('a, 'n) call = "'n \<Rightarrow> 'a \<times> 'n"

record ('p, 'c, 'n) Quic_Env =
  platform :: "('p, 'c, 'n) Platform"
  generate_simple_self_signed :: "bytes list \<Rightarrow> (string + handle, 'n) call"
  with_single_cert :: "handle \<Rightarrow> string + handle"
  quic_client_config :: "string + handle"
  endpoint_server :: "handle \<Rightarrow> SocketAddr \<Rightarrow> (string + handle, 'n) call"
  endpoint_client :: "SocketAddr \<Rightarrow> (string + handle, 'n) call"
  endpoint_local_addr :: "handle \<Rightarrow> 'n \<Rightarrow> string + SocketAddr"
  endpoint_close :: "handle \<Rightarrow> 'n \<Rightarrow> 'n"
  endpoint_connect :: "handle \<Rightarrow> handle \<Rightarrow> SocketAddr \<Rightarrow> bytes \<Rightarrow> (string + handle, 'n) call"
  endpoint_accept :: "handle \<Rightarrow> (handle option, 'n) future"
  handshake :: "handle \<Rightarrow> (string + handle, 'n) future"
  open_bi :: "handle \<Rightarrow> (string + 'n ByteStream, 'n) future"
  accept_bi :: "handle \<Rightarrow> (string + 'n ByteStream, 'n) future"
  daemon_new :: "(string + handle, 'n) call"
  service_info :: "rstring \<Rightarrow> rstring \<Rightarrow> rstring \<Rightarrow> bytes4 \<Rightarrow> u16 \<Rightarrow> string + ServiceInfo"
  daemon_register :: "handle \<Rightarrow> ServiceInfo \<Rightarrow> (string + unit, 'n) call"
  daemon_browse :: "handle \<Rightarrow> rstring \<Rightarrow> (string + unit, 'n) call"
  daemon_unregister :: "handle \<Rightarrow> rstring \<Rightarrow> 'n \<Rightarrow> 'n"
  daemon_stop_browse :: "handle \<Rightarrow> rstring \<Rightarrow> 'n \<Rightarrow> 'n"
  daemon_shutdown :: "handle \<Rightarrow> 'n \<Rightarrow> 'n"
  udp_bind :: "SocketAddr \<Rightarrow> (string + handle, 'n) call"
  udp_connect :: "handle \<Rightarrow> SocketAddr \<Rightarrow> (string + unit, 'n) call"
  udp_local_addr :: "handle \<Rightarrow> 'n \<Rightarrow> string + SocketAddr"

section \<open>The transport's state\<close>

definition SERVICE_TYPE :: rstring where
  "SERVICE_TYPE = Abs_rstring (ascii ''_pathweave._udp.local.'')"

text \<open>\<open>announce_rx\<close> and \<open>departure_rx\<close> say whether the receiver has not been taken yet.\<close>

record MdnsState =
  daemon :: handle
  service_fullname :: rstring
  announce_rx :: bool
  departure_rx :: bool
  bridge :: Bridge

record 'n QuicTransport =
  listen_addr :: SocketAddr
  endpoint :: "handle option"
  mdns :: "MdnsState option"
  instance_name :: rstring
  cost_code :: u8
  started_addr :: "SocketAddr option"
  net :: 'n

definition quic_new :: "SocketAddr \<Rightarrow> bytes8 \<Rightarrow> 'n \<Rightarrow> 'n QuicTransport" where
  "quic_new addr entropy n =
     \<lparr>listen_addr = addr, endpoint = None, mdns = None,
      instance_name = Abs_rstring (concat (map hex_byte (bytes_of entropy))),
      cost_code = 2, started_addr = None, net = n\<rparr>"

definition quic_local_addr :: "('p, 'c, 'n) Quic_Env \<Rightarrow> 'n QuicTransport \<Rightarrow> SocketAddr option" where
  "quic_local_addr env s =
     (case endpoint s of
        None \<Rightarrow> None
      | Some ep \<Rightarrow> (case endpoint_local_addr env ep (net s) of Inr a \<Rightarrow> Some a | Inl _ \<Rightarrow> None))"

definition wildcard :: SocketAddr where
  "wildcard = V4 (fill_array 0) 0"

definition local_ipv4 :: "('p, 'c, 'n) Quic_Env \<Rightarrow> (bytes4, 'n) call" where
  "local_ipv4 env n =
     (let localhost = the (array_of [127, 0, 0, 1]) in
      case udp_bind env wildcard n of
        (Inl _, n\<^sub>1) \<Rightarrow> (localhost, n\<^sub>1)
      | (Inr sock, n\<^sub>1) \<Rightarrow>
          (case udp_connect env sock (V4 (fill_array 8) 80) n\<^sub>1 of
             (Inl _, n\<^sub>2) \<Rightarrow> (localhost, n\<^sub>2)
           | (Inr (), n\<^sub>2) \<Rightarrow>
               (case udp_local_addr env sock n\<^sub>2 of
                  Inr (V4 ip _) \<Rightarrow> (ip, n\<^sub>2)
                | _ \<Rightarrow> (localhost, n\<^sub>2))))"

text \<open>A call and its error, as the transport maps it; the operations act on the state \<open>net\<close>.\<close>

definition on_net :: "('a, 'n) future \<Rightarrow> ('a, 'n QuicTransport) future" where
  "on_net m s = (let (r, n) = m (net s) in (r, s\<lparr>net := n\<rparr>))"

definition try_net :: "(string \<Rightarrow> PathweaveError) \<Rightarrow> (string + 'a, 'n) future \<Rightarrow> ('a result, 'n QuicTransport) future" where
  "try_net err m = await (on_net m) (\<lambda>r. ready (case r of Inl e \<Rightarrow> Inl (err e) | Inr a \<Rightarrow> Inr a))"

definition make_server_config :: "('p, 'c, 'n) Quic_Env \<Rightarrow> (string + handle, 'n) call" where
  "make_server_config env n =
     (case generate_simple_self_signed env [ascii ''pathweave''] n of
        (Inl e, n') \<Rightarrow> (Inl e, n')
      | (Inr cert, n') \<Rightarrow> (with_single_cert env cert, n'))"

fun port_of :: "SocketAddr \<Rightarrow> u16" where
  "port_of (V4 _ p) = p"
| "port_of (V6 _ p _ _) = p"

definition host_name :: "rstring \<Rightarrow> rstring" where
  "host_name name = Abs_rstring (str_bytes name @ ascii ''.local.'')"

definition mdns_new :: "handle \<Rightarrow> rstring \<Rightarrow> MdnsState" where
  "mdns_new d fullname =
     \<lparr>daemon = d, service_fullname = fullname, announce_rx = True, departure_rx = True, bridge = bridge_new\<rparr>"

fun encode_cost :: "TransportCost \<Rightarrow> u8" where
  "encode_cost Free = 0"
| "encode_cost Metered = 1"
| "encode_cost Unknown = 2"

section \<open>Start and stop\<close>

definition advertise_service ::
  "('p, 'c, 'n) Quic_Env \<Rightarrow> rstring \<Rightarrow> u16 \<Rightarrow> (unit result, 'n QuicTransport) future" where
  "advertise_service env name port =
     try_await (try_net Transport (update (daemon_new env))) (\<lambda>d.
     await (on_net (update (local_ipv4 env))) (\<lambda>ip.
     try_now (transport_err (service_info env SERVICE_TYPE name (host_name name) ip port)) (\<lambda>info.
     try_await (try_net Transport (update (daemon_register env d info))) (\<lambda>_.
     try_await (try_net Transport (update (daemon_browse env d SERVICE_TYPE))) (\<lambda>_.
     await (modify (\<lambda>s. s\<lparr>mdns := Some (mdns_new d (info_fullname info))\<rparr>)) (\<lambda>_.
     ready (Inr ())))))))"

definition quic_start ::
  "('p, 'c, 'n) Quic_Env \<Rightarrow> NodeIdentity \<Rightarrow> (unit result, 'n QuicTransport) future" where
  "quic_start env ident s =
     try_await (try_net Transport (update (make_server_config env))) (\<lambda>cfg.
     try_await (try_net Io (update (endpoint_server env cfg (listen_addr s)))) (\<lambda>ep.
     try_await (try_net Io (update (\<lambda>n. (endpoint_local_addr env ep n, n)))) (\<lambda>addr.
     await (modify (\<lambda>s. s\<lparr>endpoint := Some ep, started_addr := Some addr\<rparr>)) (\<lambda>_.
     try_await (advertise_service env (instance_name s) (port_of addr)) (\<lambda>_.
     await (modify (\<lambda>s. s\<lparr>cost_code := encode_cost (detect_network_cost (platform env) (net s))\<rparr>)) (\<lambda>_.
     ready (Inr ()))))))) s"

definition close_endpoint :: "('p, 'c, 'n) Quic_Env \<Rightarrow> 'n QuicTransport \<Rightarrow> 'n QuicTransport" where
  "close_endpoint env s =
     (case endpoint s of
        None \<Rightarrow> s
      | Some ep \<Rightarrow> s\<lparr>endpoint := None, net := endpoint_close env ep (net s)\<rparr>)"

definition close_mdns :: "('p, 'c, 'n) Quic_Env \<Rightarrow> 'n QuicTransport \<Rightarrow> 'n QuicTransport" where
  "close_mdns env s =
     (case mdns s of
        None \<Rightarrow> s
      | Some st \<Rightarrow>
          s\<lparr>mdns := None,
            net := daemon_shutdown env (daemon st) (daemon_stop_browse env (daemon st) SERVICE_TYPE
              (daemon_unregister env (daemon st) (service_fullname st) (net s)))\<rparr>)"

definition quic_stop :: "('p, 'c, 'n) Quic_Env \<Rightarrow> (unit result, 'n QuicTransport) future" where
  "quic_stop env s = (Ready (Inr ()), close_mdns env (close_endpoint env (s\<lparr>started_addr := None\<rparr>)))"

section \<open>The streams\<close>

text \<open>\<open>True\<close>: the stream of the receiver, taken; \<open>False\<close>: the empty stream.\<close>

definition quic_discover :: "'n QuicTransport \<Rightarrow> bool \<times> 'n QuicTransport" where
  "quic_discover s =
     (case mdns s of
        None \<Rightarrow> (False, s)
      | Some st \<Rightarrow> (announce_rx st, s\<lparr>mdns := Some (st\<lparr>announce_rx := False\<rparr>)\<rparr>))"

definition quic_departures :: "'n QuicTransport \<Rightarrow> bool \<times> 'n QuicTransport" where
  "quic_departures s =
     (case mdns s of
        None \<Rightarrow> (False, s)
      | Some st \<Rightarrow> (departure_rx st, s\<lparr>mdns := Some (st\<lparr>departure_rx := False\<rparr>)\<rparr>))"

section \<open>Connections\<close>

definition net_stream :: "'n ByteStream \<Rightarrow> 'n QuicTransport ByteStream" where
  "net_stream st =
     \<lparr>write_all = (\<lambda>bs. on_net (write_all st bs)), read_exact = (\<lambda>n. on_net (read_exact st n)),
      finish_stream = on_net (finish_stream st)\<rparr>"

definition make_client_config :: "('p, 'c, 'n) Quic_Env \<Rightarrow> handle result" where
  "make_client_config env = transport_err (quic_client_config env)"

definition quic_connect ::
  "('p, 'c, 'n) Quic_Env \<Rightarrow> PeerAnnouncement \<Rightarrow> ('n QuicTransport Connection result, 'n QuicTransport) future" where
  "quic_connect env peer =
     (case address peer of
        Quic addr \<Rightarrow>
          try_now (make_client_config env) (\<lambda>cfg.
          try_await (try_net Io (update (endpoint_client env wildcard))) (\<lambda>ep.
          try_await (try_net Transport (update (endpoint_connect env ep cfg addr (ascii ''pathweave'')))) (\<lambda>connecting.
          try_await (try_net Transport (handshake env connecting)) (\<lambda>connection.
          try_await (try_net Transport (open_bi env connection)) (\<lambda>stream.
          ready (Inr (quic_connection (net_stream stream))))))))
      | _ \<Rightarrow> ready (Inl (Transport ''expected QUIC address'')))"

definition quic_accept ::
  "('p, 'c, 'n) Quic_Env \<Rightarrow> ('n QuicTransport Connection result, 'n QuicTransport) future" where
  "quic_accept env s =
     (case endpoint s of
        None \<Rightarrow> (Ready (Inl (Transport ''transport not started'')), s)
      | Some ep \<Rightarrow>
          await (on_net (endpoint_accept env ep)) (\<lambda>incoming.
            case incoming of
              None \<Rightarrow> ready (Inl (Transport ''endpoint closed''))
            | Some inc \<Rightarrow>
                try_await (try_net Transport (handshake env inc)) (\<lambda>connection.
                try_await (try_net Transport (accept_bi env connection)) (\<lambda>stream.
                ready (Inr (quic_connection (net_stream stream)))))) s)"

section \<open>The transport\<close>

definition quic_cost :: "'n QuicTransport \<Rightarrow> TransportCost" where
  "quic_cost s = (if cost_code s = 0 then Free else if cost_code s = 1 then Metered else Unknown)"

definition quic_local_addresses :: "'n QuicTransport \<Rightarrow> PeerAddress list" where
  "quic_local_addresses s = (case started_addr s of None \<Rightarrow> [] | Some addr \<Rightarrow> [Quic addr])"

definition quic_transport :: "('p, 'c, 'n) Quic_Env \<Rightarrow> 'n QuicTransport Transport" where
  "quic_transport env =
     \<lparr>transport_kind = KQuic, transport_cost = quic_cost, transport_connect = quic_connect env,
      transport_accept = quic_accept env, transport_start = quic_start env, transport_stop = quic_stop env,
      transport_addresses = quic_local_addresses\<rparr>"

section \<open>What the bridge reports\<close>

text \<open>
  The addresses of the last resolution of a service that has not been removed since, over the
  events so far, the latest first.
\<close>

definition service_addrs :: "ServiceInfo \<Rightarrow> SocketAddr list" where
  "service_addrs info = map (\<lambda>ip. V4 ip (info_port info)) (info_addresses_v4 info)"

fun last_resolution :: "rstring \<Rightarrow> ServiceEvent list \<Rightarrow> SocketAddr list option" where
  "last_resolution name [] = None"
| "last_resolution name (ServiceResolved info # evs) =
     (if info_fullname info = name then Some (service_addrs info) else last_resolution name evs)"
| "last_resolution name (ServiceRemoved _ fullname # evs) =
     (if fullname = name then None else last_resolution name evs)"
| "last_resolution name (OtherServiceEvent # evs) = last_resolution name evs"

text \<open>What an event sends into the two channels, given the events before it, the latest first.\<close>

fun arrivals_of :: "ServiceEvent \<Rightarrow> PeerAnnouncement list" where
  "arrivals_of (ServiceResolved info) = map (\<lambda>a. \<lparr>address = Quic a, short_id = None\<rparr>) (service_addrs info)"
| "arrivals_of _ = []"

fun departures_of :: "ServiceEvent list \<Rightarrow> ServiceEvent \<Rightarrow> PeerAddress list" where
  "departures_of past (ServiceRemoved _ fullname) =
     (case last_resolution fullname past of None \<Rightarrow> [] | Some addrs \<Rightarrow> map Quic addrs)"
| "departures_of past _ = []"

lemma announce_addrs_open:
  "announce_open b \<Longrightarrow> announce_addrs port ips addrs b =
     (Some (addrs @ map (\<lambda>ip. V4 ip port) ips),
      b\<lparr>announce_queue := announce_queue b @ map (\<lambda>ip. \<lparr>address = Quic (V4 ip port), short_id = None\<rparr>) ips\<rparr>)"
  by (induction ips arbitrary: addrs b) (simp_all add: Let_def)

lemma depart_addrs_open:
  "departure_open b \<Longrightarrow> depart_addrs addrs b = (True, b\<lparr>departure_queue := departure_queue b @ map Quic addrs\<rparr>)"
  by (induction addrs arbitrary: b) simp_all

text \<open>The state of the bridge after some events, the latest first, with both receivers there.\<close>

definition bridge_after :: "ServiceEvent list \<Rightarrow> Bridge \<Rightarrow> bool" where
  "bridge_after past b \<longleftrightarrow> announce_open b \<and> departure_open b \<and>
     (\<forall>name. hm_get (resolved b) name = last_resolution name past)"

lemma bridge_event_after:
  assumes "bridge_after past b"
  shows "\<exists>b'. bridge_event ev b = (True, b') \<and> bridge_after (ev # past) b' \<and>
    announce_queue b' = announce_queue b @ arrivals_of ev \<and>
    departure_queue b' = departure_queue b @ departures_of past ev"
proof (cases ev)
  case (ServiceResolved info)
  with assms show ?thesis
    by (auto simp: bridge_event_def bridge_after_def announce_addrs_open service_addrs_def)
next
  case (ServiceRemoved ty fullname)
  with assms show ?thesis
    by (cases "last_resolution fullname past") (auto simp: bridge_event_def bridge_after_def depart_addrs_open)
next
  case OtherServiceEvent
  with assms show ?thesis by (simp add: bridge_event_def bridge_after_def)
qed

fun all_departures :: "ServiceEvent list \<Rightarrow> ServiceEvent list \<Rightarrow> PeerAddress list" where
  "all_departures past [] = []"
| "all_departures past (ev # evs) = departures_of past ev @ all_departures (ev # past) evs"

lemma bridge_run_after:
  assumes "bridge_after past b"
  shows "\<exists>b'. bridge_run evs b = (True, b') \<and> bridge_after (rev evs @ past) b' \<and>
    announce_queue b' = announce_queue b @ concat (map arrivals_of evs) \<and>
    departure_queue b' = departure_queue b @ all_departures past evs"
  using assms
proof (induction evs arbitrary: b past)
  case (Cons ev evs)
  obtain b\<^sub>1 where b\<^sub>1: "bridge_event ev b = (True, b\<^sub>1)" "bridge_after (ev # past) b\<^sub>1"
      "announce_queue b\<^sub>1 = announce_queue b @ arrivals_of ev"
      "departure_queue b\<^sub>1 = departure_queue b @ departures_of past ev"
    using bridge_event_after [OF Cons.prems] by blast
  from Cons.IH [OF b\<^sub>1(2)] b\<^sub>1 show ?case by auto
qed simp

lemma bridge_after_new: "bridge_after [] bridge_new"
  by (simp add: bridge_after_def bridge_new_def)

lemma last_resolution_announced:
  "last_resolution name past = Some addrs \<Longrightarrow> Quic ` set addrs \<subseteq> address ` set (concat (map arrivals_of past))"
  by (induction name past rule: last_resolution.induct) (force split: if_splits)+

lemma all_departures_announced:
  "set (all_departures past evs) \<subseteq> address ` set (concat (map arrivals_of (past @ evs)))"
proof (induction evs arbitrary: past)
  case (Cons ev evs)
  have "set (departures_of past ev) \<subseteq> address ` set (concat (map arrivals_of past))"
  proof (cases ev)
    case (ServiceRemoved ty name)
    with last_resolution_announced [of name past] show ?thesis
      by (cases "last_resolution name past") simp_all
  qed simp_all
  with Cons.IH [of "ev # past"] show ?case by (simp add: image_Un) blast
qed simp

section \<open>Start and stop\<close>

lemma update_Ready: "update f s = (Ready (fst (f s)), snd (f s))"
  by (simp add: update_def case_prod_beta)

lemma try_net_update:
  "try_net err (update f) s =
     (Ready (case fst (f (net s)) of Inl e \<Rightarrow> Inl (err e) | Inr a \<Rightarrow> Inr a), s\<lparr>net := snd (f (net s))\<rparr>)"
  by (simp add: try_net_def on_net_def await_def update_Ready ready_def)

lemma on_net_update: "on_net (update f) s = (Ready (fst (f (net s))), s\<lparr>net := snd (f (net s))\<rparr>)"
  by (simp add: on_net_def update_Ready)

lemma try_await_Ready:
  "m s = (Ready r, s') \<Longrightarrow> try_await m f s = (case r of Inr a \<Rightarrow> f a s' | Inl e \<Rightarrow> (Ready (Inl e), s'))"
  by (simp add: try_await_def split: sum.splits)

lemma await_Ready: "m s = (Ready r, s') \<Longrightarrow> await m f s = f r s'"
  by (simp add: await_def)

lemma modify_Ready: "modify f s = (Ready (), f s)"
  by (simp add: modify_def update_Ready)

lemmas run_calls = try_await_Ready [OF try_net_update] await_Ready [OF on_net_update] await_Ready [OF modify_Ready]

text \<open>Everything of the transport but its endpoint, its address, its mDNS state and its cost.\<close>

abbreviation same_config :: "'n QuicTransport \<Rightarrow> 'n QuicTransport \<Rightarrow> bool" where
  "same_config s s' \<equiv> listen_addr s' = listen_addr s \<and> instance_name s' = instance_name s"

lemma advertise_service_outcome:
  "\<exists>r s'. advertise_service env name port s = (Ready r, s') \<and> same_config s s' \<and> endpoint s' = endpoint s \<and>
     started_addr s' = started_addr s \<and> cost_code s' = cost_code s \<and>
     (case r of Inl _ \<Rightarrow> mdns s' = mdns s | Inr _ \<Rightarrow> \<exists>d fullname. mdns s' = Some (mdns_new d fullname))"
  by (simp add: advertise_service_def run_calls try_now_def transport_err_def ready_def split: sum.splits) blast

text \<open>The endpoint is one the system bound for the transport, with the address it then has.\<close>

definition bound :: "('p, 'c, 'n) Quic_Env \<Rightarrow> SocketAddr \<Rightarrow> handle \<Rightarrow> SocketAddr \<Rightarrow> bool" where
  "bound env listen ep addr \<longleftrightarrow>
     (\<exists>cfg n n'. endpoint_server env cfg listen n = (Inr ep, n') \<and> endpoint_local_addr env ep n' = Inr addr)"

lemma quic_start_outcome:
  "\<exists>r s'. quic_start env ident s = (Ready r, s') \<and> same_config s s' \<and>
     (case r of
        Inl _ \<Rightarrow> mdns s' = mdns s \<and> cost_code s' = cost_code s \<and>
          (endpoint s' = endpoint s \<and> started_addr s' = started_addr s \<or>
           (\<exists>ep addr. bound env (listen_addr s) ep addr \<and> endpoint s' = Some ep \<and> started_addr s' = Some addr))
      | Inr _ \<Rightarrow> \<exists>ep addr d fullname. bound env (listen_addr s) ep addr \<and> endpoint s' = Some ep \<and> started_addr s' = Some addr \<and>
          mdns s' = Some (mdns_new d fullname) \<and> cost_code s' = encode_cost (detect_network_cost (platform env) (net s')))"
proof -
  note calls = quic_start_def run_calls
  show ?thesis
  proof (cases "fst (make_server_config env (net s))")
    case (Inl e)
    then show ?thesis by (simp add: calls)
  next
    case (Inr cfg)
    let ?n\<^sub>1 = "snd (make_server_config env (net s))"
    show ?thesis
    proof (cases "fst (endpoint_server env cfg (listen_addr s) ?n\<^sub>1)")
      case (Inl e)
      with Inr show ?thesis by (simp add: calls)
    next
      case (Inr ep)
      note cfg = \<open>fst (make_server_config env (net s)) = Inr cfg\<close> and ep = this
      let ?n\<^sub>2 = "snd (endpoint_server env cfg (listen_addr s) ?n\<^sub>1)"
      show ?thesis
      proof (cases "endpoint_local_addr env ep ?n\<^sub>2")
        case (Inl e)
        with cfg ep show ?thesis by (simp add: calls)
      next
        case (Inr addr)
        let ?s = "s\<lparr>net := ?n\<^sub>2, endpoint := Some ep, started_addr := Some addr\<rparr>"
        obtain r s' where adv: "advertise_service env (instance_name s) (port_of addr) ?s = (Ready r, s')"
            "same_config s s'" "endpoint s' = Some ep" "started_addr s' = Some addr" "cost_code s' = cost_code s"
            "case r of Inl _ \<Rightarrow> mdns s' = mdns s | Inr _ \<Rightarrow> \<exists>d fullname. mdns s' = Some (mdns_new d fullname)"
          using advertise_service_outcome [of env "instance_name s" "port_of addr" ?s] by (auto simp: cong: sum.case_cong)
        from cfg ep Inr have "quic_start env ident s =
            (case r of Inl e \<Rightarrow> (Ready (Inl e), s')
             | Inr _ \<Rightarrow> (Ready (Inr ()), s'\<lparr>cost_code := encode_cost (detect_network_cost (platform env) (net s'))\<rparr>))"
          by (cases r) (simp_all add: calls try_await_Ready [where m = "advertise_service env (instance_name s) (port_of addr)", OF adv(1)] ready_def)
        moreover have "bound env (listen_addr s) ep addr"
          unfolding bound_def using ep Inr by (intro exI [of _ cfg] exI [of _ ?n\<^sub>1] exI [of _ ?n\<^sub>2]) (simp add: prod_eq_iff)
        ultimately show ?thesis using adv(2-) by (cases r) auto
      qed
    qed
  qed
qed

lemma quic_stop_outcome:
  "\<exists>s'. quic_stop env s = (Ready (Inr ()), s') \<and> same_config s s' \<and> cost_code s' = cost_code s \<and>
     endpoint s' = None \<and> started_addr s' = None \<and> mdns s' = None"
  by (auto simp: quic_stop_def close_endpoint_def close_mdns_def split: option.splits)

lemma quic_cost_encode: "cost_code s = encode_cost c \<Longrightarrow> quic_cost s = c"
  by (cases c) (simp_all add: quic_cost_def)

section \<open>The transport in a node\<close>

text \<open>A node whose transports are on the state \<open>world\<close>.\<close>

definition on_world :: "('a, 'w) future \<Rightarrow> ('a, 'w NodeState) future" where
  "on_world m s = (let (r, w) = m (world s) in (r, s\<lparr>world := w\<rparr>))"

definition world_connection :: "'w Connection \<Rightarrow> 'w NodeState Connection" where
  "world_connection c =
     \<lparr>send_bytes = (\<lambda>bs. on_world (send_bytes c bs)), recv_bytes = on_world (recv_bytes c),
      close_conn = on_world (close_conn c), mtu = mtu c\<rparr>"

definition world_dial :: "('w Connection result, 'w) future \<Rightarrow> ('w NodeState Connection result, 'w NodeState) future" where
  "world_dial m = try_await (on_world m) (\<lambda>c. ready (Inr (world_connection c)))"

definition world_transport :: "'w Transport \<Rightarrow> 'w NodeState Transport" where
  "world_transport t =
     \<lparr>transport_kind = transport_kind t, transport_cost = (\<lambda>s. transport_cost t (world s)),
      transport_connect = (\<lambda>ann. world_dial (transport_connect t ann)),
      transport_accept = world_dial (transport_accept t), transport_start = (\<lambda>ident. on_world (transport_start t ident)),
      transport_stop = on_world (transport_stop t), transport_addresses = (\<lambda>s. transport_addresses t (world s))\<rparr>"

lemma monitor_init_quic:
  assumes "transport env n = world_transport (quic_transport qenv)" "i < length (transports s)"
    and "quic_start qenv ident (world s) = (Ready r, w)"
  shows "\<exists>m s'. monitor_init env ifs n i ident s = (Ready m, s') \<and> in_recovery m = isl r \<and> world s' = w \<and>
    map entry_transport (transports s') = map entry_transport (transports s) \<and>
    (isl r \<longrightarrow> transports s' = transports s) \<and> (\<not> isl r \<longrightarrow> available (transports s' ! i))"
proof -
  have start: "transport_start (transport env n) ident s = (Ready r, s\<lparr>world := w\<rparr>)"
    using assms(1,3) by (simp add: world_transport_def quic_transport_def on_world_def)
  have "map entry_transport ((transports s)[i := (transports s ! i)\<lparr>available := True\<rparr>]) = map entry_transport (transports s)"
    using assms(2) by (simp add: list_eq_iff_nth_eq nth_list_update)
  then show ?thesis
    using assms(2)
    by (cases r) (simp_all add: monitor_init_def Let_def await_Ready [where m = "transport_start (transport env n) ident", OF start]
        await_Ready [OF modify_Ready] ready_def mark_started_def set_available_def emit_def)
qed

section \<open>Properties\<close>


text \<open>
  C18: the mDNS bridge reports every resolution and exactly the last one's departure.  Over any
  events, with both receivers there: the announcements are the addresses of all
  resolutions, in order; a removal reports the addresses of the service's last resolution
  since its last removal, in order, and nothing else is ever reported, so that every
  departed address was announced before.
\<close>

theorem bridge_reports_last_resolution:
  "\<exists>b. bridge_run evs bridge_new = (True, b) \<and> announce_queue b = concat (map arrivals_of evs) \<and>
     departure_queue b = all_departures [] evs \<and> set (departure_queue b) \<subseteq> address ` set (announce_queue b)"
  using bridge_run_after [OF bridge_after_new, of evs] all_departures_announced [of "[]" evs]
  by (auto simp: bridge_new_def)

text \<open>
  The address a node shares is the one it was told to listen on.  As soon as the bind has
  succeeded, even when the start then fails and the transport is not available, a peer that
  reads the node's address exchange gets the IP address of \<open>listen_addr\<close>; for a node that
  listens on all interfaces this is 0.0.0.0.  That the system keeps the IP address it was
  asked to bind is the hypothesis.
\<close>

theorem listen_address_is_shared:
  assumes "\<forall>ep addr. bound qenv (V4 ip p) ep addr \<longrightarrow> (\<exists>q. addr = V4 ip q)"
    and "transport env n = world_transport (quic_transport qenv)"
    and "transports s = [\<lparr>entry_transport = n, available = False\<rparr>]"
    and "listen_addr (world s) = V4 ip p" "endpoint (world s) = None"
    and "quic_start qenv ident (world s) = (Ready r, w)" "endpoint w \<noteq> None"
  shows "\<exists>m s' q. monitor_init env ifs n 0 ident s = (Ready m, s') \<and> in_recovery m = isl r \<and>
    decode_addr_exchange (encode_addr_exchange (local_addresses env s')) = Some [Quic (V4 ip q)]"
proof -
  obtain m s' where m: "monitor_init env ifs n 0 ident s = (Ready m, s')" "in_recovery m = isl r" "world s' = w"
      "map entry_transport (transports s') = map entry_transport (transports s)"
    using monitor_init_quic [OF assms(2) _ assms(6), of 0 ifs] assms(3) by auto
  obtain q where "started_addr w = Some (V4 ip q)"
    using quic_start_outcome [of qenv ident "world s"] assms(1,4-7) by (auto split: sum.splits)
  moreover have "local_addresses env s' = quic_local_addresses (world s')"
    using m(4) assms(2,3) by (auto simp: local_addresses_def world_transport_def quic_transport_def)
  ultimately have "local_addresses env s' = [Quic (V4 ip q)]"
    by (simp add: m(3) quic_local_addresses_def)
  then have "decode_addr_exchange (encode_addr_exchange (local_addresses env s')) = Some [Quic (V4 ip q)]"
    using decode_encode_addr_exchange [of "[Quic (V4 ip q)]" "[]"] by simp
  with m show ?thesis by blast
qed

text \<open>A system without multicast DNS, and a node on it that listens on all interfaces.\<close>

definition no_mdns :: "(unit, unit, unit) Quic_Env" where
  "no_mdns =
     \<lparr>platform = OtherOs, generate_simple_self_signed = (\<lambda>_ n. (Inr 0, n)), with_single_cert = Inr, quic_client_config = Inr 0,
      endpoint_server = (\<lambda>_ addr n. (if addr = V4 (fill_array 0) 9001 then Inr 1 else Inl [], n)),
      endpoint_client = (\<lambda>_ n. (Inl [], n)), endpoint_local_addr = (\<lambda>_ _. Inr (V4 (fill_array 0) 9001)),
      endpoint_close = (\<lambda>_ n. n), endpoint_connect = (\<lambda>_ _ _ _ n. (Inl [], n)), endpoint_accept = (\<lambda>_ n. (Pending, n)),
      handshake = (\<lambda>_ n. (Pending, n)), open_bi = (\<lambda>_ n. (Pending, n)), accept_bi = (\<lambda>_ n. (Pending, n)),
      daemon_new = (\<lambda>n. (Inl ''no multicast'', n)), service_info = (\<lambda>_ _ _ _ _. Inl []), daemon_register = (\<lambda>_ _ n. (Inl [], n)),
      daemon_browse = (\<lambda>_ _ n. (Inl [], n)), daemon_unregister = (\<lambda>_ _ n. n), daemon_stop_browse = (\<lambda>_ _ n. n),
      daemon_shutdown = (\<lambda>_ n. n), udp_bind = (\<lambda>_ n. (Inl [], n)), udp_connect = (\<lambda>_ _ n. (Inl [], n)),
      udp_local_addr = (\<lambda>_ _. Inl [])\<rparr>"

definition quic_node_env :: "(bool, bytes \<times> bytes32 option, unit, unit QuicTransport NodeState) Env" where
  "quic_node_env =
     \<lparr>env_blake3 = first_byte_hash, env_bp7 = plain_bp7, env_snow = plain_snow,
      runtime = \<lparr>now = (\<lambda>_. 0), sleep_until = (\<lambda>_ s. s), getrandom = (\<lambda>s. (fill_array 0, s))\<rparr>,
      draw_ephemeral = (\<lambda>s. (fill_array 0, s)), transport = (\<lambda>_. world_transport (quic_transport no_mdns)),
      show_id = (\<lambda>_. []), recv_fuel = 1\<rparr>"

definition quic_node :: "unit QuicTransport NodeState" where
  "quic_node =
     fst (register_transport 0 (snd (node_new \<lparr>listen_port = None, cfg_store_ttl = None, cfg_max_queue_depth = None,
       max_key_registry_size = None\<rparr> (plain_identity first_byte_hash 1) (quic_new (V4 (fill_array 0) 9001) (fill_array 0) ()))))"

theorem listen_address_is_shared_witness:
  "\<exists>m s' q. monitor_init quic_node_env (\<lambda>_. Inr []) 0 0 (plain_identity first_byte_hash 1) quic_node = (Ready m, s') \<and>
    in_recovery m \<and> decode_addr_exchange (encode_addr_exchange (local_addresses quic_node_env s')) = Some [Quic (V4 (fill_array 0) q)]"
proof -
  let ?id = "plain_identity first_byte_hash 1" and ?w = "world quic_node"
  have "quic_start no_mdns ?id ?w =
      (Ready (Inl (Transport ''no multicast'')), ?w\<lparr>endpoint := Some 1, started_addr := Some (V4 (fill_array 0) 9001)\<rparr>)"
    by (simp add: quic_start_def run_calls make_server_config_def advertise_service_def no_mdns_def quic_node_def
        node_new_def quic_new_def register_transport_def try_await_def try_net_update)
  note start = this
  have "\<forall>ep addr. bound no_mdns (V4 (fill_array 0) 9001) ep addr \<longrightarrow> (\<exists>q. addr = V4 (fill_array 0) q)"
    by (auto simp: bound_def no_mdns_def)
  moreover have "transport quic_node_env 0 = world_transport (quic_transport no_mdns)"
    "transports quic_node = [\<lparr>entry_transport = 0, available = False\<rparr>]" "listen_addr ?w = V4 (fill_array 0) 9001" "endpoint ?w = None"
    by (simp_all add: quic_node_env_def quic_node_def node_new_def quic_new_def register_transport_def)
  moreover have "endpoint (?w\<lparr>endpoint := Some 1, started_addr := Some (V4 (fill_array 0) 9001)\<rparr>) \<noteq> None"
    by simp
  ultimately show ?thesis
    using listen_address_is_shared [OF _ _ _ _ _ start, of "fill_array 0" 9001 quic_node_env 0 "\<lambda>_. Inr []"] by simp
qed

end
