(* ===== verification/Ble_Advertising.thy ===== *)
theory Ble_Advertising
  imports Hex_Ids Dedup_Cache Bundle_Layer Noise_Session "HOL-Library.Sublist"
begin

text \<open>
  The BLE advertising transport: \<open>crates/pathweave-transport-ble/src/advertising.rs\<close> with its
  dispatcher and virtual connections, and the packet format of the Linux and Windows bearers
  in \<open>linux_adv.rs\<close> and \<open>windows_adv.rs\<close>.
\<close>

section \<open>Packets\<close>

definition HEADER_LEN :: nat where
  "HEADER_LEN = 16"

definition MAX_PAYLOAD_LEN :: nat where
  "MAX_PAYLOAD_LEN = 150"

definition ADV_DEDUP_TTL :: duration where
  "ADV_DEDUP_TTL = 2000"

definition MANUFACTURER_COMPANY_ID :: u16 where
  "MANUFACTURER_COMPANY_ID = 0xFFFF"

definition ADV_BEARER_MAGIC :: u8 where
  "ADV_BEARER_MAGIC = 0xC0"

definition encode_header :: "bytes8 \<Rightarrow> bytes8 \<Rightarrow> bytes" where
  "encode_header dest src = bytes_of dest @ bytes_of src"

definition decode_header :: "bytes \<Rightarrow> (bytes8 \<times> bytes8 \<times> bytes) option" where
  "decode_header bs =
     (if length bs < HEADER_LEN then None
      else case (array_of (take 8 bs), array_of (take 8 (drop 8 bs))) of
        (Some dest, Some src) \<Rightarrow> Some (dest, src, drop HEADER_LEN bs)
      | _ \<Rightarrow> None)"

text \<open>What the bearers put on the air, and what they pass on of what they hear.\<close>

definition bearer_data :: "bytes \<Rightarrow> (u16, bytes) hmap" where
  "bearer_data packet = [(MANUFACTURER_COMPANY_ID, ADV_BEARER_MAGIC # packet)]"

definition check_and_forward :: "(string + (u16, bytes) hmap option) \<Rightarrow> bytes option" where
  "check_and_forward r =
     (case r of
        Inr (Some manufacturer_data) \<Rightarrow>
          (case hm_get manufacturer_data MANUFACTURER_COMPANY_ID of
             None \<Rightarrow> None
           | Some data \<Rightarrow>
               (case data of
                  [] \<Rightarrow> None
                | first # rest \<Rightarrow> if first = ADV_BEARER_MAGIC then Some rest else None))
      | _ \<Rightarrow> None)"

section \<open>The state of the transport\<close>

text \<open>
  An unbounded channel: what is queued, and whether its receiver exists.  Its sender exists
  while some entry of the connection map leads to it.
\<close>

record Channel =
  chan_queue :: "bytes list"
  receiver :: bool

record BroadcastConnection =
  conn_local :: bytes8
  conn_peer :: bytes8
  inbound_rx :: nat

record AdvState =
  local_short_id :: "bytes8 option"
  connections :: "(bytes8, nat) hmap"
  channels :: "Channel list"
  incoming :: "BroadcastConnection list"
  incoming_rx :: bool
  announced :: "PeerAnnouncement list"
  dispatcher :: bool

definition with_bearer :: AdvState where
  "with_bearer =
     \<lparr>local_short_id = None, connections = [], channels = [], incoming = [], incoming_rx = True,
      announced = [], dispatcher = False\<rparr>"

text \<open>\<open>tx.send\<close>; it fails when the receiver is gone.\<close>

definition chan_send :: "nat \<Rightarrow> bytes \<Rightarrow> AdvState \<Rightarrow> AdvState" where
  "chan_send ch msg s =
     (if receiver (channels s ! ch)
      then s\<lparr>channels := (channels s)[ch := (channels s ! ch)\<lparr>chan_queue := chan_queue (channels s ! ch) @ [msg]\<rparr>]\<rparr>
      else s)"

definition new_channel :: "AdvState \<Rightarrow> nat \<times> AdvState" where
  "new_channel s = (length (channels s), s\<lparr>channels := channels s @ [\<lparr>chan_queue = [], receiver = True\<rparr>]\<rparr>)"

section \<open>Virtual connections\<close>

definition broadcast_send ::
  "(bytes \<Rightarrow> (unit result, 'b) future) \<Rightarrow> BroadcastConnection \<Rightarrow> bytes \<Rightarrow> (unit result, AdvState \<times> 'b) future" where
  "broadcast_send advertise c bs = on_snd (advertise (encode_header (conn_peer c) (conn_local c) @ bs))"

definition broadcast_recv :: "BroadcastConnection \<Rightarrow> (bytes result, AdvState \<times> 'b) future" where
  "broadcast_recv c = (\<lambda>(s, b).
     case chan_queue (channels s ! inbound_rx c) of
       msg # rest \<Rightarrow>
         (Ready (Inr msg),
          (s\<lparr>channels := (channels s)[inbound_rx c := (channels s ! inbound_rx c)\<lparr>chan_queue := rest\<rparr>]\<rparr>, b))
     | [] \<Rightarrow>
         if inbound_rx c \<in> snd ` set (connections s) then (Pending, (s, b))
         else (Ready (Inl (Transport ''ble-advertising connection closed'')), (s, b)))"

definition broadcast_connection ::
  "(bytes \<Rightarrow> (unit result, 'b) future) \<Rightarrow> BroadcastConnection \<Rightarrow> (AdvState \<times> 'b) Connection" where
  "broadcast_connection advertise c =
     \<lparr>send_bytes = broadcast_send advertise c, recv_bytes = broadcast_recv c,
      close_conn = (\<lambda>s. (Ready (Inr ()), s)), mtu = MAX_PAYLOAD_LEN\<rparr>"

text \<open>Dropping a connection drops its receiver.\<close>

definition drop_connection :: "BroadcastConnection \<Rightarrow> AdvState \<Rightarrow> AdvState" where
  "drop_connection c s =
     s\<lparr>channels := (channels s)[inbound_rx c := (channels s ! inbound_rx c)\<lparr>receiver := False\<rparr>]\<rparr>"

section \<open>The dispatcher\<close>

type_synonym recent = "(bytes8 \<times> u64, instant) hmap"

definition check_recent :: "instant \<Rightarrow> bytes8 \<times> u64 \<Rightarrow> recent \<Rightarrow> bool \<times> recent" where
  "check_recent t key m =
     (let m' = filter (\<lambda>(_, seen_at). fresh ADV_DEDUP_TTL t seen_at) m in
      if key \<in> fst ` set m' then (True, m') else (False, hm_insert key t m'))"

definition announce :: "bytes8 \<Rightarrow> AdvState \<Rightarrow> AdvState" where
  "announce src s =
     s\<lparr>announced := announced s @ [\<lparr>address = BleAdvertising (short_id_to_hex src), short_id = Some src\<rparr>]\<rparr>"

text \<open>A payload for this node: to the connection with its source, or to a new one.\<close>

definition route_payload :: "bytes8 \<Rightarrow> bytes8 \<Rightarrow> bytes \<Rightarrow> AdvState \<Rightarrow> bool \<times> AdvState" where
  "route_payload local src payload s =
     (case hm_get (connections s) src of
        Some ch \<Rightarrow> (True, chan_send ch payload s)
      | None \<Rightarrow>
          let (ch, s\<^sub>1) = new_channel s;
              s\<^sub>2 = chan_send ch payload s\<^sub>1;
              s\<^sub>3 = s\<^sub>2\<lparr>connections := hm_insert src ch (connections s\<^sub>2)\<rparr> in
          if incoming_rx s\<^sub>3
          then (True, s\<^sub>3\<lparr>incoming := incoming s\<^sub>3 @ [\<lparr>conn_local = local, conn_peer = src, inbound_rx = ch\<rparr>]\<rparr>)
          else (False, s\<^sub>3))"

text \<open>One turn of the loop; the first result is whether it goes on.\<close>

definition dispatch_packet ::
  "(bytes \<Rightarrow> u64) \<Rightarrow> bytes8 \<Rightarrow> instant \<Rightarrow> bytes \<Rightarrow> recent \<times> AdvState \<Rightarrow> bool \<times> recent \<times> AdvState" where
  "dispatch_packet hash_payload local t packet = (\<lambda>(m, s).
     case decode_header packet of
       None \<Rightarrow> (True, m, s)
     | Some (dest, src, payload) \<Rightarrow>
         if src = local then (True, m, s)
         else
           let (dup, m') = check_recent t (src, hash_payload payload) m in
           if dup then (True, m', s)
           else
             let s' = announce src s in
             if dest \<noteq> local then (True, m', s')
             else let (go_on, s'') = route_payload local src payload s' in (go_on, m', s''))"

fun adv_dispatch_loop ::
  "(bytes \<Rightarrow> u64) \<Rightarrow> bytes8 \<Rightarrow> (instant \<times> bytes) list \<Rightarrow> recent \<times> AdvState \<Rightarrow> recent \<times> AdvState" where
  "adv_dispatch_loop hash_payload local [] st = st"
| "adv_dispatch_loop hash_payload local ((t, packet) # scan) st =
     (let (go_on, st') = dispatch_packet hash_payload local t packet st in
      if go_on then adv_dispatch_loop hash_payload local scan st' else st')"

section \<open>The transport\<close>

definition adv_short_id :: "PeerId \<Rightarrow> bytes8" where
  "adv_short_id p = the (array_of (take 8 (bytes_of (as_bytes p))))"

text \<open>The loop that \<open>start\<close> spawns begins with an empty \<open>recent\<close>.\<close>

definition adv_start :: "NodeIdentity \<Rightarrow> AdvState \<Rightarrow> unit result \<times> AdvState" where
  "adv_start ident s =
     (Inr (), s\<lparr>local_short_id := Some (adv_short_id (peer_id ident)), dispatcher := True\<rparr>)"

definition adv_stop :: "AdvState \<Rightarrow> unit result \<times> AdvState" where
  "adv_stop s = (Inr (), s\<lparr>dispatcher := False, local_short_id := None, connections := []\<rparr>)"

definition adv_connect :: "PeerAnnouncement \<Rightarrow> AdvState \<Rightarrow> BroadcastConnection result panicking \<times> AdvState" where
  "adv_connect peer s =
     (case address peer of
        BleAdvertising hex_id \<Rightarrow>
          (case hex_to_short_id hex_id of
             Panic \<Rightarrow> (Panic, s)
           | Done None \<Rightarrow> (Done (Inl (Transport ''malformed BLE advertising short_id'')), s)
           | Done (Some peer_short_id) \<Rightarrow>
               (case local_short_id s of
                  None \<Rightarrow> (Done (Inl (Transport ''transport not started'')), s)
                | Some local \<Rightarrow>
                    let (ch, s') = new_channel s in
                    (Done (Inr \<lparr>conn_local = local, conn_peer = peer_short_id, inbound_rx = ch\<rparr>),
                     s'\<lparr>connections := hm_insert peer_short_id ch (connections s')\<rparr>)))
      | _ \<Rightarrow> (Done (Inl (Transport ''expected BLE advertising address'')), s))"

text \<open>The sender of the channel \<open>accept\<close> reads from is a field of the transport: it waits when empty.\<close>

definition adv_accept :: "(BroadcastConnection result, AdvState) future" where
  "adv_accept s =
     (case incoming s of
        [] \<Rightarrow> (Pending, s)
      | c # rest \<Rightarrow> (Ready (Inr c), s\<lparr>incoming := rest\<rparr>))"

definition adv_local_addresses :: "AdvState \<Rightarrow> PeerAddress list" where
  "adv_local_addresses s =
     (case local_short_id s of Some i \<Rightarrow> [BleAdvertising (short_id_to_hex i)] | None \<Rightarrow> [])"

declare map_of_eq_Some_iff [simp del]

section \<open>The window of the dispatcher is a cache with expiry\<close>

interpretation recent: ttl_cache check_recent "\<lambda>m k. hm_get m k" "\<lambda>_. ADV_DEDUP_TTL" hm_wf
proof unfold_locales
  fix m :: recent and now k k' t
  let ?m = "filter (\<lambda>(_, seen_at). fresh ADV_DEDUP_TTL now seen_at) m"
  assume wf: "hm_wf m"
  have key: "k \<in> fst ` set ?m \<longleftrightarrow> (\<exists>t. hm_get m k = Some t \<and> fresh ADV_DEDUP_TTL now t)"
    using hm_get_filter [OF wf, of "\<lambda>(_, seen_at). fresh ADV_DEDUP_TTL now seen_at" k] hm_get_None_iff [of ?m k]
    by (auto split: option.splits if_splits)
  show "fst (check_recent now k m) \<longleftrightarrow> (\<exists>t. hm_get m k = Some t \<and> fresh ADV_DEDUP_TTL now t)"
    unfolding key [symmetric] by (simp add: check_recent_def Let_def)
  show "hm_get m k' = Some t \<Longrightarrow> fresh ADV_DEDUP_TTL now t \<Longrightarrow> hm_get (snd (check_recent now k m)) k' = Some t"
    using wf key by (auto simp: check_recent_def Let_def hm_get_filter)
  show "\<not> fst (check_recent now k m) \<Longrightarrow> hm_get (snd (check_recent now k m)) k = Some now"
    by (auto simp: check_recent_def Let_def split: if_splits)
  show "hm_get (snd (check_recent now k m)) k' = Some t \<Longrightarrow> hm_get m k' = Some t \<or> k' = k \<and> t = now"
    using wf by (auto simp: check_recent_def Let_def hm_get_filter split: if_splits option.splits)
  show "hm_wf (snd (check_recent now k m))"
    using wf by (auto simp: check_recent_def Let_def)
qed simp

section \<open>Packets\<close>

lemma decode_encode_header [simp]: "decode_header (encode_header dest src @ payload) = Some (dest, src, payload)"
  by (simp add: decode_header_def encode_header_def HEADER_LEN_def)

lemma decode_header_iff:
  "decode_header bs = Some (dest, src, payload) \<longleftrightarrow> bs = encode_header dest src @ payload"
proof
  assume "decode_header bs = Some (dest, src, payload)"
  then have "bytes_of dest = take 8 bs" "bytes_of src = take 8 (drop 8 bs)" "payload = drop 16 bs" "16 \<le> length bs"
    by (auto simp: decode_header_def HEADER_LEN_def array_of_Some_iff split: if_splits option.splits)
  moreover have "take 8 (drop 8 bs) @ drop 16 bs = drop 8 bs"
    using append_take_drop_id [of 8 "drop 8 bs"] by simp
  ultimately show "bs = encode_header dest src @ payload"
    by (simp add: encode_header_def)
qed simp

lemma bearer_roundtrip: "check_and_forward (Inr (Some (bearer_data packet))) = Some packet"
  by (simp add: check_and_forward_def bearer_data_def)

section \<open>Connections and their channels\<close>

text \<open>Every entry of the connection map has a channel of its own.\<close>

definition adv_inv :: "AdvState \<Rightarrow> bool" where
  "adv_inv s \<longleftrightarrow> hm_wf (connections s) \<and> inj_on (hm_get (connections s)) (dom (hm_get (connections s))) \<and>
     ran (hm_get (connections s)) \<subseteq> {..<length (channels s)} \<and> incoming_rx s"

lemma adv_inv_start: "adv_inv with_bearer"
  by (simp add: adv_inv_def with_bearer_def)

lemma chan_send_simps [simp]:
  "connections (chan_send ch msg s) = connections s"
  "length (channels (chan_send ch msg s)) = length (channels s)"
  "incoming (chan_send ch msg s) = incoming s" "incoming_rx (chan_send ch msg s) = incoming_rx s"
  "ch' \<noteq> ch \<Longrightarrow> channels (chan_send ch msg s) ! ch' = channels s ! ch'"
  by (simp_all add: chan_send_def)

lemma chan_send_live:
  "ch < length (channels s) \<Longrightarrow> receiver (channels s ! ch) \<Longrightarrow>
     channels (chan_send ch msg s) ! ch = (channels s ! ch)\<lparr>chan_queue := chan_queue (channels s ! ch) @ [msg]\<rparr>"
  by (simp add: chan_send_def)

lemma adv_inv_insert:
  assumes "adv_inv s" "channels s' = channels s @ [c]" "incoming_rx s'"
    and "connections s' = hm_insert src (length (channels s)) (connections s)"
  shows "adv_inv s'"
proof -
  let ?m = "hm_get (connections s)"
  have m: "hm_wf (connections s)" "inj_on ?m (dom ?m)" "ran ?m \<subseteq> {..<length (channels s)}"
    using assms(1) by (simp_all add: adv_inv_def)
  have fresh: "?m x \<noteq> Some (length (channels s))" for x
    using m(3) by (auto simp: ran_def)
  have "inj_on (?m(src \<mapsto> length (channels s))) (insert src (dom ?m))"
    using m(2) fresh by (auto simp: inj_on_def)
  moreover have "ran (?m(src \<mapsto> length (channels s))) \<subseteq> {..<Suc (length (channels s))}"
    using m(3) by (auto simp: ran_def split: if_splits)
  ultimately show ?thesis
    using m(1) assms(2-4) by (simp add: adv_inv_def)
qed

lemma adv_inv_route:
  assumes "adv_inv s" "route_payload local src payload s = (go_on, s')"
  shows "adv_inv s' \<and> go_on"
proof (cases "hm_get (connections s) src")
  case None
  let ?s = "chan_send (length (channels s)) payload (s\<lparr>channels := channels s @ [\<lparr>chan_queue = [], receiver = True\<rparr>]\<rparr>)"
  have send: "channels ?s = channels s @ [\<lparr>chan_queue = [payload], receiver = True\<rparr>]"
    by (simp add: chan_send_def nth_append)
  have "go_on" "channels s' = channels ?s" "incoming_rx s'"
    "connections s' = hm_insert src (length (channels s)) (connections s)"
    using assms None by (auto simp: route_payload_def new_channel_def adv_inv_def)
  then show ?thesis
    using adv_inv_insert [OF assms(1)] send by auto
next
  case (Some ch)
  with assms show ?thesis by (auto simp: route_payload_def adv_inv_def)
qed

lemma route_payload_queue:
  assumes "adv_inv s" "route_payload local src' payload s = (go_on, s')"
    and ch: "hm_get (connections s) src = Some ch" "receiver (channels s ! ch)"
  shows "hm_get (connections s') src = Some ch \<and> receiver (channels s' ! ch) \<and>
    chan_queue (channels s' ! ch) = chan_queue (channels s ! ch) @ (if src' = src then [payload] else [])"
proof -
  have bound: "ch < length (channels s)"
    using assms(1) ranI [of "hm_get (connections s)" src ch] ch(1) by (auto simp: adv_inv_def simp del: ran_map_of)
  show ?thesis
  proof (cases "hm_get (connections s) src'")
    case None
    with ch(1) have "src' \<noteq> src" by auto
    with None assms(2) ch bound show ?thesis
      by (auto simp: route_payload_def new_channel_def nth_append chan_send_def Let_def split: if_splits)
  next
    case (Some ch')
    have "src' = src" if "ch' = ch"
      using assms(1) ch(1) Some that by (auto simp: adv_inv_def inj_on_def dom_def)
    with Some assms(2) ch bound show ?thesis
      by (cases "ch' = ch") (auto simp: route_payload_def chan_send_live)
  qed
qed


section \<open>What a receiver gets\<close>

text \<open>The key under which a packet is checked, unless it is malformed or an echo.\<close>

definition adv_key :: "(bytes \<Rightarrow> u64) \<Rightarrow> bytes8 \<Rightarrow> instant \<times> bytes \<Rightarrow> (instant \<times> bytes8 \<times> u64) option" where
  "adv_key hash local = (\<lambda>(t, packet).
     case decode_header packet of
       Some (dest, src, payload) \<Rightarrow> if src = local then None else Some (t, src, hash payload)
     | None \<Rightarrow> None)"

definition payload_from :: "bytes8 \<Rightarrow> bytes8 \<Rightarrow> instant \<times> bytes \<Rightarrow> bytes option" where
  "payload_from local src = (\<lambda>(t, packet).
     case decode_header packet of
       Some (dest, src', payload) \<Rightarrow> if dest = local \<and> src' = src then Some payload else None
     | None \<Rightarrow> None)"

text \<open>The connection with \<open>src\<close> reads from channel \<open>ch\<close>, which has got \<open>msgs\<close>.\<close>

definition reads_from :: "bytes8 \<Rightarrow> nat \<Rightarrow> bytes list \<Rightarrow> AdvState \<Rightarrow> bool" where
  "reads_from src ch msgs s \<longleftrightarrow> adv_inv s \<and> hm_get (connections s) src = Some ch \<and>
     receiver (channels s ! ch) \<and> chan_queue (channels s ! ch) = msgs"

lemma reads_from_announce: "reads_from src ch msgs s \<Longrightarrow> reads_from src ch msgs (announce x s)"
  by (simp add: reads_from_def announce_def adv_inv_def)

lemma reads_from_route:
  assumes "reads_from src ch msgs s" "route_payload local src' payload s = (go_on, s')"
  shows "go_on \<and> reads_from src ch (msgs @ (if src' = src then [payload] else [])) s'"
  using route_payload_queue [OF _ assms(2), of src ch] adv_inv_route [OF _ assms(2)] assms(1)
  by (auto simp: reads_from_def)

lemma dispatch_packet_reads:
  assumes "reads_from src ch msgs s" "src \<noteq> local"
  obtains (ignored) "adv_key hash local (t, packet) = None" "dispatch_packet hash local t packet (m, s) = (True, m, s)"
      "payload_from local src (t, packet) = None"
  | (duplicate) k where "adv_key hash local (t, packet) = Some (t, k)" "fst (check_recent t k m)"
      "dispatch_packet hash local t packet (m, s) = (True, snd (check_recent t k m), s)"
  | (passed) k s' where "adv_key hash local (t, packet) = Some (t, k)" "\<not> fst (check_recent t k m)"
      "dispatch_packet hash local t packet (m, s) = (True, snd (check_recent t k m), s')"
      "reads_from src ch (msgs @ (case payload_from local src (t, packet) of None \<Rightarrow> [] | Some b \<Rightarrow> [b])) s'"
proof (cases "decode_header packet")
  case None
  then show ?thesis by (intro ignored) (simp_all add: adv_key_def dispatch_packet_def payload_from_def)
next
  case (Some x)
  obtain dest src' payload where x: "x = (dest, src', payload)" by (cases x)
  show ?thesis
  proof (cases "src' = local")
    case True
    with Some x assms(2) show ?thesis
      by (intro ignored) (simp_all add: adv_key_def dispatch_packet_def payload_from_def)
  next
    case False
    let ?k = "(src', hash payload)"
    have key: "adv_key hash local (t, packet) = Some (t, ?k)"
      using Some x False by (simp add: adv_key_def)
    show ?thesis
    proof (cases "fst (check_recent t ?k m)")
      case True
      with Some x False key show ?thesis
        by (intro duplicate [of ?k]) (simp_all add: dispatch_packet_def case_prod_beta)
    next
      case new: False
      show ?thesis
      proof (cases "dest = local")
        case True
        obtain go_on s' where route: "route_payload local src' payload (announce src' s) = (go_on, s')"
          by (cases "route_payload local src' payload (announce src' s)")
        note reads = reads_from_route [OF reads_from_announce [OF assms(1)] route]
        show ?thesis
          by (rule passed [OF key new, of s'])
             (use Some x False new True route reads in \<open>auto simp: dispatch_packet_def case_prod_beta payload_from_def\<close>)
      next
        case other: False
        show ?thesis
          by (rule passed [OF key new, of "announce src' s"])
             (use Some x False new other reads_from_announce [OF assms(1)] in
               \<open>simp_all add: dispatch_packet_def case_prod_beta payload_from_def\<close>)
      qed
    qed
  qed
qed

lemma dispatch_loop_reads:
  assumes "src \<noteq> local"
  shows "reads_from src ch msgs s \<Longrightarrow> \<exists>passed m' s'.
    adv_dispatch_loop hash local evs (m, s) = (m', s') \<and> subseq passed evs \<and>
    map (adv_key hash local) passed = map Some (accepted check_recent (List.map_filter (adv_key hash local) evs) m) \<and>
    reads_from src ch (msgs @ List.map_filter (payload_from local src) passed) s'"
proof (induction evs arbitrary: msgs m s)
  case Nil
  then have "\<exists>m' s'. adv_dispatch_loop hash local [] (m, s) = (m', s') \<and> reads_from src ch msgs s'" by simp
  then show ?case by (auto simp: List.map_filter_simps intro!: exI [of _ "[]"])
next
  case (Cons ev evs)
  obtain t packet where ev: "ev = (t, packet)" by (cases ev)
  from Cons.prems assms show ?case
  proof (cases rule: dispatch_packet_reads [of src ch msgs s local hash t packet m])
    case ignored
    from Cons.IH [OF Cons.prems, of m] ignored show ?thesis
      by (auto simp: ev List.map_filter_simps)
  next
    case (duplicate k)
    from Cons.IH [OF Cons.prems, of "snd (check_recent t k m)"] duplicate show ?thesis
      by (auto simp: ev List.map_filter_simps)
  next
    case (passed k s')
    from Cons.IH [OF passed(4), of "snd (check_recent t k m)"] obtain ps m' s'' where
      "adv_dispatch_loop hash local evs (snd (check_recent t k m), s') = (m', s'')" "subseq ps evs"
      "map (adv_key hash local) ps =
         map Some (accepted check_recent (List.map_filter (adv_key hash local) evs) (snd (check_recent t k m)))"
      "reads_from src ch ((msgs @ (case payload_from local src (t, packet) of None \<Rightarrow> [] | Some b \<Rightarrow> [b])) @
         List.map_filter (payload_from local src) ps) s''"
      by blast
    with passed show ?thesis
      by (intro exI [of _ "(t, packet) # ps"] exI [of _ m'] exI [of _ s''])
         (auto simp: ev List.map_filter_simps split: option.splits)
  qed
qed

lemma adv_key_time: "adv_key hash local ev = Some k \<Longrightarrow> fst k = fst ev"
  by (cases ev) (auto simp: adv_key_def split: option.splits if_splits)

lemma times_map_filter:
  "fst ` set (List.map_filter (adv_key hash local) evs) \<subseteq> fst ` set evs"
proof (induction evs)
  case (Cons ev evs)
  then show ?case
    by (cases "adv_key hash local ev") (auto simp: List.map_filter_simps adv_key_time)
qed (simp add: List.map_filter_simps)

lemma sorted_map_filter_times:
  "sorted (map fst evs) \<Longrightarrow> sorted (map fst (List.map_filter (adv_key hash local) evs))"
proof (induction evs)
  case (Cons ev evs)
  have le: "fst ev \<le> t" if "t \<in> fst ` set (List.map_filter (adv_key hash local) evs)" for t
  proof -
    have "t \<in> fst ` set evs" using times_map_filter that by blast
    with Cons.prems show ?thesis by auto
  qed
  from Cons have "sorted (map fst (List.map_filter (adv_key hash local) evs))" by simp
  with le show ?case
    by (cases "adv_key hash local ev") (simp_all add: List.map_filter_simps adv_key_time)
qed (simp add: List.map_filter_simps)

lemma passed_keys:
  assumes "map f passed = map Some ks"
  shows "(\<forall>ev \<in> set passed. f ev \<noteq> None) \<and> map (the \<circ> f) passed = ks"
proof (intro conjI ballI)
  show "f ev \<noteq> None" if "ev \<in> set passed" for ev
    using that arg_cong [OF assms, of set] by auto
  show "map (the \<circ> f) passed = ks"
    using arg_cong [OF assms, of "map the"] by (simp add: comp_def)
qed

section \<open>A connection that was dropped\<close>

lemma route_payload_dead:
  assumes "hm_get (connections s) src = Some ch" "\<not> receiver (channels s ! ch)"
  shows "route_payload local src payload s = (True, s)"
  using assms by (simp add: route_payload_def chan_send_def)

lemma dispatch_loop_dead:
  assumes "\<forall>(t, packet) \<in> set evs. \<exists>dest payload. packet = encode_header dest src @ payload"
  shows "hm_get (connections s) src = Some ch \<Longrightarrow> \<not> receiver (channels s ! ch) \<Longrightarrow>
    adv_dispatch_loop hash local evs (m, s) = (m', s') \<Longrightarrow>
    channels s' = channels s \<and> incoming s' = incoming s \<and> connections s' = connections s"
  using assms
proof (induction evs arbitrary: m s)
  case (Cons ev evs)
  obtain t dest payload where ev: "ev = (t, encode_header dest src @ payload)"
    using Cons.prems(4) by (cases ev) auto
  have dead: "route_payload local src payload (announce src s) = (True, announce src s)"
    by (rule route_payload_dead [of _ _ ch]) (use Cons.prems(1,2) in \<open>simp_all add: announce_def\<close>)
  obtain dup mm where check: "check_recent t (src, hash payload) m = (dup, mm)"
    by (cases "check_recent t (src, hash payload) m")
  let ?m\<^sub>1 = "if src = local then m else mm" and ?s\<^sub>1 = "if src = local \<or> dup then s else announce src s"
  have step: "dispatch_packet hash local t (encode_header dest src @ payload) (m, s) = (True, ?m\<^sub>1, ?s\<^sub>1)"
    by (simp add: dispatch_packet_def check dead Let_def)
  have same: "channels ?s\<^sub>1 = channels s" "incoming ?s\<^sub>1 = incoming s" "connections ?s\<^sub>1 = connections s"
    by (auto simp: announce_def)
  have "adv_dispatch_loop hash local evs (?m\<^sub>1, ?s\<^sub>1) = (m', s')"
    using Cons.prems(3) unfolding ev adv_dispatch_loop.simps step by simp
  from Cons.IH [OF _ _ this] Cons.prems(1,2,4) show ?case unfolding same by simp
qed simp

section \<open>The first packet of a connection\<close>

text \<open>A bearer that records what is advertised.\<close>

definition record_packet :: "bytes \<Rightarrow> (unit result, bytes list) future" where
  "record_packet packet air = (Ready (Inr ()), air @ [packet])"

text \<open>What a connection puts on the air does not depend on the state of the transport.\<close>

definition on_air :: "bytes8 \<Rightarrow> bytes8 \<Rightarrow> bytes list Connection" where
  "on_air dest src =
     \<lparr>send_bytes = (\<lambda>bs. record_packet (encode_header dest src @ bs)), recv_bytes = (\<lambda>air. (Pending, air)),
      close_conn = (\<lambda>air. (Ready (Inr ()), air)), mtu = MAX_PAYLOAD_LEN\<rparr>"

lemma broadcast_on_air:
  "send_bytes (broadcast_connection record_packet c) bs (a, air) =
     (fst (send_bytes (on_air (conn_peer c) (conn_local c)) bs air),
      (a, snd (send_bytes (on_air (conn_peer c) (conn_local c)) bs air)))"
  by (simp add: broadcast_connection_def broadcast_send_def on_air_def)

lemma fragments_on_air:
  "send_fragments bp (broadcast_connection record_packet c) eid ts bs n off (a, air) =
     (fst (send_fragments bp (on_air (conn_peer c) (conn_local c)) eid ts bs n off air),
      (a, snd (send_fragments bp (on_air (conn_peer c) (conn_local c)) eid ts bs n off air)))"
proof (induction "length bs - off" arbitrary: off air rule: less_induct)
  case less
  let ?stop = "min (off + n) (length bs)"
  show ?case
  proof (cases "off < length bs \<and> 0 < n")
    case True
    then have "length bs - ?stop < length bs - off" by auto
    note IH = less.hyps [OF this]
    note unfold = send_fragments.simps [of bp "broadcast_connection record_packet c" eid ts bs n off "(a, air)"]
      send_fragments.simps [of bp "on_air (conn_peer c) (conn_local c)" eid ts bs n off air]
    show ?thesis
      unfolding unfold using True IH
      by (simp add: Let_def try_await_def broadcast_on_air record_packet_def split: sum.splits)
         (simp add: on_air_def record_packet_def)
  next
    case False
    note unfold = send_fragments.simps [of bp "broadcast_connection record_packet c" eid ts bs n off "(a, air)"]
      send_fragments.simps [of bp "on_air (conn_peer c) (conn_local c)" eid ts bs n off air]
    show ?thesis unfolding unfold if_not_P [OF False] by simp
  qed
qed

lemma bundle_on_air:
  "bundle_send bp (broadcast_connection record_packet c) bs (bl, (a, air)) =
     (let r = bundle_send bp (on_air (conn_peer c) (conn_local c)) bs (bl, air) in
      (fst r, (fst (snd r), (a, snd (snd r)))))"
proof -
  have "mtu (broadcast_connection record_packet c) = mtu (on_air (conn_peer c) (conn_local c))"
    by (simp add: broadcast_connection_def on_air_def)
  then show ?thesis
    by (simp add: bundle_send_def try_now_def Let_def ready_def broadcast_on_air fragments_on_air split: sum.splits)
qed

section \<open>Properties\<close>

lemma map_key_pair:
  assumes "map (adv_key hash local) passed = map Some ks"
  shows "map (\<lambda>ev. the (adv_key hash local ev)) passed = ks"
  using arg_cong [OF assms, of "map the"] by (simp add: comp_def)


definition adv_peer :: AdvState where
  "adv_peer = with_bearer\<lparr>local_short_id := Some (fill_array 1), connections := [(fill_array 2, 0)],
     channels := [\<lparr>chan_queue = [], receiver = True\<rparr>]\<rparr>"

lemma adv_peer_reads: "reads_from (fill_array 2) 0 [] adv_peer"
  by (simp add: reads_from_def adv_peer_def with_bearer_def adv_inv_def)


text \<open>
  Once a connection has been dropped, its peer is cut off.  The entry of the peer stays in
  the map after the receiver is gone; whatever the peer sends from then on is delivered to
  no connection and opens no new one.
\<close>

theorem dropped_connection_cuts_peer_off:
  assumes "hm_get (connections s) src = Some (inbound_rx c)" "inbound_rx c < length (channels s)"
    and "\<forall>(t, packet) \<in> set evs. \<exists>dest payload. packet = encode_header dest src @ payload"
    and "adv_dispatch_loop hash local evs (m, drop_connection c s) = (m', s')"
  shows "incoming s' = incoming s \<and> channels s' = channels (drop_connection c s) \<and>
    hm_get (connections s') src = Some (inbound_rx c)"
proof -
  have "hm_get (connections (drop_connection c s)) src = Some (inbound_rx c)"
    "\<not> receiver (channels (drop_connection c s) ! inbound_rx c)"
    using assms(1,2) by (simp_all add: drop_connection_def)
  from dispatch_loop_dead [OF assms(3) this assms(4)] assms(1) show ?thesis
    by (simp add: drop_connection_def)
qed

theorem dropped_connection_cuts_peer_off_witness:
  "let c = \<lparr>conn_local = fill_array 1, conn_peer = fill_array 2, inbound_rx = 0\<rparr>;
       s' = snd (adv_dispatch_loop (\<lambda>p. of_nat (length p)) (fill_array 1)
         [(0, encode_header (fill_array 1) (fill_array 2) @ [7])] ([], drop_connection c adv_peer)) in
   incoming s' = [] \<and> channels s' = [\<lparr>chan_queue = [], receiver = False\<rparr>]"
proof -
  let ?c = "\<lparr>conn_local = fill_array 1, conn_peer = fill_array 2, inbound_rx = 0\<rparr>"
  let ?evs = "[(0, encode_header (fill_array 1) (fill_array 2) @ [7])]"
  have prems: "hm_get (connections adv_peer) (fill_array 2) = Some (inbound_rx ?c)" "inbound_rx ?c < length (channels adv_peer)"
    "\<forall>(t, packet) \<in> set ?evs. \<exists>dest payload. packet = encode_header dest (fill_array 2) @ payload"
    by (auto simp: adv_peer_def)
  have "drop_connection ?c adv_peer = adv_peer\<lparr>channels := [\<lparr>chan_queue = [], receiver = False\<rparr>]\<rparr>" "incoming adv_peer = []"
    by (simp_all add: drop_connection_def adv_peer_def with_bearer_def)
  with dropped_connection_cuts_peer_off [OF prems surjective_pairing, of "\<lambda>p. of_nat (length p)" "fill_array 1" "[]"]
  show ?thesis by (simp add: Let_def)
qed

text \<open>
  A second attempt within two seconds loses its first packet.  The bundle layer numbers
  from zero for every connection and its timestamps are constant, so the bundle with the
  pattern byte that opens a handshake is the same in every connection to the same peer; the
  peer's dispatcher takes it for a repetition and drops it.  The router repeats a failed send
  after one second.
\<close>

theorem retried_handshake_is_dropped:
  assumes "conn_local c' = conn_local c" "conn_peer c' = conn_peer c" "conn_local c \<noteq> conn_peer c"
    and "bundle_send bp (broadcast_connection record_packet c) [PROTO_XX] (bundle_new, (a, [])) =
      (Ready (Inr ()), (bl, (a, [encode_header (conn_peer c) (conn_local c) @ payload])))"
    and "hm_wf m" "hm_get m (conn_local c, hash payload) = None"
    and "dispatch_packet hash (conn_peer c) t (encode_header (conn_peer c) (conn_local c) @ payload) (m, s) =
      (go_on, m', s')"
    and "t \<le> t'" "t' < t + ADV_DEDUP_TTL"
  shows "\<exists>bl' packet. bundle_send bp (broadcast_connection record_packet c') [PROTO_XX] (bundle_new, (a', [])) =
      (Ready (Inr ()), (bl', (a', [packet]))) \<and>
    (\<exists>m''. dispatch_packet hash (conn_peer c) t' packet (m', s'') = (True, m'', s''))"
proof -
  let ?key = "(conn_local c, hash payload)"
  have again: "bundle_send bp (broadcast_connection record_packet c') [PROTO_XX] (bundle_new, (a', [])) =
      (Ready (Inr ()), (bl, (a', [encode_header (conn_peer c) (conn_local c) @ payload])))"
    using assms(4) by (simp add: bundle_on_air assms(1,2) Let_def prod_eq_iff)
  have new: "\<not> fst (check_recent t ?key m)"
    using recent.verdict [OF assms(5), of t ?key] assms(6) by simp
  have m': "m' = snd (check_recent t ?key m)"
    using assms(3,7) by (auto simp: dispatch_packet_def Let_def split: prod.splits if_splits)
  have "fresh ADV_DEDUP_TTL t' t"
    using assms(8,9) by (simp add: fresh_iff ADV_DEDUP_TTL_def)
  then have "fst (check_recent t' ?key m')"
    using recent.verdict [OF recent.inv_check [OF assms(5)], of t' ?key t ?key]
      recent.records [OF assms(5) new] by (simp add: m')
  then have "dispatch_packet hash (conn_peer c) t' (encode_header (conn_peer c) (conn_local c) @ payload) (m', s'') =
      (True, snd (check_recent t' ?key m'), s'')"
    using assms(3) by (simp add: dispatch_packet_def Let_def case_prod_beta)
  with again show ?thesis by blast
qed

theorem retried_handshake_is_dropped_witness:
  "let c = \<lparr>conn_local = fill_array 2, conn_peer = fill_array 1, inbound_rx = 0\<rparr>;
       (go_on, m', s') = dispatch_packet (\<lambda>p. of_nat (length p)) (fill_array 1) 0
         (encode_header (fill_array 1) (fill_array 2) @
           encode plain_bp7 (whole_primary plain_bp7 True (DTN_TIME_EPOCH, 0)) [PROTO_XX]) ([], with_bearer) in
   \<exists>bl packet. bundle_send plain_bp7 (broadcast_connection record_packet c) [PROTO_XX] (bundle_new, (with_bearer, [])) =
      (Ready (Inr ()), (bl, (with_bearer, [packet]))) \<and>
    (\<exists>m''. dispatch_packet (\<lambda>p. of_nat (length p)) (fill_array 1) 1500 packet (m', s') = (True, m'', s'))"
proof -
  let ?c = "\<lparr>conn_local = fill_array 2, conn_peer = fill_array 1, inbound_rx = 0\<rparr>"
  let ?payload = "encode plain_bp7 (whole_primary plain_bp7 True (DTN_TIME_EPOCH, 0)) [PROTO_XX]"
  have sent: "bundle_send plain_bp7 (broadcast_connection record_packet ?c) [PROTO_XX] (bundle_new, (with_bearer, [])) =
      (Ready (Inr ()), (bundle_new\<lparr>seq := 1\<rparr>, (with_bearer, [encode_header (conn_peer ?c) (conn_local ?c) @ ?payload])))"
    unfolding bundle_on_air bundle_send_frames [OF plain_bp7_ok]
    by (simp add: plain_frames on_air_def MAX_PAYLOAD_LEN_def record_packet_def bundle_new_def Let_def)
  obtain go_on m' s' where first: "dispatch_packet (\<lambda>p. of_nat (length p)) (conn_peer ?c) 0
      (encode_header (conn_peer ?c) (conn_local ?c) @ ?payload) ([], with_bearer) = (go_on, m', s')"
    by (rule prod_cases3)
  have "conn_local ?c \<noteq> conn_peer ?c" "hm_wf ([] :: recent)" "hm_get ([] :: recent) k = None"
    "(0::nat) \<le> 1500" "1500 < 0 + ADV_DEDUP_TTL" for k
    by (simp_all add: ADV_DEDUP_TTL_def)
  note prems = this
  from retried_handshake_is_dropped [OF refl refl prems(1) sent prems(2,3) first prems(4,5), of with_bearer s'] first
  show ?thesis by (simp add: Let_def)
qed

end
