(* ===== verification/Bluetooth.thy ===== *)
theory Bluetooth
  imports Quic Ble_Advertising
begin

text \<open>
  What the BLE transports use of the Bluetooth stacks: BlueZ through the crate bluer, and
  WinRT.  They are arguments of the definitions of the transports.
\<close>

section \<open>Calls of a stack\<close>

text \<open>\<open>map_err\<close> with the text of the error, for operations that are awaited and for those that are called.\<close>

definition tried :: "(string + 'a, 'n) future \<Rightarrow> ('a result, 'n) future" where
  "tried m = await m (\<lambda>r. ready (transport_err r))"

definition called :: "(string + 'a, 'n) call \<Rightarrow> ('a result, 'n) future" where
  "called c = tried (update c)"

lemma try_await_Inr_iff:
  "try_await m k s = (Ready (Inr b), s') \<longleftrightarrow> (\<exists>a s\<^sub>1. m s = (Ready (Inr a), s\<^sub>1) \<and> k a s\<^sub>1 = (Ready (Inr b), s'))"
  by (auto simp: try_await_def split: prod.splits poll.splits sum.splits)

lemma on_snd_iff: "on_snd m st = (r, st') \<longleftrightarrow> fst st' = fst st \<and> m (snd st) = (r, snd st')"
  by (cases st; cases st'; auto simp: on_snd_def split: prod.splits)

lemma tried_Inr_iff [simp]: "tried m s = (Ready (Inr a), s') \<longleftrightarrow> m s = (Ready (Inr a), s')"
  by (auto simp: tried_def await_def ready_def transport_err_def split: prod.splits poll.splits sum.splits)

lemma tried_ready [simp]: "tried (ready r) = ready (transport_err r)"
  by (rule ext) (simp add: tried_def await_def ready_def)

lemma called_Inr_iff [simp]: "called c s = (Ready (Inr a), s') \<longleftrightarrow> c s = (Inr a, s')"
  by (auto simp: called_def update_def split: prod.splits)

text \<open>An operation that always succeeds.\<close>

named_theorems succeeds_intros

definition succeeds :: "('a result, 's) future \<Rightarrow> bool" where
  "succeeds m \<longleftrightarrow> (\<forall>s. \<exists>a s'. m s = (Ready (Inr a), s'))"

lemma succeeds_try_await [succeeds_intros]: "succeeds m \<Longrightarrow> (\<And>a. succeeds (k a)) \<Longrightarrow> succeeds (try_await m k)"
  unfolding succeeds_def try_await_Inr_iff by meson

lemma succeeds_await [succeeds_intros]: "(\<And>s. \<exists>a s'. m s = (Ready a, s')) \<Longrightarrow> (\<And>a. succeeds (k a)) \<Longrightarrow> succeeds (await m k)"
  unfolding succeeds_def by (metis (no_types, lifting) await_def case_prod_conv poll.case(1))

lemma succeeds_called [succeeds_intros]: "(\<And>s. \<exists>a s'. c s = (Inr a, s')) \<Longrightarrow> succeeds (called c)"
  by (simp add: succeeds_def)

lemma succeeds_ready [succeeds_intros]: "succeeds (ready (Inr a))"
  by (simp add: succeeds_def ready_def)

text \<open>
  What a call does to a view of the state when it succeeds, given its result.  The documentation
  of the libraries is stated with it.
\<close>

definition acts :: "('n \<Rightarrow> 'v) \<Rightarrow> (string + 'a, 'n) call \<Rightarrow> ('a \<Rightarrow> 'v \<Rightarrow> 'v) \<Rightarrow> bool" where
  "acts view c effect \<longleftrightarrow> (\<forall>n a n'. c n = (Inr a, n') \<longrightarrow> view n' = effect a (view n))"

lemma actsD: "acts view c effect \<Longrightarrow> c n = (Inr a, n') \<Longrightarrow> view n' = effect a (view n)"
  by (simp add: acts_def)

section \<open>BlueZ\<close>

type_synonym uuid = bytes16

datatype AdvertisementType = Broadcast | AsPeripheral

datatype SecondaryChannel = OneM | TwoM | Coded

record Advertisement =
  advertisement_type :: AdvertisementType
  adv_service_uuids :: "uuid list"
  adv_service_data :: "(uuid, bytes) hmap"
  adv_manufacturer_data :: "(u16, bytes) hmap"
  secondary_channel :: "SecondaryChannel option"

text \<open>A characteristic of a GATT server, with its control handle; the options are what the code sets of them.\<close>

record LocalCharacteristic =
  lc_uuid :: uuid
  lc_write_without_response :: "bool option"
  lc_notify :: "bool option"
  lc_control :: handle

record LocalService =
  ls_uuid :: uuid
  ls_primary :: bool
  ls_characteristics :: "LocalCharacteristic list"

datatype AdapterEvent = DeviceAdded bytes | OtherAdapterEvent

text \<open>
  An advertisement is withdrawn when its handle is dropped, and an application likewise.  The
  next event of a device is only whether there is one.
\<close>

record 'n Bluer =
  bluer_session :: "(string + handle, 'n) future"
  bluer_default_adapter :: "handle \<Rightarrow> (string + handle, 'n) future"
  bluer_advertise :: "handle \<Rightarrow> Advertisement \<Rightarrow> (string + handle, 'n) future"
  bluer_withdraw :: "handle \<Rightarrow> 'n \<Rightarrow> 'n"
  bluer_control :: "(handle, 'n) call"
  bluer_serve :: "handle \<Rightarrow> LocalService list \<Rightarrow> (string + handle, 'n) future"
  bluer_discover :: "handle \<Rightarrow> (string + handle, 'n) future"
  bluer_event :: "handle \<Rightarrow> (AdapterEvent option, 'n) future"
  bluer_device :: "handle \<Rightarrow> bytes \<Rightarrow> 'n \<Rightarrow> string + handle"
  bluer_device_events :: "handle \<Rightarrow> (string + handle, 'n) future"
  bluer_device_event :: "handle \<Rightarrow> (bool, 'n) future"
  bluer_manufacturer_data :: "handle \<Rightarrow> (string + (u16, bytes) hmap option, 'n) future"
  bluer_runtime :: "'n Runtime"

text \<open>
  What BlueZ has in the air and serves in a state, for the handles it has given out, and what is
  documented: what was accepted is in the air, or served, under a new handle until the handle is
  dropped; a call that is refused, and the other calls, change nothing of it.
\<close>

record Bluer_Objects =
  bluer_aired :: "handle \<Rightarrow> Advertisement option"
  bluer_served :: "handle \<Rightarrow> LocalService list option"

definition quiet :: "('n \<Rightarrow> 'v) \<Rightarrow> ('a, 'n) future \<Rightarrow> bool" where
  "quiet view m \<longleftrightarrow> (\<forall>n. view (snd (m n)) = view n)"

definition withdraws :: "handle \<Rightarrow> Bluer_Objects \<Rightarrow> Bluer_Objects" where
  "withdraws h v = v\<lparr>bluer_aired := (bluer_aired v)(h := None), bluer_served := (bluer_served v)(h := None)\<rparr>"

definition bluer_ok :: "'n Bluer \<times> ('n \<Rightarrow> Bluer_Objects) \<Rightarrow> bool" where
  "bluer_ok = (\<lambda>(env, view).
     (\<forall>a adv n h n'. bluer_advertise env a adv n = (Ready (Inr h), n') \<longrightarrow>
        view n' = (view n)\<lparr>bluer_aired := (bluer_aired (view n))(h \<mapsto> adv)\<rparr> \<and>
        bluer_aired (view n) h = None \<and> bluer_served (view n) h = None) \<and>
     (\<forall>a app n h n'. bluer_serve env a app n = (Ready (Inr h), n') \<longrightarrow>
        view n' = (view n)\<lparr>bluer_served := (bluer_served (view n))(h \<mapsto> app)\<rparr> \<and>
        bluer_aired (view n) h = None \<and> bluer_served (view n) h = None) \<and>
     (\<forall>a adv n e n'. bluer_advertise env a adv n = (Ready (Inl e), n') \<longrightarrow> view n' = view n) \<and>
     (\<forall>a app n e n'. bluer_serve env a app n = (Ready (Inl e), n') \<longrightarrow> view n' = view n) \<and>
     quiet view (bluer_session env) \<and> (\<forall>h. quiet view (bluer_default_adapter env h)) \<and> quiet view (update (bluer_control env)) \<and>
     (\<forall>h n. view (bluer_withdraw env h n) = withdraws h (view n)))"

lemma bluer_okD:
  assumes "bluer_ok (env, view)"
  shows "bluer_advertise env a adv n = (Ready (Inr h), n') \<Longrightarrow>
      view n' = (view n)\<lparr>bluer_aired := (bluer_aired (view n))(h \<mapsto> adv)\<rparr> \<and>
      bluer_aired (view n) h = None \<and> bluer_served (view n) h = None"
    "bluer_serve env a app n = (Ready (Inr h), n') \<Longrightarrow>
      view n' = (view n)\<lparr>bluer_served := (bluer_served (view n))(h \<mapsto> app)\<rparr> \<and>
      bluer_aired (view n) h = None \<and> bluer_served (view n) h = None"
    "bluer_advertise env a adv n = (Ready (Inl e), n') \<Longrightarrow> view n' = view n"
    "bluer_serve env a app n = (Ready (Inl e), n') \<Longrightarrow> view n' = view n"
    "view (snd (bluer_session env n)) = view n" "view (snd (bluer_default_adapter env h n)) = view n"
    "view (snd (bluer_control env n)) = view n" "view (bluer_withdraw env h n) = withdraws h (view n)"
  using assms by (simp_all add: bluer_ok_def quiet_def update_def case_prod_beta)

section \<open>WinRT\<close>

text \<open>Buffers, which are written with a writer and read with a reader.\<close>

record 'n Winrt_Buffers =
  data_writer_new :: "(string + handle, 'n) call"
  write_bytes :: "handle \<Rightarrow> bytes \<Rightarrow> (string + unit, 'n) call"
  detach_buffer :: "handle \<Rightarrow> (string + handle, 'n) call"
  reader_from_buffer :: "handle \<Rightarrow> (string + handle, 'n) call"
  unconsumed_length :: "handle \<Rightarrow> (string + u32, 'n) call"
  read_bytes :: "handle \<Rightarrow> nat \<Rightarrow> (string + bytes, 'n) call"

definition bytes_to_ibuffer :: "('n, 'z) Winrt_Buffers_scheme \<Rightarrow> bytes \<Rightarrow> (handle result, 'n) future" where
  "bytes_to_ibuffer env bs =
     try_await (called (data_writer_new env)) (\<lambda>writer.
     try_await (called (write_bytes env writer bs)) (\<lambda>_.
     called (detach_buffer env writer)))"

text \<open>Reading a whole buffer, as the callbacks do.\<close>

definition read_buffer :: "('n, 'z) Winrt_Buffers_scheme \<Rightarrow> handle \<Rightarrow> (bytes result, 'n) future" where
  "read_buffer env buffer =
     try_await (called (reader_from_buffer env buffer)) (\<lambda>reader.
     try_await (called (unconsumed_length env reader)) (\<lambda>len.
     called (read_bytes env reader (unat len))))"

text \<open>
  What the objects of the library hold in a state, and what is documented of the operations: a
  new writer is empty, writing appends, and a detached buffer holds what was written.
\<close>

record Winrt_Objects =
  writers :: "handle \<Rightarrow> bytes"
  buffers :: "handle \<Rightarrow> bytes"

definition writes :: "handle \<Rightarrow> bytes \<Rightarrow> 'o Winrt_Objects_scheme \<Rightarrow> 'o Winrt_Objects_scheme" where
  "writes w bs v = v\<lparr>writers := (writers v)(w := bs)\<rparr>"

definition detaches :: "handle \<Rightarrow> handle \<Rightarrow> 'o Winrt_Objects_scheme \<Rightarrow> 'o Winrt_Objects_scheme" where
  "detaches w b v = v\<lparr>buffers := (buffers v)(b := writers v w)\<rparr>"

definition buffers_ok :: "('n, 'z) Winrt_Buffers_scheme \<Rightarrow> ('n \<Rightarrow> 'o Winrt_Objects_scheme) \<Rightarrow> bool" where
  "buffers_ok env view \<longleftrightarrow>
     acts view (data_writer_new env) (\<lambda>w. writes w []) \<and>
     (\<forall>w bs. acts view (write_bytes env w bs) (\<lambda>_ v. writes w (writers v w @ bs) v)) \<and>
     (\<forall>w. acts view (detach_buffer env w) (detaches w))"

lemma bytes_to_ibuffer_holds:
  assumes "buffers_ok env view" "bytes_to_ibuffer env bs n = (Ready (Inr b), n')"
  shows "\<exists>w. view n' = (view n)\<lparr>writers := (writers (view n))(w := bs), buffers := (buffers (view n))(b := bs)\<rparr>"
proof -
  obtain w n\<^sub>1 n\<^sub>2 where steps: "data_writer_new env n = (Inr w, n\<^sub>1)" "write_bytes env w bs n\<^sub>1 = (Inr (), n\<^sub>2)"
    "detach_buffer env w n\<^sub>2 = (Inr b, n')"
    using assms(2) by (auto simp: bytes_to_ibuffer_def try_await_Inr_iff)
  have "acts view (data_writer_new env) (\<lambda>w. writes w [])" "acts view (detach_buffer env w) (detaches w)"
    "acts view (write_bytes env w bs) (\<lambda>_ v. writes w (writers v w @ bs) v)"
    using assms(1) by (simp_all add: buffers_ok_def)
  from actsD [OF this(1) steps(1)] actsD [OF this(3) steps(2)] actsD [OF this(2) steps(3)]
  show ?thesis by (intro exI [of _ w]) (simp add: writes_def detaches_def)
qed

end
