(* ===== verification/Ble_Gatt.thy ===== *)
theory Ble_Gatt
  imports Bluetooth
begin

text \<open>
  \<open>crates/pathweave-transport-ble/src/lib.rs\<close>: the BLE transport over GATT, as a central (scan,
  dial, write, notifications) and as a peripheral (the loop that turns GATT events into
  connections, on Linux and on Windows and macOS), with the contract of a peripheral.  The
  Bluetooth stacks are arguments.
\<close>

section \<open>Protocol constants\<close>

definition PATHWEAVE_SERVICE_UUID :: uuid where
  "PATHWEAVE_SERVICE_UUID = the (array_of
     [0x82, 0xdf, 0xc0, 0xba, 0xe2, 0xb5, 0x4e, 0x65, 0xad, 0x11, 0xc7, 0x23, 0x8c, 0xa5, 0x45, 0xc9])"

definition WRITE_CHAR_UUID :: uuid where
  "WRITE_CHAR_UUID = the (array_of
     [0x34, 0x39, 0x99, 0x2c, 0x84, 0x53, 0x4c, 0xa3, 0x96, 0x88, 0x63, 0x9e, 0xf5, 0xf6, 0xf5, 0xdc])"

definition NOTIFY_CHAR_UUID :: uuid where
  "NOTIFY_CHAR_UUID = the (array_of
     [0x6d, 0xe6, 0x33, 0x78, 0x8b, 0xc3, 0x4e, 0x87, 0x88, 0x92, 0x0a, 0x9a, 0x80, 0xef, 0xff, 0x64])"

definition ADVERTISEMENT_VERSION :: u8 where
  "ADVERTISEMENT_VERSION = 1"

section \<open>The peripheral loop on Linux\<close>

text \<open>
  The channel of replies, which all connections share; the writer of the last accepted
  subscriber; the channel of the active connection among those made so far; the connections
  that wait for \<open>accept\<close> and whether the channel they wait in is still read; what was written
  to which subscriber; and whether the loop still runs.
\<close>

record Peripheral =
  reply_queue :: "bytes list"
  gatt_writer :: "handle option"
  active_write :: "nat option"
  write_channels :: "Channel list"
  accepted_conns :: "nat list"
  accepting :: bool
  notified :: "(handle \<times> bytes) list"
  looping :: bool

definition peripheral_new :: Peripheral where
  "peripheral_new =
     \<lparr>reply_queue = [], gatt_writer = None, active_write = None, write_channels = [], accepted_conns = [],
      accepting = True, notified = [], looping = True\<rparr>"

text \<open>
  What the loop selects: a subscription, a write (with its bytes when accepting and reading it
  succeed), any other event or the end of a stream, or a reply, with the outcome of writing
  it.
\<close>

datatype PeripheralEvent =
    Notify handle
  | Write "bytes option"
  | OtherEvent
  | Reply bool

definition alive :: "Peripheral \<Rightarrow> nat \<Rightarrow> bool" where
  "alive s ch \<longleftrightarrow> ch < length (write_channels s) \<and> receiver (write_channels s ! ch)"

definition open_connection :: "handle \<Rightarrow> Peripheral \<Rightarrow> Peripheral" where
  "open_connection w s =
     (let ch = length (write_channels s) in
      s\<lparr>gatt_writer := Some w, write_channels := write_channels s @ [\<lparr>chan_queue = [], receiver = accepting s\<rparr>],
        active_write := Some ch, accepted_conns := (if accepting s then accepted_conns s @ [ch] else accepted_conns s)\<rparr>)"

definition forward_write :: "bytes \<Rightarrow> nat \<Rightarrow> Peripheral \<Rightarrow> Peripheral" where
  "forward_write buf ch s =
     (if alive s ch then
        s\<lparr>write_channels := (write_channels s)[ch := (write_channels s ! ch)\<lparr>chan_queue := chan_queue (write_channels s ! ch) @ [buf]\<rparr>]\<rparr>
      else s\<lparr>active_write := None\<rparr>)"

definition peripheral_step :: "PeripheralEvent \<Rightarrow> Peripheral \<Rightarrow> Peripheral" where
  "peripheral_step ev s =
     (if \<not> looping s then s
      else case ev of
        Notify w \<Rightarrow>
          (case active_write s of
             Some ch \<Rightarrow> if alive s ch then s else open_connection w s
           | None \<Rightarrow> open_connection w s)
      | Write req \<Rightarrow>
          (case (active_write s, req) of
             (Some ch, Some buf) \<Rightarrow> forward_write buf ch s
           | _ \<Rightarrow> s)
      | OtherEvent \<Rightarrow> s\<lparr>looping := False, active_write := None, reply_queue := []\<rparr>
      | Reply ok \<Rightarrow>
          (case (gatt_writer s, reply_queue s) of
             (Some w, bytes # replies) \<Rightarrow>
               if ok then s\<lparr>reply_queue := replies, notified := notified s @ [(w, bytes)]\<rparr>
               else s\<lparr>reply_queue := replies, gatt_writer := None, active_write := None\<rparr>
           | _ \<Rightarrow> s))"

fun peripheral_loop :: "PeripheralEvent list \<Rightarrow> Peripheral \<Rightarrow> Peripheral" where
  "peripheral_loop [] s = s"
| "peripheral_loop (ev # evs) s = peripheral_loop evs (peripheral_step ev s)"

text \<open>The connection of a channel; its sender is the loop, as long as the channel is the active one.\<close>

definition peripheral_send :: "bytes \<Rightarrow> (unit result, Peripheral) future" where
  "peripheral_send bs s =
     (if looping s then (Ready (Inr ()), s\<lparr>reply_queue := reply_queue s @ [bs]\<rparr>)
      else (Ready (Inl (Transport ''peripheral reply channel closed'')), s))"

definition peripheral_recv :: "nat \<Rightarrow> (bytes result, Peripheral) future" where
  "peripheral_recv ch s =
     (case chan_queue (write_channels s ! ch) of
        b # q \<Rightarrow> (Ready (Inr b), s\<lparr>write_channels := (write_channels s)[ch := (write_channels s ! ch)\<lparr>chan_queue := q\<rparr>]\<rparr>)
      | [] \<Rightarrow>
          if active_write s = Some ch then (Pending, s)
          else (Ready (Inl (Transport ''peripheral write channel closed'')), s))"

definition peripheral_connection :: "nat \<Rightarrow> Peripheral Connection" where
  "peripheral_connection ch =
     \<lparr>send_bytes = peripheral_send, recv_bytes = peripheral_recv ch, close_conn = ready (Inr ()), mtu = 512\<rparr>"

definition drop_peripheral :: "nat \<Rightarrow> Peripheral \<Rightarrow> Peripheral" where
  "drop_peripheral ch s = s\<lparr>write_channels := (write_channels s)[ch := \<lparr>chan_queue = [], receiver = False\<rparr>]\<rparr>"

section \<open>The peripheral task on Windows and macOS\<close>

datatype task_pos = TaskWaiting | TaskServing | TaskEnded

text \<open>
  \<open>forward\<close> is the channel the write callback sends into; a connection that nobody can accept
  any more is dropped at once; the replies are those of the connection
  being served, whose sender is left as long as \<open>serving_alive\<close>.
\<close>

record PeripheralTask =
  task_at :: task_pos
  forward :: "nat option"
  task_channels :: "Channel list"
  task_accepted :: "nat list"
  task_accepting :: bool
  task_replies :: "bytes list"
  serving_alive :: bool
  task_notified :: "bytes list"

datatype TaskEvent =
    Stop
  | Subscribe
  | SubscribeClosed
  | TaskReply bool
  | WriteRequested bytes
  | Unsubscribed

text \<open>
  Only Windows reports that the last subscriber has gone.  A reply comes with whether the stack
  has taken it; nothing looks at that.  The branches of a \<open>select\<close> that are not ready are not taken.
\<close>

definition task_step :: "TaskEvent \<Rightarrow> PeripheralTask \<Rightarrow> PeripheralTask" where
  "task_step ev s =
     (case ev of
        WriteRequested buf \<Rightarrow>
          (case forward s of
             Some ch \<Rightarrow>
               if receiver (task_channels s ! ch) then
                 s\<lparr>task_channels := (task_channels s)[ch := (task_channels s ! ch)\<lparr>chan_queue := chan_queue (task_channels s ! ch) @ [buf]\<rparr>]\<rparr>
               else s
           | None \<Rightarrow> s)
      | Unsubscribed \<Rightarrow> s\<lparr>forward := None\<rparr>
      | _ \<Rightarrow>
          (case task_at s of
             TaskEnded \<Rightarrow> s
           | TaskWaiting \<Rightarrow>
               (case ev of
                  Stop \<Rightarrow> s\<lparr>task_at := TaskEnded, forward := None\<rparr>
                | SubscribeClosed \<Rightarrow> s\<lparr>task_at := TaskEnded, forward := None\<rparr>
                | Subscribe \<Rightarrow>
                    let ch = length (task_channels s) in
                    s\<lparr>task_at := TaskServing, task_channels := task_channels s @ [\<lparr>chan_queue = [], receiver = task_accepting s\<rparr>],
                      forward := Some ch, task_accepted := (if task_accepting s then task_accepted s @ [ch] else task_accepted s),
                      task_replies := [], serving_alive := task_accepting s\<rparr>
                | _ \<Rightarrow> s)
           | TaskServing \<Rightarrow>
               (case ev of
                  Stop \<Rightarrow> s\<lparr>task_at := TaskEnded, forward := None\<rparr>
                | TaskReply ok \<Rightarrow>
                    (case task_replies s of
                       bytes # replies \<Rightarrow>
                         s\<lparr>task_replies := replies, task_notified := (if ok then task_notified s @ [bytes] else task_notified s)\<rparr>
                     | [] \<Rightarrow> if serving_alive s then s else s\<lparr>task_at := TaskWaiting, forward := None\<rparr>)
                | _ \<Rightarrow> s)))"

fun peripheral_task :: "TaskEvent list \<Rightarrow> PeripheralTask \<Rightarrow> PeripheralTask" where
  "peripheral_task [] s = s"
| "peripheral_task (ev # evs) s = peripheral_task evs (task_step ev s)"

section \<open>Discovery\<close>

text \<open>The data a peripheral advertises under the service, and its reading by the scanner.\<close>

definition service_data :: "bytes8 \<Rightarrow> bytes" where
  "service_data sid = ADVERTISEMENT_VERSION # bytes_of sid"

definition service_announcement :: "rstring \<Rightarrow> bytes \<Rightarrow> PeerAnnouncement option" where
  "service_announcement pid data =
     (if length data < 9 \<or> data ! 0 \<noteq> ADVERTISEMENT_VERSION then None
      else Some \<lparr>address = Ble pid, short_id = Some (the (array_of (take 8 (drop 1 data))))\<rparr>)"

record Properties =
  prop_service_data :: "(uuid, bytes) hmap"
  prop_services :: "uuid list"

datatype CentralEvent =
    DeviceDiscovered rstring
  | ServiceDataAdvertisement rstring "(uuid, bytes) hmap"
  | ServicesAdvertisement rstring "uuid list"
  | OtherCentralEvent

definition services_announcement :: "rstring \<Rightarrow> uuid list \<Rightarrow> PeerAnnouncement option" where
  "services_announcement pid services =
     (if PATHWEAVE_SERVICE_UUID \<in> set services then Some \<lparr>address = Ble pid, short_id = None\<rparr> else None)"

definition properties_announcement :: "rstring \<Rightarrow> Properties \<Rightarrow> PeerAnnouncement option" where
  "properties_announcement pid props =
     (case hm_get (prop_service_data props) PATHWEAVE_SERVICE_UUID of
        Some data \<Rightarrow> service_announcement pid data
      | None \<Rightarrow> services_announcement pid (prop_services props))"

section \<open>The central\<close>

record Characteristic =
  char_uuid :: uuid
  write_without_response :: bool

datatype WriteType = WithoutResponse | WithResponse

text \<open>
  The Bluetooth stack as a central (btleplug).  \<open>notification\<close> is the next value of the notification
  stream, forwarded by a task; it may never come.
\<close>

record 'n Ble_Env =
  ble_manager :: "(string + handle, 'n) future"
  ble_adapters :: "handle \<Rightarrow> (string + handle list, 'n) future"
  ble_stop_scan :: "handle \<Rightarrow> (string + unit, 'n) future"
  ble_peripherals :: "handle \<Rightarrow> (string + (rstring \<times> handle) list, 'n) future"
  ble_disconnect :: "handle \<Rightarrow> (string + unit, 'n) future"
  ble_connect_to :: "handle \<Rightarrow> (string + unit, 'n) future"
  ble_discover_services :: "handle \<Rightarrow> (string + unit, 'n) future"
  ble_characteristics :: "handle \<Rightarrow> 'n \<Rightarrow> Characteristic list"
  ble_subscribe :: "handle \<Rightarrow> Characteristic \<Rightarrow> (string + unit, 'n) future"
  ble_notifications :: "handle \<Rightarrow> (string + handle, 'n) future"
  notification :: "handle \<Rightarrow> (bytes option, 'n) future"
  ble_write :: "handle \<Rightarrow> Characteristic \<Rightarrow> bytes \<Rightarrow> WriteType \<Rightarrow> (string + unit, 'n) future"
  ble_start_scan :: "handle \<Rightarrow> uuid list \<Rightarrow> (string + unit, 'n) future"
  ble_events :: "handle \<Rightarrow> (string + handle, 'n) future"
  ble_next_event :: "handle \<Rightarrow> (CentralEvent option, 'n) future"
  ble_peripheral_of :: "handle \<Rightarrow> rstring \<Rightarrow> (string + handle, 'n) future"
  ble_properties :: "handle \<Rightarrow> (string + Properties option, 'n) future"
  ble_runtime :: "'n Runtime"

text \<open>
  The peripheral of a platform: setting it up, and what dropping the state it leaves does.  A
  platform without one has none.
\<close>

record 'n PeripheralOps =
  start_peripheral :: "NodeIdentity \<Rightarrow> (handle list result, 'n) future"
  drop_state :: "handle list \<Rightarrow> 'n \<Rightarrow> 'n"

record 'n BleTransport =
  ble_adapter :: "handle option"
  ble_peripheral :: "handle list option"
  ble_conn_rx :: "nat list option"
  ble_net :: 'n

definition on_ble :: "('a, 'n) future \<Rightarrow> ('a, 'n BleTransport) future" where
  "on_ble m s = (let (r, n) = m (ble_net s) in (r, s\<lparr>ble_net := n\<rparr>))"

definition try_ble :: "(string + 'a, 'n) future \<Rightarrow> ('a result, 'n BleTransport) future" where
  "try_ble m = await (on_ble m) (\<lambda>r. ready (transport_err r))"

definition ble_new :: "'n \<Rightarrow> 'n BleTransport" where
  "ble_new n = \<lparr>ble_adapter = None, ble_peripheral = None, ble_conn_rx = None, ble_net = n\<rparr>"

definition set_peripheral :: "'n PeripheralOps \<Rightarrow> handle list option \<Rightarrow> 'n BleTransport \<Rightarrow> 'n BleTransport" where
  "set_peripheral ops new s =
     (case ble_peripheral s of
        None \<Rightarrow> s\<lparr>ble_peripheral := new\<rparr>
      | Some old \<Rightarrow> s\<lparr>ble_peripheral := new, ble_net := drop_state ops old (ble_net s)\<rparr>)"

definition ble_start ::
  "'n Ble_Env \<Rightarrow> 'n PeripheralOps option \<Rightarrow> NodeIdentity \<Rightarrow> (unit result, 'n BleTransport) future" where
  "ble_start env plat ident =
     try_await (try_ble (ble_manager env)) (\<lambda>manager.
     try_await (try_ble (ble_adapters env manager)) (\<lambda>adapters.
     try_now (case adapters of [] \<Rightarrow> Inl (Transport ''no Bluetooth adapter found'') | a # _ \<Rightarrow> Inr a) (\<lambda>adapter.
     await (modify (\<lambda>s. s\<lparr>ble_adapter := Some adapter\<rparr>)) (\<lambda>_.
     case plat of
       None \<Rightarrow> ready (Inr ())
     | Some ops \<Rightarrow>
         try_await (on_ble (start_peripheral ops ident)) (\<lambda>handles.
         await (modify (\<lambda>s. set_peripheral ops (Some handles) (s\<lparr>ble_conn_rx := Some []\<rparr>))) (\<lambda>_.
         ready (Inr ())))))))"

definition ble_stop :: "'n Ble_Env \<Rightarrow> 'n PeripheralOps option \<Rightarrow> (unit result, 'n BleTransport) future" where
  "ble_stop env plat s =
     await (case ble_adapter s of
              None \<Rightarrow> ready ()
            | Some adapter \<Rightarrow> await (on_ble (ble_stop_scan env adapter)) (\<lambda>_. ready ())) (\<lambda>_.
     await (modify (\<lambda>s. s\<lparr>ble_adapter := None\<rparr>)) (\<lambda>_.
     await (modify (\<lambda>s. case plat of
                          None \<Rightarrow> s
                        | Some ops \<Rightarrow> (set_peripheral ops None s)\<lparr>ble_conn_rx := None\<rparr>)) (\<lambda>_.
     ready (Inr ())))) s"

text \<open>
  Accepting: \<open>recv\<close> takes the next connection from the channel the peripheral's task sends into,
  and \<open>None\<close> when the task has ended.
\<close>

definition ble_accept ::
  "'n PeripheralOps option \<Rightarrow> ('n BleTransport Connection option, 'n BleTransport) future \<Rightarrow>
     ('n BleTransport Connection result, 'n BleTransport) future" where
  "ble_accept plat recv s =
     (case plat of
        None \<Rightarrow> (Ready (Inl (Transport ''BLE peripheral mode not supported on this platform'')), s)
      | Some _ \<Rightarrow>
          (case ble_conn_rx s of
             None \<Rightarrow> (Ready (Inl (Transport ''transport not started'')), s)
           | Some _ \<Rightarrow> await recv (\<lambda>r. ready (case r of
               Some c \<Rightarrow> Inr c
             | None \<Rightarrow> Inl (Transport ''peripheral loop ended''))) s))"

text \<open>
  Discovery: an announcement for an event, asking the stack about a device seen for the first
  time; and the task, over the channel it sends into, for at most \<open>k\<close> events.
\<close>

definition on_central_event :: "'n Ble_Env \<Rightarrow> handle \<Rightarrow> CentralEvent \<Rightarrow> (PeerAnnouncement option, 'n) future" where
  "on_central_event env adapter ev =
     (case ev of
        DeviceDiscovered pid \<Rightarrow>
          await (ble_peripheral_of env adapter pid) (\<lambda>r.
            case r of
              Inl _ \<Rightarrow> ready None
            | Inr peripheral \<Rightarrow>
                await (ble_properties env peripheral) (\<lambda>r.
                  ready (case r of Inr (Some props) \<Rightarrow> properties_announcement pid props | _ \<Rightarrow> None)))
      | ServiceDataAdvertisement pid sd \<Rightarrow>
          ready (case hm_get sd PATHWEAVE_SERVICE_UUID of Some data \<Rightarrow> service_announcement pid data | None \<Rightarrow> None)
      | ServicesAdvertisement pid services \<Rightarrow> ready (services_announcement pid services)
      | OtherCentralEvent \<Rightarrow> ready None)"

type_synonym announce_chan = "PeerAnnouncement list \<times> bool"

definition announce_send :: "PeerAnnouncement \<Rightarrow> announce_chan \<Rightarrow> bool \<times> announce_chan" where
  "announce_send ann = (\<lambda>(sent, open). (open, (if open then sent @ [ann] else sent, open)))"

fun scan_events :: "nat \<Rightarrow> 'n Ble_Env \<Rightarrow> handle \<Rightarrow> handle \<Rightarrow> (unit, announce_chan \<times> 'n) future" where
  "scan_events 0 env adapter events st = (Pending, st)"
| "scan_events (Suc k) env adapter events st =
     await (on_snd (ble_next_event env events)) (\<lambda>ev.
       case ev of
         None \<Rightarrow> ready ()
       | Some ev \<Rightarrow>
           await (on_snd (on_central_event env adapter ev)) (\<lambda>ann.
             case ann of
               None \<Rightarrow> scan_events k env adapter events
             | Some ann \<Rightarrow>
                 await (update (\<lambda>(ch, n). let (ok, ch') = announce_send ann ch in (ok, (ch', n)))) (\<lambda>ok.
                   if ok then scan_events k env adapter events else ready ()))) st"

definition ble_discover :: "nat \<Rightarrow> 'n Ble_Env \<Rightarrow> handle option \<Rightarrow> (unit, announce_chan \<times> 'n) future" where
  "ble_discover k env adapter =
     (case adapter of
        None \<Rightarrow> ready ()
      | Some adapter \<Rightarrow>
          await (on_snd (ble_start_scan env adapter [PATHWEAVE_SERVICE_UUID])) (\<lambda>r.
            case r of
              Inl _ \<Rightarrow> ready ()
            | Inr _ \<Rightarrow>
                await (on_snd (ble_events env adapter)) (\<lambda>r.
                  case r of Inl _ \<Rightarrow> ready () | Inr events \<Rightarrow> scan_events k env adapter events)))"

definition BLE_SETTLE :: duration where
  "BLE_SETTLE = 500"

definition BLE_CONNECT_TIMEOUT :: duration where
  "BLE_CONNECT_TIMEOUT = 10000"

definition find_char :: "uuid \<Rightarrow> string \<Rightarrow> Characteristic list \<Rightarrow> Characteristic result" where
  "find_char u msg chars =
     (case find (\<lambda>c. char_uuid c = u) chars of Some c \<Rightarrow> Inr c | None \<Rightarrow> Inl (Transport msg))"

definition write_type :: "Characteristic \<Rightarrow> WriteType" where
  "write_type c = (if write_without_response c then WithoutResponse else WithResponse)"

definition ble_connection :: "'n Ble_Env \<Rightarrow> handle \<Rightarrow> Characteristic \<Rightarrow> handle \<Rightarrow> 'n BleTransport Connection" where
  "ble_connection env peripheral write_char stream =
     \<lparr>send_bytes = (\<lambda>bs. try_ble (ble_write env peripheral write_char bs (write_type write_char))),
      recv_bytes = await (on_ble (notification env stream)) (\<lambda>r. ready (case r of
          Some bs \<Rightarrow> Inr bs
        | None \<Rightarrow> Inl (Transport ''BLE notification stream ended''))),
      close_conn = try_ble (ble_disconnect env peripheral), mtu = 512\<rparr>"

definition ble_connect ::
  "'n Ble_Env \<Rightarrow> PeerAnnouncement \<Rightarrow> ('n BleTransport Connection result, 'n BleTransport) future" where
  "ble_connect env peer s =
     (case address peer of
        Ble id_str \<Rightarrow>
          (case ble_adapter s of
             None \<Rightarrow> (Ready (Inl (Transport ''transport not started'')), s)
           | Some adapter \<Rightarrow>
               try_await (try_ble (ble_peripherals env adapter)) (\<lambda>peripherals.
               try_now (case find (\<lambda>(pid, _). pid = id_str) peripherals of
                          Some (_, p) \<Rightarrow> Inr p
                        | None \<Rightarrow> Inl (Transport (''BLE peer '' @ str_text id_str @ '' not in scan cache; discover() must complete first''))) (\<lambda>peripheral.
               await (on_ble (ble_disconnect env peripheral)) (\<lambda>_.
               await (on_ble (modify (sleep (ble_runtime env) BLE_SETTLE))) (\<lambda>_.
               await (on_ble (timeout (ble_runtime env) BLE_CONNECT_TIMEOUT (ble_connect_to env peripheral))) (\<lambda>r.
               try_now (case r of None \<Rightarrow> Inl (Transport ''BLE connect timed out'') | Some r \<Rightarrow> transport_err r) (\<lambda>_.
               try_await (try_ble (ble_discover_services env peripheral)) (\<lambda>_.
               await (on_ble (update (\<lambda>n. (ble_characteristics env peripheral n, n)))) (\<lambda>chars.
               try_now (find_char WRITE_CHAR_UUID ''write characteristic not found'' chars) (\<lambda>write_char.
               try_now (find_char NOTIFY_CHAR_UUID ''notify characteristic not found'' chars) (\<lambda>notify_char.
               try_await (try_ble (ble_subscribe env peripheral notify_char)) (\<lambda>_.
               try_await (try_ble (ble_notifications env peripheral)) (\<lambda>stream.
               ready (Inr (ble_connection env peripheral write_char stream)))))))))))))) s)
      | _ \<Rightarrow> (Ready (Inl (Transport ''expected BLE address'')), s))"

section \<open>What discovery finds\<close>

text \<open>A scanner reads back the short id a peripheral advertises, by either event.\<close>

lemma service_data_roundtrip:
  "service_announcement pid (service_data sid) = Some \<lparr>address = Ble pid, short_id = Some sid\<rparr>"
  by (simp add: service_announcement_def service_data_def)

lemma advertised_peer_is_found:
  assumes "hm_get sd PATHWEAVE_SERVICE_UUID = Some (service_data sid)" "prop_service_data props = sd"
  shows "on_central_event env adapter (ServiceDataAdvertisement pid sd) n = (Ready (Some \<lparr>address = Ble pid, short_id = Some sid\<rparr>), n)"
    "properties_announcement pid props = Some \<lparr>address = Ble pid, short_id = Some sid\<rparr>"
  using assms by (simp_all add: on_central_event_def properties_announcement_def service_data_roundtrip ready_def)

section \<open>What a peripheral promises\<close>

text \<open>What reception \<open>k\<close> from now gives, when nothing else happens meanwhile.\<close>

fun reception :: "(bytes result, 's) future \<Rightarrow> nat \<Rightarrow> 's \<Rightarrow> bytes result poll" where
  "reception recv 0 s = fst (recv s)"
| "reception recv (Suc k) s = reception recv k (snd (recv s))"

text \<open>
  The contract of a peripheral with the connection it serves: \<open>serves ch bs s\<close> when connection
  \<open>ch\<close> is open and \<open>bs\<close> is what it has still to receive; a \<open>calm\<close> event ends nothing.
\<close>

locale peripheral_server =
  fixes step :: "'ev \<Rightarrow> 's \<Rightarrow> 's"
    and written :: "'ev \<Rightarrow> bytes option"
    and calm :: "'ev \<Rightarrow> bool"
    and recv :: "nat \<Rightarrow> (bytes result, 's) future"
    and made :: "'s \<Rightarrow> nat list"
    and serves :: "nat \<Rightarrow> bytes list \<Rightarrow> 's \<Rightarrow> bool"
  assumes served_event: "serves ch bs s \<Longrightarrow> calm ev \<Longrightarrow>
      serves ch (bs @ (case written ev of None \<Rightarrow> [] | Some b \<Rightarrow> [b])) (step ev s) \<and> made (step ev s) = made s"
    and served_next: "serves ch (b # bs) s \<Longrightarrow> \<exists>s'. recv ch s = (Ready (Inr b), s') \<and> serves ch bs s' \<and> made s' = made s"
    and served_wait: "serves ch [] s \<Longrightarrow> recv ch s = (Pending, s)"
begin

lemma served_events:
  assumes "serves ch bs s" "list_all calm evs"
  shows "serves ch (bs @ List.map_filter written evs) (fold step evs s) \<and> made (fold step evs s) = made s"
  using assms
proof (induction evs arbitrary: s bs)
  case (Cons ev evs)
  note ev = served_event [OF Cons.prems(1), of ev]
  with Cons.IH [of "bs @ (case written ev of None \<Rightarrow> [] | Some b \<Rightarrow> [b])" "step ev s"] Cons.prems(2) show ?case
    by (simp add: List.map_filter_simps split: option.splits)
qed (simp add: List.map_filter_simps)

lemma served_receptions:
  assumes "serves ch bs s" "k < length bs"
  shows "reception (recv ch) k s = Ready (Inr (bs ! k))"
  using assms
proof (induction k arbitrary: s bs)
  case 0
  then show ?case using served_next [of ch "hd bs" "tl bs" s] by (cases bs) auto
next
  case (Suc k)
  then obtain b bs' where bs: "bs = b # bs'" by (cases bs) auto
  obtain s' where "recv ch s = (Ready (Inr b), s')" "serves ch bs' s'"
    using served_next [of ch b bs' s] Suc.prems(1) bs by auto
  with Suc.IH [of bs' s'] Suc.prems(2) bs show ?case by simp
qed

lemma served_then_waits:
  assumes "serves ch bs s" "length bs \<le> k"
  shows "reception (recv ch) k s = Pending"
  using assms
proof (induction k arbitrary: s bs)
  case 0
  then show ?case by (simp add: served_wait)
next
  case (Suc k)
  then have "\<exists>bs'. serves ch bs' (snd (recv ch s)) \<and> length bs' \<le> k"
    using served_wait [of ch s] served_next [of ch "hd bs" "tl bs" s] by (cases bs) force+
  then show ?case using Suc.IH by auto
qed

end

section \<open>One connection at a time\<close>

fun written :: "PeripheralEvent \<Rightarrow> bytes option" where
  "written (Write req) = req"
| "written _ = None"

text \<open>The connection \<open>ch\<close> is open and has received \<open>bs\<close>, its subscriber being \<open>w\<close>.\<close>

definition serves :: "nat \<Rightarrow> handle option \<Rightarrow> bytes list \<Rightarrow> Peripheral \<Rightarrow> bool" where
  "serves ch w bs s \<longleftrightarrow> looping s \<and> active_write s = Some ch \<and> alive s ch \<and> gatt_writer s = w \<and>
     chan_queue (write_channels s ! ch) = bs"

lemma serves_step:
  assumes "serves ch w bs s" "ev \<noteq> OtherEvent" "ev \<noteq> Reply False"
  shows "serves ch w (bs @ (case written ev of None \<Rightarrow> [] | Some b \<Rightarrow> [b])) (peripheral_step ev s) \<and>
    accepted_conns (peripheral_step ev s) = accepted_conns s"
proof (cases ev)
  case (Reply ok)
  with assms have "ok" by (cases ok) simp_all
  with Reply assms(1) show ?thesis
    by (auto simp: serves_def peripheral_step_def alive_def split: option.splits list.splits)
next
  case (Write req)
  with assms(1) show ?thesis
    by (cases req) (auto simp: serves_def peripheral_step_def forward_write_def alive_def)
qed (use assms in \<open>auto simp: serves_def peripheral_step_def alive_def\<close>)

interpretation loop_server: peripheral_server peripheral_step written "\<lambda>ev. ev \<noteq> OtherEvent \<and> ev \<noteq> Reply False"
  peripheral_recv accepted_conns "\<lambda>ch. serves ch w" for w
proof
  fix ch bs s ev
  assume "serves ch w bs s" "ev \<noteq> OtherEvent \<and> ev \<noteq> Reply False"
  then show "serves ch w (bs @ (case written ev of None \<Rightarrow> [] | Some b \<Rightarrow> [b])) (peripheral_step ev s) \<and>
      accepted_conns (peripheral_step ev s) = accepted_conns s"
    using serves_step by blast
qed (auto simp: serves_def peripheral_recv_def alive_def)

lemma peripheral_loop_fold: "peripheral_loop evs s = fold peripheral_step evs s"
  by (induction evs arbitrary: s) simp_all

section \<open>Properties\<close>

text \<open>
  An open connection gets every write there is.  As long as the connection of a subscriber
  is not dropped, no write to the subscriber fails and the event streams go on, every write
  reaches this connection, in order and with none lost, whoever wrote it; further
  subscribers get no connection, and replies go on to the first subscriber.
\<close>

theorem open_connection_gets_all_writes:
  assumes "looping s" "active_write s = Some ch" "alive s ch"
    and "OtherEvent \<notin> set evs" "Reply False \<notin> set evs"
  shows "chan_queue (write_channels (peripheral_loop evs s) ! ch) =
      chan_queue (write_channels s ! ch) @ List.map_filter written evs \<and>
    accepted_conns (peripheral_loop evs s) = accepted_conns s \<and>
    gatt_writer (peripheral_loop evs s) = gatt_writer s \<and> alive (peripheral_loop evs s) ch"
proof -
  have "serves ch (gatt_writer s) (chan_queue (write_channels s ! ch)) s"
    using assms(1-3) by (simp add: serves_def)
  moreover have "list_all (\<lambda>ev. ev \<noteq> OtherEvent \<and> ev \<noteq> Reply False) evs"
    using assms(4,5) by (auto simp: list_all_iff)
  ultimately have "serves ch (gatt_writer s) (chan_queue (write_channels s ! ch) @ List.map_filter written evs)
      (peripheral_loop evs s) \<and> accepted_conns (peripheral_loop evs s) = accepted_conns s"
    unfolding peripheral_loop_fold by (rule loop_server.served_events)
  then show ?thesis by (simp add: serves_def)
qed

definition subscribed :: Peripheral where
  "subscribed = peripheral_step (Notify 1) peripheral_new"

lemma subscribed_simps:
  "looping subscribed" "active_write subscribed = Some 0" "alive subscribed 0" "accepted_conns subscribed = [0]"
  "gatt_writer subscribed = Some 1" "chan_queue (write_channels subscribed ! 0) = []" "notified subscribed = []"
  "reply_queue subscribed = []"
  by (simp_all add: subscribed_def peripheral_step_def peripheral_new_def open_connection_def alive_def Let_def)

theorem open_connection_gets_all_writes_witness:
  "chan_queue (write_channels (peripheral_loop [Write (Some [1]), Notify 2, Write (Some [2])] subscribed) ! 0) = [[1], [2]] \<and>
   accepted_conns (peripheral_loop [Write (Some [1]), Notify 2, Write (Some [2])] subscribed) = [0]"
  using open_connection_gets_all_writes [of subscribed 0 "[Write (Some [1]), Notify 2, Write (Some [2])]"]
  by (simp add: subscribed_simps List.map_filter_simps)

text \<open>
  On Linux a subscriber can be sent the replies meant for another.  The replies wait in one
  channel for all connections; when a write to a subscriber fails, those behind it stay
  there, and they are the first that the next subscriber is sent.  On Windows and macOS a
  connection starts with a channel of its own.
\<close>

theorem leftover_replies_reach_next_subscriber:
  assumes "looping s" "gatt_writer s = Some w" "reply_queue s = lost # leftover # replies"
    and "task_at t = TaskWaiting"
  shows "notified (peripheral_loop [Reply False, Notify w', Reply True] s) = notified s @ [(w', leftover)] \<and>
    task_replies (task_step Subscribe t) = []"
  using assms by (simp add: peripheral_step_def open_connection_def Let_def task_step_def)

theorem leftover_replies_reach_next_subscriber_witness:
  "notified (peripheral_loop [Reply False, Notify 2, Reply True]
     (snd (peripheral_send [6] (snd (peripheral_send [5] subscribed))))) = [(2, [6])]"
proof -
  let ?s = "snd (peripheral_send [6] (snd (peripheral_send [5] subscribed)))"
  let ?t = "\<lparr>task_at = TaskWaiting, forward = None, task_channels = [], task_accepted = [], task_accepting = True, task_replies = [],
    serving_alive = False, task_notified = []\<rparr>"
  have "looping ?s" "gatt_writer ?s = Some 1" "reply_queue ?s = [5] # [6] # []" "task_at ?t = TaskWaiting" "notified ?s = []"
    by (simp_all add: peripheral_send_def subscribed_simps)
  with leftover_replies_reach_next_subscriber [OF this(1-4), of 2] show ?thesis by simp
qed

end
