(* ===== verification/Ble_Bearers.thy ===== *)
theory Ble_Bearers
  imports Bluetooth Event_Channel
begin

text \<open>
  The bearers of the advertising transport: \<open>linux_adv.rs\<close> over BlueZ, \<open>windows_adv.rs\<close> over WinRT,
  and the one for other platforms in \<open>advertising.rs\<close>; and the transport over a bearer.
\<close>

definition ADVERTISE_HOLD :: duration where
  "ADVERTISE_HOLD = 500"

section \<open>Linux\<close>

text \<open>The bearer holds an adapter once one has been opened; the state is that and the radio.\<close>

definition ensure_adapter :: "'n Bluer \<Rightarrow> (handle result, handle option \<times> 'n) future" where
  "ensure_adapter env = (\<lambda>(adapter, n).
     case adapter of
       Some a \<Rightarrow> (Ready (Inr a), (adapter, n))
     | None \<Rightarrow>
         try_await (on_snd (tried (bluer_session env))) (\<lambda>session.
         try_await (on_snd (tried (bluer_default_adapter env session))) (\<lambda>new_adapter.
         await (modify (\<lambda>(_, n). (Some new_adapter, n))) (\<lambda>_.
         ready (Inr new_adapter)))) (adapter, n))"

definition bearer_advertisement :: "bytes \<Rightarrow> Advertisement" where
  "bearer_advertisement packet =
     \<lparr>advertisement_type = Broadcast, adv_service_uuids = [], adv_service_data = [],
      adv_manufacturer_data = bearer_data packet, secondary_channel = Some OneM\<rparr>"

definition linux_advertise :: "'n Bluer \<Rightarrow> bytes \<Rightarrow> (unit result, handle option \<times> 'n) future" where
  "linux_advertise env packet =
     try_await (ensure_adapter env) (\<lambda>adapter.
     try_await (on_snd (tried (bluer_advertise env adapter (bearer_advertisement packet)))) (\<lambda>h.
     await (on_snd (modify (\<lambda>n. bluer_withdraw env h (sleep (bluer_runtime env) ADVERTISE_HOLD n)))) (\<lambda>_.
     ready (Inr ()))))"

text \<open>
  Scanning.  Every call of \<open>scan\<close> has a channel of its own, which the tasks of the scan send into.
  The task of a device checks its data once, then at each of at most \<open>k\<close> events.
\<close>

definition scan_send :: "bytes \<Rightarrow> Channel \<Rightarrow> bool \<times> Channel" where
  "scan_send packet ch =
     (if receiver ch then (True, ch\<lparr>chan_queue := chan_queue ch @ [packet]\<rparr>) else (False, ch))"

definition forward_device :: "'n Bluer \<Rightarrow> handle \<Rightarrow> (bool, Channel \<times> 'n) future" where
  "forward_device env dev =
     await (on_snd (bluer_manufacturer_data env dev)) (\<lambda>r.
       case check_and_forward r of
         None \<Rightarrow> ready True
       | Some packet \<Rightarrow> update (\<lambda>(ch, n). let (ok, ch') = scan_send packet ch in (ok, (ch', n))))"

fun follow_device :: "nat \<Rightarrow> 'n Bluer \<Rightarrow> handle \<Rightarrow> handle \<Rightarrow> (unit, Channel \<times> 'n) future" where
  "follow_device 0 env dev events st = (Pending, st)"
| "follow_device (Suc k) env dev events st =
     await (on_snd (bluer_device_event env events)) (\<lambda>some.
       if some then await (forward_device env dev) (\<lambda>ok. if ok then follow_device k env dev events else ready ())
       else ready ()) st"

definition device_task :: "nat \<Rightarrow> 'n Bluer \<Rightarrow> handle \<Rightarrow> (unit, Channel \<times> 'n) future" where
  "device_task k env dev =
     await (forward_device env dev) (\<lambda>ok.
       if \<not> ok then ready ()
       else await (on_snd (bluer_device_events env dev)) (\<lambda>r.
         case r of Inl _ \<Rightarrow> ready () | Inr events \<Rightarrow> follow_device k env dev events))"

text \<open>The task of the scan itself, for at most \<open>k\<close> events: the devices whose tasks it spawns.\<close>

fun scan_devices :: "nat \<Rightarrow> 'n Bluer \<Rightarrow> handle \<Rightarrow> handle \<Rightarrow> (handle list, 'n) future" where
  "scan_devices 0 env adapter events n = (Pending, n)"
| "scan_devices (Suc k) env adapter events n =
     await (bluer_event env events) (\<lambda>ev.
       case ev of
         None \<Rightarrow> ready []
       | Some OtherAdapterEvent \<Rightarrow> scan_devices k env adapter events
       | Some (DeviceAdded addr) \<Rightarrow>
           await (update (\<lambda>n. (bluer_device env adapter addr n, n))) (\<lambda>r.
             case r of
               Inl _ \<Rightarrow> scan_devices k env adapter events
             | Inr dev \<Rightarrow> await (scan_devices k env adapter events) (\<lambda>devs. ready (dev # devs)))) n"

definition linux_scan :: "nat \<Rightarrow> 'n Bluer \<Rightarrow> (handle list, handle option \<times> 'n) future" where
  "linux_scan k env =
     await (ensure_adapter env) (\<lambda>r.
       case r of
         Inl _ \<Rightarrow> ready []
       | Inr adapter \<Rightarrow>
           await (on_snd (bluer_discover env adapter)) (\<lambda>r.
             case r of Inl _ \<Rightarrow> ready [] | Inr events \<Rightarrow> on_snd (scan_devices k env adapter events)))"

section \<open>Windows\<close>

record 'n Winrt_Adv = "'n Winrt_Buffers" +
  adv_publisher_new :: "(string + handle, 'n) call"
  manufacturer_create :: "u16 \<Rightarrow> handle \<Rightarrow> (string + handle, 'n) call"
  publisher_advertisement :: "handle \<Rightarrow> (string + handle, 'n) call"
  advertisement_sections :: "handle \<Rightarrow> (string + handle, 'n) call"
  sections_append :: "handle \<Rightarrow> handle \<Rightarrow> (string + unit, 'n) call"
  set_use_extended :: "handle \<Rightarrow> bool \<Rightarrow> (string + unit, 'n) call"
  adv_publisher_start :: "handle \<Rightarrow> (string + unit, 'n) call"
  adv_publisher_stop :: "handle \<Rightarrow> (string + unit, 'n) call"
  watcher_new :: "(string + handle, 'n) call"
  set_allow_extended :: "handle \<Rightarrow> bool \<Rightarrow> (string + unit, 'n) call"
  watcher_received :: "handle \<Rightarrow> (string + unit, 'n) call"
  watcher_start :: "handle \<Rightarrow> (string + unit, 'n) call"
  watcher_stop :: "handle \<Rightarrow> (string + unit, 'n) call"
  received_advertisement :: "handle \<Rightarrow> (string + handle, 'n) call"
  data_by_company :: "handle \<Rightarrow> u16 \<Rightarrow> (string + handle, 'n) call"
  entries_size :: "handle \<Rightarrow> (string + u32, 'n) call"
  entries_get_at :: "handle \<Rightarrow> u32 \<Rightarrow> (string + handle, 'n) call"
  entry_data :: "handle \<Rightarrow> (string + handle, 'n) call"
  winrt_runtime :: "'n Runtime"

text \<open>The closure runs on a thread of its own and does not panic, so that joining it succeeds.\<close>

definition windows_advertise :: "'n Winrt_Adv \<Rightarrow> bytes \<Rightarrow> (unit result, 'n) future" where
  "windows_advertise env packet =
     try_await (called (adv_publisher_new env)) (\<lambda>publisher.
     try_await (bytes_to_ibuffer env (ADV_BEARER_MAGIC # packet)) (\<lambda>buffer.
     try_await (called (manufacturer_create env MANUFACTURER_COMPANY_ID buffer)) (\<lambda>manufacturer_data.
     try_await (called (publisher_advertisement env publisher)) (\<lambda>advertisement.
     try_await (called (advertisement_sections env advertisement)) (\<lambda>sections.
     try_await (called (sections_append env sections manufacturer_data)) (\<lambda>_.
     try_await (called (set_use_extended env publisher True)) (\<lambda>_.
     try_await (called (adv_publisher_start env publisher)) (\<lambda>_.
     await (modify (\<lambda>n. snd (adv_publisher_stop env publisher (sleep (winrt_runtime env) ADVERTISE_HOLD n)))) (\<lambda>_.
     ready (Inr ()))))))))))"

text \<open>The watcher's callback: the packet it sends on; every call that fails makes it return.\<close>

definition received_bytes :: "'n Winrt_Adv \<Rightarrow> handle \<Rightarrow> (bytes option result, 'n) future" where
  "received_bytes env args =
     try_await (called (received_advertisement env args)) (\<lambda>advertisement.
     try_await (called (data_by_company env advertisement MANUFACTURER_COMPANY_ID)) (\<lambda>entries.
     try_await (called (entries_size env entries)) (\<lambda>size.
     if size = 0 then ready (Inr None)
     else
       try_await (called (entries_get_at env entries 0)) (\<lambda>entry.
       try_await (called (entry_data env entry)) (\<lambda>buffer.
       try_await (read_buffer env buffer) (\<lambda>buf.
       ready (Inr (Some buf))))))))"

definition strip_magic :: "bytes \<Rightarrow> bytes option" where
  "strip_magic buf = (case buf of b # packet \<Rightarrow> if b = ADV_BEARER_MAGIC then Some packet else None | [] \<Rightarrow> None)"

definition on_received :: "'n Winrt_Adv \<Rightarrow> handle option \<Rightarrow> (unit, Channel \<times> 'n) future" where
  "on_received env args =
     (case args of
        None \<Rightarrow> ready ()
      | Some args \<Rightarrow>
          await (on_snd (received_bytes env args)) (\<lambda>r.
            case r of
              Inr (Some buf) \<Rightarrow>
                (case strip_magic buf of
                   Some packet \<Rightarrow> modify (\<lambda>(ch, n). (snd (scan_send packet ch), n))
                 | None \<Rightarrow> ready ())
            | _ \<Rightarrow> ready ()))"

text \<open>
  The thread of a scan, over its channel and the radio: the last part looks every half a
  second, at most \<open>k\<close> times, whether the channel is still read.  The result is whether the
  watcher was started.
\<close>

fun watch_loop :: "nat \<Rightarrow> 'n Winrt_Adv \<Rightarrow> (Channel \<times> 'n) Runtime \<Rightarrow> handle \<Rightarrow> (unit, Channel \<times> 'n) future" where
  "watch_loop 0 env rt watcher st = (Pending, st)"
| "watch_loop (Suc k) env rt watcher st =
     await (modify (sleep rt 500)) (\<lambda>_ (ch, n).
       if receiver ch then watch_loop k env rt watcher (ch, n)
       else (Ready (), (ch, snd (watcher_stop env watcher n)))) st"

definition windows_scan :: "nat \<Rightarrow> 'n Winrt_Adv \<Rightarrow> (Channel \<times> 'n) Runtime \<Rightarrow> (bool, Channel \<times> 'n) future" where
  "windows_scan k env rt =
     await (on_snd (
       try_await (called (watcher_new env)) (\<lambda>watcher.
       try_await (called (set_allow_extended env watcher True)) (\<lambda>_.
       try_await (called (watcher_received env watcher)) (\<lambda>_.
       try_await (called (watcher_start env watcher)) (\<lambda>_.
       ready (Inr watcher))))))) (\<lambda>r.
     case r of
       Inl _ \<Rightarrow> ready False
     | Inr watcher \<Rightarrow> await (watch_loop k env rt watcher) (\<lambda>_. ready True))"

section \<open>Other platforms\<close>

definition unsupported_advertise :: "bytes \<Rightarrow> (unit result, 'n) future" where
  "unsupported_advertise packet =
     ready (Inl (Transport ''BLE advertising-mode bearer is not implemented on this platform''))"

definition unsupported_scan :: "bytes list" where
  "unsupported_scan = []"

section \<open>The transport\<close>

text \<open>
  A panic in \<open>connect\<close> ends the task that awaits it.
\<close>

definition adv_transport :: "(bytes \<Rightarrow> (unit result, 'b) future) \<Rightarrow> (AdvState \<times> 'b) Transport" where
  "adv_transport advertise =
     \<lparr>transport_kind = KBleAdvertising, transport_cost = (\<lambda>_. Free),
      transport_connect = (\<lambda>peer (s, b).
        case adv_connect peer s of
          (Panic, s') \<Rightarrow> (Pending, (s', b))
        | (Done r, s') \<Rightarrow> (Ready (map_sum id (broadcast_connection advertise) r), (s', b))),
      transport_accept = (\<lambda>(s, b).
        case adv_accept s of
          (Pending, s') \<Rightarrow> (Pending, (s', b))
        | (Ready r, s') \<Rightarrow> (Ready (map_sum id (broadcast_connection advertise) r), (s', b))),
      transport_start = (\<lambda>ident (s, b). let (r, s') = adv_start ident s in (Ready r, (s', b))),
      transport_stop = (\<lambda>(s, b). let (r, s') = adv_stop s in (Ready r, (s', b))),
      transport_addresses = (\<lambda>(s, b). adv_local_addresses s)\<rparr>"

text \<open>
  \<open>discover\<close> subscribes, so that it yields what is announced from then on; the transport keeps a
  sender.  A stream that has fallen behind goes on with what the channel retains.
\<close>

definition adv_discover :: "nat \<Rightarrow> PeerAnnouncement receive \<Rightarrow> AdvState \<Rightarrow> (PeerAnnouncement option, nat) future" where
  "adv_discover k recv s = next_event k recv (announced s) True"

lemma packet_is_announced:
  assumes "broadcast_ok cap recv" "0 < cap" "2 \<le> k"
  shows "adv_discover k recv (announce src s) (length (announced s)) =
    (Ready (Some \<lparr>address = BleAdvertising (short_id_to_hex src), short_id = Some src\<rparr>), Suc (length (announced s)))"
  using next_event_yields [OF assms(1,2) _ assms(3), of "length (announced s)" "announced (announce src s)" True] assms(2)
  by (simp add: adv_discover_def announce_def)

declare map_of_eq_Some_iff [simp del]

section \<open>The format on the air\<close>

text \<open>The packet in the manufacturer data of an advertisement, if it is one of pathweave's.\<close>

definition heard :: "(u16 \<times> bytes) list \<Rightarrow> bytes option" where
  "heard sections = Option.bind (map_of sections MANUFACTURER_COMPANY_ID) strip_magic"

lemma heard_bearer_data [simp]: "heard (bearer_data packet) = Some packet"
  by (simp add: heard_def bearer_data_def strip_magic_def)

definition pass_on :: "bytes option \<Rightarrow> Channel \<Rightarrow> Channel" where
  "pass_on p ch = (case p of None \<Rightarrow> ch | Some packet \<Rightarrow> snd (scan_send packet ch))"

lemma check_and_forward_heard: "check_and_forward (Inr (Some sections)) = heard sections"
  by (simp add: check_and_forward_def heard_def strip_magic_def split: option.splits list.splits)

lemma linux_passes_on:
  assumes "bluer_manufacturer_data env dev n = (Ready (Inr (Some sections)), n')"
  shows "forward_device env dev (ch, n) =
    (Ready (heard sections = None \<or> receiver ch), (pass_on (heard sections) ch, n'))"
  using assms
  by (simp add: forward_device_def await_def check_and_forward_heard ready_def update_def pass_on_def scan_send_def
      split: option.splits)

text \<open>
  What is documented of the WinRT objects the callback reads, when no call fails: the entries
  for a company are those of the advertisement, in order, and a reader gives the whole buffer.
\<close>

definition reads_as :: "('n, 'z) Winrt_Buffers_scheme \<Rightarrow> handle \<Rightarrow> bytes \<Rightarrow> 'n \<Rightarrow> 'n \<Rightarrow> bool" where
  "reads_as env buffer data n n' \<longleftrightarrow> length data < 2 ^ 32 \<and>
     (\<exists>reader n\<^sub>1 n\<^sub>2. reader_from_buffer env buffer n = (Inr reader, n\<^sub>1) \<and>
       unconsumed_length env reader n\<^sub>1 = (Inr (of_nat (length data)), n\<^sub>2) \<and>
       read_bytes env reader (length data) n\<^sub>2 = (Inr data, n'))"

definition shows_sections :: "'n Winrt_Adv \<Rightarrow> handle \<Rightarrow> (u16 \<times> bytes) list \<Rightarrow> 'n \<Rightarrow> 'n \<Rightarrow> bool" where
  "shows_sections env args sections n n' \<longleftrightarrow>
     (let found = map snd (filter (\<lambda>(c, _). c = MANUFACTURER_COMPANY_ID) sections) in
      length found < 2 ^ 32 \<and>
      (\<exists>ad es n\<^sub>1 n\<^sub>2 n\<^sub>3. received_advertisement env args n = (Inr ad, n\<^sub>1) \<and>
        data_by_company env ad MANUFACTURER_COMPANY_ID n\<^sub>1 = (Inr es, n\<^sub>2) \<and>
        entries_size env es n\<^sub>2 = (Inr (of_nat (length found)), n\<^sub>3) \<and>
        (case found of
           [] \<Rightarrow> n' = n\<^sub>3
         | data # _ \<Rightarrow> \<exists>e b n\<^sub>4 n\<^sub>5. entries_get_at env es 0 n\<^sub>3 = (Inr e, n\<^sub>4) \<and> entry_data env e n\<^sub>4 = (Inr b, n\<^sub>5) \<and>
             reads_as env b data n\<^sub>5 n')))"

lemma read_buffer_reads:
  assumes "reads_as env b data n n'"
  shows "read_buffer env b n = (Ready (Inr data), n')"
  using assms by (auto simp: reads_as_def read_buffer_def try_await_Inr_iff unat_of_nat)

lemma found_map_of:
  "map_of sections c = (case map snd (filter (\<lambda>(c', _). c' = c) sections) of [] \<Rightarrow> None | data # _ \<Rightarrow> Some data)"
  by (induction sections) auto

lemma received_bytes_shows:
  assumes "shows_sections env args sections n n'"
  shows "received_bytes env args n = (Ready (Inr (map_of sections MANUFACTURER_COMPANY_ID)), n')"
proof (cases "map snd (filter (\<lambda>(c, _). c = MANUFACTURER_COMPANY_ID) sections)")
  case Nil
  with assms show ?thesis
    by (auto simp: shows_sections_def received_bytes_def try_await_Inr_iff ready_def found_map_of)
next
  case (Cons data rest)
  have "length (data # rest) < 2 ^ 32"
    using assms Cons by (simp add: shows_sections_def Let_def)
  then have "(of_nat (length (data # rest)) :: u32) \<noteq> 0"
    by (simp add: unat_of_nat word_unat_eq_iff del: of_nat_Suc)
  with assms Cons show ?thesis
    by (auto simp: shows_sections_def received_bytes_def try_await_Inr_iff ready_def found_map_of
        dest!: read_buffer_reads simp del: of_nat_Suc)
qed

lemma windows_passes_on:
  assumes "shows_sections env args sections n n'"
  shows "on_received env (Some args) (ch, n) = (Ready (), (pass_on (heard sections) ch, n'))"
  using received_bytes_shows [OF assms]
  by (auto simp: on_received_def await_def ready_def heard_def pass_on_def modify_def update_def split: option.splits)

section \<open>Bearers\<close>

text \<open>
  What the transport expects of a bearer: when advertising a packet succeeds, there was a time
  from which on it was in the air, for half a second, after which it was withdrawn.
\<close>

locale advertising_bearer =
  fixes works :: "'env \<Rightarrow> bool"
    and advertise :: "'env \<Rightarrow> bytes \<Rightarrow> (unit result, 's) future"
    and air :: "'env \<Rightarrow> 's \<Rightarrow> handle \<Rightarrow> (u16 \<times> bytes) list option"
    and withdraw :: "'env \<Rightarrow> handle \<Rightarrow> 's \<Rightarrow> 's"
  assumes puts_on_air: "works env \<Longrightarrow> advertise env packet s = (Ready (Inr ()), s') \<Longrightarrow>
    \<exists>s\<^sub>1 h. air env s\<^sub>1 h = Some (bearer_data packet) \<and> s' = withdraw env h s\<^sub>1"
begin

lemma send_puts_on_air:
  assumes "works env" "broadcast_send (advertise env) c bs (st, s) = (Ready (Inr ()), (st', s'))"
  shows "st' = st \<and> (\<exists>s\<^sub>1 h. air env s\<^sub>1 h = Some (bearer_data (encode_header (conn_peer c) (conn_local c) @ bs)) \<and>
    s' = withdraw env h s\<^sub>1)"
proof -
  have "st' = st" "advertise env (encode_header (conn_peer c) (conn_local c) @ bs) s = (Ready (Inr ()), s')"
    using assms(2) by (auto simp: broadcast_send_def prod_eq_iff)
  with puts_on_air [OF assms(1)] show ?thesis by blast
qed

end

definition linux_withdraw :: "'n Bluer \<Rightarrow> handle \<Rightarrow> handle option \<times> 'n \<Rightarrow> handle option \<times> 'n" where
  "linux_withdraw env h = map_prod id (\<lambda>n. bluer_withdraw env h (sleep (bluer_runtime env) ADVERTISE_HOLD n))"

interpretation on_linux: advertising_bearer bluer_ok "\<lambda>(env, _). linux_advertise env"
  "\<lambda>(_, view) (_, n) h. map_option adv_manufacturer_data (bluer_aired (view n) h)" "\<lambda>(env, _). linux_withdraw env"
proof
  fix env :: "'n Bluer \<times> ('n \<Rightarrow> Bluer_Objects)" and packet s s'
  assume ok: "bluer_ok env" and adv: "(case env of (env, _) \<Rightarrow> linux_advertise env) packet s = (Ready (Inr ()), s')"
  obtain e view where env: "env = (e, view)" by (cases env)
  from adv [unfolded env] obtain a s\<^sub>1 h n where
    "bluer_advertise e a (bearer_advertisement packet) (snd s\<^sub>1) = (Ready (Inr h), n)"
    "s' = linux_withdraw e h (fst s\<^sub>1, n)"
    by (auto simp: linux_advertise_def try_await_Inr_iff on_snd_iff await_def modify_def update_def ready_def
        linux_withdraw_def)
  moreover have "bluer_aired (view n) h = Some (bearer_advertisement packet)"
    using bluer_okD(1) [OF ok [unfolded env] calculation(1)] by simp
  ultimately show "\<exists>s\<^sub>1 h. (case env of (_, view) \<Rightarrow> \<lambda>(_, n) h. map_option adv_manufacturer_data (bluer_aired (view n) h)) s\<^sub>1 h =
      Some (bearer_data packet) \<and> s' = (case env of (env, _) \<Rightarrow> linux_withdraw env) h s\<^sub>1"
    by (intro exI [of _ "(fst s\<^sub>1, n)"] exI [of _ h]) (simp add: env bearer_advertisement_def)
qed

text \<open>
  WinRT, with what its objects hold: the sections, the advertisements of the publishers, whose
  advertisement and whose list of sections a handle is, and what a publisher has in the air.
\<close>

record Adv_Objects = Winrt_Objects +
  sections_at :: "handle \<Rightarrow> u16 \<times> bytes"
  publishers :: "handle \<Rightarrow> (u16 \<times> bytes) list"
  advertisement_of :: "handle \<Rightarrow> handle"
  section_list_of :: "handle \<Rightarrow> handle"
  winrt_aired :: "handle \<Rightarrow> (u16 \<times> bytes) list option"

definition appends :: "handle \<Rightarrow> handle \<Rightarrow> Adv_Objects \<Rightarrow> Adv_Objects" where
  "appends l m v = v\<lparr>publishers := (publishers v)(section_list_of v l := publishers v (section_list_of v l) @ [sections_at v m])\<rparr>"

definition winrt_ok :: "'n Winrt_Adv \<times> ('n \<Rightarrow> Adv_Objects) \<Rightarrow> bool" where
  "winrt_ok = (\<lambda>(env, view).
     buffers_ok env view \<and>
     acts view (adv_publisher_new env) (\<lambda>p v. v\<lparr>publishers := (publishers v)(p := [])\<rparr>) \<and>
     (\<forall>c b. acts view (manufacturer_create env c b) (\<lambda>m v. v\<lparr>sections_at := (sections_at v)(m := (c, buffers v b))\<rparr>)) \<and>
     (\<forall>p. acts view (publisher_advertisement env p) (\<lambda>a v. v\<lparr>advertisement_of := (advertisement_of v)(a := p)\<rparr>)) \<and>
     (\<forall>a. acts view (advertisement_sections env a)
        (\<lambda>l v. v\<lparr>section_list_of := (section_list_of v)(l := advertisement_of v a)\<rparr>)) \<and>
     (\<forall>l m. acts view (sections_append env l m) (\<lambda>_. appends l m)) \<and>
     (\<forall>p x. acts view (set_use_extended env p x) (\<lambda>_ v. v)) \<and>
     (\<forall>p. acts view (adv_publisher_start env p) (\<lambda>_ v. v\<lparr>winrt_aired := (winrt_aired v)(p \<mapsto> publishers v p)\<rparr>)))"

definition windows_withdraw :: "'n Winrt_Adv \<Rightarrow> handle \<Rightarrow> 'n \<Rightarrow> 'n" where
  "windows_withdraw env p n = snd (adv_publisher_stop env p (sleep (winrt_runtime env) ADVERTISE_HOLD n))"

lemma winrt_okD:
  assumes "winrt_ok (env, view)"
  shows "buffers_ok env view"
    "acts view (adv_publisher_new env) (\<lambda>p v. v\<lparr>publishers := (publishers v)(p := [])\<rparr>)"
    "acts view (manufacturer_create env c b) (\<lambda>m v. v\<lparr>sections_at := (sections_at v)(m := (c, buffers v b))\<rparr>)"
    "acts view (publisher_advertisement env p) (\<lambda>a v. v\<lparr>advertisement_of := (advertisement_of v)(a := p)\<rparr>)"
    "acts view (advertisement_sections env a) (\<lambda>l v. v\<lparr>section_list_of := (section_list_of v)(l := advertisement_of v a)\<rparr>)"
    "acts view (sections_append env l m) (\<lambda>_. appends l m)"
    "acts view (set_use_extended env p x) (\<lambda>_ v. v)"
    "acts view (adv_publisher_start env p) (\<lambda>_ v. v\<lparr>winrt_aired := (winrt_aired v)(p \<mapsto> publishers v p)\<rparr>)"
  using assms by (simp_all add: winrt_ok_def)

lemma windows_advertise_on_air:
  assumes ok: "winrt_ok (env, view)" and adv: "windows_advertise env packet n = (Ready (Inr ()), n')"
  shows "\<exists>n\<^sub>1 p. winrt_aired (view n\<^sub>1) p = Some (bearer_data packet) \<and> n' = windows_withdraw env p n\<^sub>1"
proof -
  from adv obtain p b m a l n\<^sub>1 n\<^sub>2 n\<^sub>3 n\<^sub>4 n\<^sub>5 n\<^sub>6 n\<^sub>7 n\<^sub>8 where
    new: "adv_publisher_new env n = (Inr p, n\<^sub>1)" and
    buffer: "bytes_to_ibuffer env (ADV_BEARER_MAGIC # packet) n\<^sub>1 = (Ready (Inr b), n\<^sub>2)" and
    create: "manufacturer_create env MANUFACTURER_COMPANY_ID b n\<^sub>2 = (Inr m, n\<^sub>3)" and
    advert: "publisher_advertisement env p n\<^sub>3 = (Inr a, n\<^sub>4)" and
    sections: "advertisement_sections env a n\<^sub>4 = (Inr l, n\<^sub>5)" and
    append: "sections_append env l m n\<^sub>5 = (Inr (), n\<^sub>6)" and
    extended: "set_use_extended env p True n\<^sub>6 = (Inr (), n\<^sub>7)" and
    start: "adv_publisher_start env p n\<^sub>7 = (Inr (), n\<^sub>8)" and
    stop: "n' = windows_withdraw env p n\<^sub>8"
    by (auto simp: windows_advertise_def try_await_Inr_iff await_def modify_def update_def ready_def windows_withdraw_def)
  obtain w where "view n\<^sub>2 = (view n\<^sub>1)\<lparr>writers := (writers (view n\<^sub>1))(w := ADV_BEARER_MAGIC # packet),
      buffers := (buffers (view n\<^sub>1))(b := ADV_BEARER_MAGIC # packet)\<rparr>"
    using bytes_to_ibuffer_holds [OF winrt_okD(1) [OF ok] buffer] ..
  note views = actsD [OF winrt_okD(2) [OF ok] new] this actsD [OF winrt_okD(3) [OF ok] create]
    actsD [OF winrt_okD(4) [OF ok] advert] actsD [OF winrt_okD(5) [OF ok] sections] actsD [OF winrt_okD(6) [OF ok] append]
    actsD [OF winrt_okD(7) [OF ok] extended] actsD [OF winrt_okD(8) [OF ok] start]
  have "winrt_aired (view n\<^sub>8) p = Some (bearer_data packet)"
    by (simp add: views appends_def bearer_data_def)
  with stop show ?thesis by blast
qed

interpretation on_windows: advertising_bearer winrt_ok "\<lambda>(env, _). windows_advertise env"
  "\<lambda>(_, view) n. winrt_aired (view n)" "\<lambda>(env, _). windows_withdraw env"
  by unfold_locales (auto dest: windows_advertise_on_air split: prod.splits)

lemma dispatch_heard:
  assumes "reads_from src ch msgs s" "src \<noteq> local" "\<not> fst (check_recent t (src, hash bs) m)"
  shows "\<exists>m' s'. dispatch_packet hash local t (encode_header local src @ bs) (m, s) = (True, m', s') \<and>
    reads_from src ch (msgs @ [bs]) s'"
proof -
  have key: "adv_key hash local (t, encode_header local src @ bs) = Some (t, src, hash bs)"
    "payload_from local src (t, encode_header local src @ bs) = Some bs"
    using assms(2) by (simp_all add: adv_key_def payload_from_def)
  show ?thesis
    by (rule dispatch_packet_reads [OF assms(1,2), of hash t "encode_header local src @ bs" m])
       (use key assms(3) in auto)
qed

section \<open>The end of a scan\<close>

text \<open>
  The watcher's thread ends: when the receiver of the channel is gone after some number of
  half seconds, the thread finds out at that moment, stops the watcher and returns.
\<close>

lemma watch_loop_ends:
  assumes "\<forall>i < k. receiver (fst ((sleep rt 500 ^^ Suc i) st))" "(sleep rt 500 ^^ Suc k) st = (ch, n)" "\<not> receiver ch" "k < fuel"
  shows "watch_loop fuel env rt watcher st = (Ready (), (ch, snd (watcher_stop env watcher n)))"
  using assms
proof (induction k arbitrary: st fuel)
  case 0
  then show ?case by (cases fuel) (simp_all add: await_def modify_def update_def)
next
  case (Suc k)
  let ?st = "sleep rt 500 st"
  from Suc.prems(4) obtain f where f: "fuel = Suc f" "k < f" by (cases fuel) auto
  have step: "(sleep rt 500 ^^ Suc i) ?st = (sleep rt 500 ^^ Suc (Suc i)) st" for i
    by (simp add: funpow_swap1)
  have "\<forall>i < k. receiver (fst ((sleep rt 500 ^^ Suc i) ?st))" "(sleep rt 500 ^^ Suc k) ?st = (ch, n)"
    using Suc.prems(1,2) unfolding step by auto
  from Suc.IH [OF this Suc.prems(3) f(2)] have "watch_loop f env rt watcher ?st = (Ready (), (ch, snd (watcher_stop env watcher n)))" .
  moreover have "receiver (fst ?st)"
    using Suc.prems(1) by (auto dest: spec [of _ 0])
  ultimately show ?case
    by (simp add: f(1) await_def modify_def update_def case_prod_beta)
qed

text \<open>
  On Linux a packet is missed when it replaces the data of a device between the first look at
  it and the subscription to its changes.
\<close>

theorem change_before_subscription_is_missed:
  assumes "bluer_manufacturer_data env dev n = (Ready (Inr None), n\<^sub>1)"
    and "bluer_device_events env dev n\<^sub>1 = (Ready (Inr events), n\<^sub>2)"
    and "bluer_device_event env events n\<^sub>2 = (Pending, n\<^sub>3)"
  shows "device_task (Suc k) env dev (ch, n) = (Pending, (ch, n\<^sub>3))"
  using assms by (simp add: device_task_def forward_device_def await_def check_and_forward_def ready_def)

section \<open>A loopback\<close>

text \<open>
  A BlueZ that has one advertisement in the air, and a WinRT that is what its objects hold; both
  hear what they have in the air.
\<close>

definition still_runtime :: "'s Runtime" where
  "still_runtime = \<lparr>now = (\<lambda>_. 0), sleep_until = (\<lambda>_ s. s), getrandom = (\<lambda>s. (fill_array 0, s))\<rparr>"

type_synonym loop_radio = "(Advertisement + LocalService list) option list"

definition radio_view :: "loop_radio \<Rightarrow> Bluer_Objects" where
  "radio_view l =
     \<lparr>bluer_aired = (\<lambda>h. if h < length l then (case l ! h of Some (Inl adv) \<Rightarrow> Some adv | _ \<Rightarrow> None) else None),
      bluer_served = (\<lambda>h. if h < length l then (case l ! h of Some (Inr app) \<Rightarrow> Some app | _ \<Rightarrow> None) else None)\<rparr>"

definition loop_bluer :: "loop_radio Bluer" where
  "loop_bluer =
     \<lparr>bluer_session = ready (Inr 0), bluer_default_adapter = (\<lambda>_. ready (Inr 0)),
      bluer_advertise = (\<lambda>_ adv l. (Ready (Inr (length l)), l @ [Some (Inl adv)])),
      bluer_withdraw = (\<lambda>h l. l[h := None]), bluer_control = (\<lambda>l. (0, l)),
      bluer_serve = (\<lambda>_ app l. (Ready (Inr (length l)), l @ [Some (Inr app)])),
      bluer_discover = (\<lambda>_. ready (Inr 0)), bluer_event = (\<lambda>_ l. (Pending, l)), bluer_device = (\<lambda>_ _ _. Inr 0),
      bluer_device_events = (\<lambda>_. ready (Inr 0)), bluer_device_event = (\<lambda>_ l. (Pending, l)),
      bluer_manufacturer_data = (\<lambda>d l. (Ready (Inr (map_option adv_manufacturer_data (bluer_aired (radio_view l) d))), l)),
      bluer_runtime = still_runtime\<rparr>"

definition found_at :: "handle \<Rightarrow> Adv_Objects \<Rightarrow> bytes list" where
  "found_at p d = map snd (filter (\<lambda>(c, _). c = MANUFACTURER_COMPANY_ID) (the (winrt_aired d p)))"

definition loop_winrt :: "Adv_Objects Winrt_Adv" where
  "loop_winrt =
     \<lparr>data_writer_new = (\<lambda>d. (Inr 0, d\<lparr>writers := (writers d)(0 := [])\<rparr>)),
      write_bytes = (\<lambda>w bs d. (Inr (), d\<lparr>writers := (writers d)(w := writers d w @ bs)\<rparr>)),
      detach_buffer = (\<lambda>w d. (Inr 0, d\<lparr>buffers := (buffers d)(0 := writers d w)\<rparr>)),
      reader_from_buffer = (\<lambda>b d. (Inr b, d)), unconsumed_length = (\<lambda>b d. (Inr (of_nat (length (buffers d b))), d)),
      read_bytes = (\<lambda>b _ d. (Inr (buffers d b), d)),
      adv_publisher_new = (\<lambda>d. (Inr 0, d\<lparr>publishers := (publishers d)(0 := [])\<rparr>)),
      manufacturer_create = (\<lambda>c b d. (Inr 0, d\<lparr>sections_at := (sections_at d)(0 := (c, buffers d b))\<rparr>)),
      publisher_advertisement = (\<lambda>p d. (Inr 0, d\<lparr>advertisement_of := (advertisement_of d)(0 := p)\<rparr>)),
      advertisement_sections = (\<lambda>a d. (Inr 0, d\<lparr>section_list_of := (section_list_of d)(0 := advertisement_of d a)\<rparr>)),
      sections_append = (\<lambda>l m d. (Inr (), d\<lparr>publishers := (publishers d)(section_list_of d l :=
        publishers d (section_list_of d l) @ [sections_at d m])\<rparr>)),
      set_use_extended = (\<lambda>_ _ d. (Inr (), d)),
      adv_publisher_start = (\<lambda>p d. (Inr (), d\<lparr>winrt_aired := (winrt_aired d)(p \<mapsto> publishers d p)\<rparr>)),
      adv_publisher_stop = (\<lambda>p d. (Inr (), d\<lparr>winrt_aired := (winrt_aired d)(p := None)\<rparr>)),
      watcher_new = (\<lambda>d. (Inr 0, d)), set_allow_extended = (\<lambda>_ _ d. (Inr (), d)), watcher_received = (\<lambda>_ d. (Inr (), d)),
      watcher_start = (\<lambda>_ d. (Inr (), d)), watcher_stop = (\<lambda>_ d. (Inr (), d)),
      received_advertisement = (\<lambda>a d. (Inr a, d)), data_by_company = (\<lambda>a _ d. (Inr a, d)),
      entries_size = (\<lambda>p d. (Inr (of_nat (length (found_at p d))), d)), entries_get_at = (\<lambda>p _ d. (Inr p, d)),
      entry_data = (\<lambda>p d. (Inr 0, d\<lparr>buffers := (buffers d)(0 := hd (found_at p d))\<rparr>)), winrt_runtime = still_runtime\<rparr>"

definition loop_objects :: "(u16 \<times> bytes) list \<Rightarrow> Adv_Objects" where
  "loop_objects sections =
     \<lparr>writers = (\<lambda>_. []), buffers = (\<lambda>_. []), sections_at = (\<lambda>_. (0, [])), publishers = (\<lambda>_. []), advertisement_of = id,
      section_list_of = id, winrt_aired = [0 \<mapsto> sections]\<rparr>"

lemma loop_bluer_ok: "bluer_ok (loop_bluer, radio_view)"
  by (auto simp: bluer_ok_def loop_bluer_def radio_view_def withdraws_def quiet_def update_def ready_def nth_append
      nth_list_update fun_eq_iff split: option.splits sum.splits)

lemma loop_winrt_ok: "winrt_ok (loop_winrt, \<lambda>d. d)"
  by (auto simp: winrt_ok_def buffers_ok_def acts_def writes_def detaches_def appends_def loop_winrt_def)

lemma loop_bluer_advertises: "\<exists>s'. linux_advertise loop_bluer packet s = (Ready (Inr ()), s')"
  by (cases s; cases "fst s")
     (simp_all add: linux_advertise_def ensure_adapter_def try_await_Inr_iff on_snd_iff loop_bluer_def await_def ready_def
       modify_def update_def transport_err_def)

lemma loop_winrt_advertises: "succeeds (windows_advertise loop_winrt packet)"
  unfolding windows_advertise_def bytes_to_ibuffer_def
  by (intro succeeds_intros) (simp_all add: loop_winrt_def modify_def update_def)

lemma loop_winrt_shows:
  assumes "length packet < 100"
  shows "\<exists>d'. shows_sections loop_winrt 0 (bearer_data packet) (loop_objects (bearer_data packet)) d'"
  using assms by (simp add: shows_sections_def reads_as_def loop_winrt_def loop_objects_def found_at_def bearer_data_def)

section \<open>Properties\<close>

text \<open>
  C29: what is sent over one bearer arrives over any other.  When a connection's send succeeds on
  Linux or on Windows, the same manufacturer data has been in the air; a Linux and a Windows
  scan that come across it both pass on the same packet, and the dispatcher of the addressed
  node hands exactly the bytes that were sent to its connection with the sender, unless it has
  had them within the last two seconds.
\<close>

theorem advertised_bytes_cross_platforms:
  assumes ok: "bluer_ok (lenv, lview)" "winrt_ok (wenv, view)"
    and linux: "broadcast_send (linux_advertise lenv) c bs (st, s) = (Ready (Inr ()), (st', s'))"
    and windows: "broadcast_send (windows_advertise wenv) c bs (st, n) = (Ready (Inr ()), (st'', n'))"
    and sections: "sections = bearer_data (encode_header (conn_peer c) (conn_local c) @ bs)"
    and scans: "bluer_manufacturer_data lenv' dev m = (Ready (Inr (Some sections)), m')"
      "shows_sections wenv' args sections w w'" "receiver q"
    and node: "reads_from (conn_local c) ch msgs r" "conn_local c \<noteq> conn_peer c"
      "\<not> fst (check_recent t (conn_local c, hash bs) seen_before)"
  shows "(\<exists>a n\<^sub>1 h. map_option adv_manufacturer_data (bluer_aired (lview n\<^sub>1) h) = Some sections \<and> s' = linux_withdraw lenv h (a, n\<^sub>1)) \<and>
    (\<exists>n\<^sub>1 p. winrt_aired (view n\<^sub>1) p = Some sections \<and> n' = windows_withdraw wenv p n\<^sub>1) \<and>
    (\<exists>packet. forward_device lenv' dev (q, m) = (Ready True, (q\<lparr>chan_queue := chan_queue q @ [packet]\<rparr>, m')) \<and>
       on_received wenv' (Some args) (q, w) = (Ready (), (q\<lparr>chan_queue := chan_queue q @ [packet]\<rparr>, w')) \<and>
       (\<exists>x r'. dispatch_packet hash (conn_peer c) t packet (seen_before, r) = (True, x, r') \<and>
          reads_from (conn_local c) ch (msgs @ [bs]) r'))"
proof (intro conjI)
  show "\<exists>a n\<^sub>1 h. map_option adv_manufacturer_data (bluer_aired (lview n\<^sub>1) h) = Some sections \<and> s' = linux_withdraw lenv h (a, n\<^sub>1)"
    using on_linux.send_puts_on_air [OF ok(1), of c bs st s st' s'] linux by (auto simp: sections)
  show "\<exists>n\<^sub>1 p. winrt_aired (view n\<^sub>1) p = Some sections \<and> n' = windows_withdraw wenv p n\<^sub>1"
    using on_windows.send_puts_on_air [OF ok(2), of c bs st n st'' n'] windows by (auto simp: sections)
  have "heard sections = Some (encode_header (conn_peer c) (conn_local c) @ bs)"
    by (simp add: sections)
  with linux_passes_on [OF scans(1), of q] windows_passes_on [OF scans(2), of q] scans(3)
    dispatch_heard [where hash = hash, OF node]
  show "\<exists>packet. forward_device lenv' dev (q, m) = (Ready True, (q\<lparr>chan_queue := chan_queue q @ [packet]\<rparr>, m')) \<and>
       on_received wenv' (Some args) (q, w) = (Ready (), (q\<lparr>chan_queue := chan_queue q @ [packet]\<rparr>, w')) \<and>
       (\<exists>x r'. dispatch_packet hash (conn_peer c) t packet (seen_before, r) = (True, x, r') \<and>
          reads_from (conn_local c) ch (msgs @ [bs]) r')"
    by (intro exI [of _ "encode_header (conn_peer c) (conn_local c) @ bs"])
       (auto simp: pass_on_def scan_send_def)
qed

theorem advertised_bytes_cross_platforms_witness:
  "\<exists>packet q. forward_device loop_bluer 0 (\<lparr>chan_queue = [], receiver = True\<rparr>,
       [Some (Inl (bearer_advertisement (encode_header (fill_array 1) (fill_array 2) @ [7])))]) = (Ready True, q) \<and>
     chan_queue (fst q) = [packet] \<and>
     (\<exists>x r'. dispatch_packet (\<lambda>p. of_nat (length p)) (fill_array 1) 0 packet ([], adv_peer) = (True, x, r') \<and>
        reads_from (fill_array 2) 0 [[7]] r')"
proof -
  let ?c = "\<lparr>conn_local = fill_array 2, conn_peer = fill_array 1, inbound_rx = 0\<rparr>"
  let ?packet = "encode_header (fill_array 1) (fill_array 2) @ [7]"
  let ?n = "[Some (Inl (bearer_advertisement ?packet))]" and ?q = "\<lparr>chan_queue = [], receiver = True\<rparr>"
  let ?d = "loop_objects (bearer_data ?packet)"
  obtain s' where linux: "broadcast_send (linux_advertise loop_bluer) ?c [7] (with_bearer, (None, [])) =
      (Ready (Inr ()), (with_bearer, s'))"
    using loop_bluer_advertises [of ?packet "(None, [])"] by (auto simp: broadcast_send_def)
  obtain d' where windows: "broadcast_send (windows_advertise loop_winrt) ?c [7] (with_bearer, ?d) =
      (Ready (Inr ()), (with_bearer, d'))"
    using loop_winrt_advertises [of ?packet, unfolded succeeds_def, THEN spec, of ?d] by (auto simp: broadcast_send_def)
  obtain d'' where shown: "shows_sections loop_winrt 0 (bearer_data ?packet) ?d d''"
    using loop_winrt_shows [of ?packet] by (auto simp: encode_header_def)
  have data: "bluer_manufacturer_data loop_bluer 0 ?n = (Ready (Inr (Some (bearer_data ?packet))), ?n)"
    by (simp add: loop_bluer_def radio_view_def bearer_advertisement_def)
  have rest: "bearer_data ?packet = bearer_data (encode_header (conn_peer ?c) (conn_local ?c) @ [7])"
    "receiver ?q" "reads_from (conn_local ?c) 0 [] adv_peer" "conn_local ?c \<noteq> conn_peer ?c"
    "\<not> fst (check_recent 0 (conn_local ?c, (\<lambda>p. of_nat (length p)) [7 :: u8]) [])"
    using adv_peer_reads by (simp_all add: check_recent_def)
  from advertised_bytes_cross_platforms [where hash = "\<lambda>p. of_nat (length p)",
      OF loop_bluer_ok loop_winrt_ok linux windows rest(1) data shown rest(2-5)]
  show ?thesis by auto
qed

text \<open>
  A transport can be up and deaf.  When the adapter cannot be opened, or on a platform
  without a bearer, \<open>start\<close> succeeds and the transport has an address to give away; but the scan
  ends at once, so that nothing is ever received, and every send fails.
\<close>

lemma starts_without_a_radio:
  assumes "bluer_session env n = (Ready (Inl e), n')"
  shows "(\<exists>s'. transport_start (adv_transport (linux_advertise env)) ident (s, (None, n)) = (Ready (Inr ()), (s', (None, n))) \<and>
      transport_start (adv_transport unsupported_advertise) ident (s, b) = (Ready (Inr ()), (s', b)) \<and>
      transport_addresses (adv_transport unsupported_advertise) (s', b) =
        [BleAdvertising (short_id_to_hex (adv_short_id (peer_id ident)))]) \<and>
    linux_scan k env (None, n) = (Ready [], (None, n')) \<and>
    adv_dispatch_loop hash local (map (Pair t) unsupported_scan) st = st \<and>
    send_bytes (broadcast_connection (linux_advertise env) c) bs (s, (None, n)) = (Ready (Inl (Transport e)), (s, (None, n'))) \<and>
    (\<exists>msg. send_bytes (broadcast_connection unsupported_advertise c) bs (s, b) = (Ready (Inl (Transport msg)), (s, b)))"
  using assms
  by (simp add: adv_transport_def adv_start_def adv_local_addresses_def linux_scan_def ensure_adapter_def await_def
      try_await_def tried_def on_snd_def ready_def transport_err_def unsupported_scan_def broadcast_connection_def
      broadcast_send_def linux_advertise_def unsupported_advertise_def)

end
