(* ===== verification/Gatt_Server.thy ===== *)
theory Gatt_Server
  imports Ble_Gatt Ble_Bearers
begin

text \<open>
  The peripherals of the BLE transport (\<open>start_peripheral\<close> and the callbacks in
  \<open>crates/pathweave-transport-ble/src/lib.rs\<close>): a GATT server over BlueZ on Linux, over WinRT on
  Windows and over CoreBluetooth on macOS; and the transport on each of them.
\<close>

section \<open>Linux\<close>

definition gatt_application :: "handle \<Rightarrow> handle \<Rightarrow> LocalService list" where
  "gatt_application write_handle notify_handle =
     [\<lparr>ls_uuid = PATHWEAVE_SERVICE_UUID, ls_primary = True,
       ls_characteristics =
         [\<lparr>lc_uuid = WRITE_CHAR_UUID, lc_write_without_response = Some True, lc_notify = None, lc_control = write_handle\<rparr>,
          \<lparr>lc_uuid = NOTIFY_CHAR_UUID, lc_write_without_response = None, lc_notify = Some True, lc_control = notify_handle\<rparr>]\<rparr>]"

definition peripheral_advertisement :: "bytes8 \<Rightarrow> Advertisement" where
  "peripheral_advertisement sid =
     \<lparr>advertisement_type = AsPeripheral, adv_service_uuids = [PATHWEAVE_SERVICE_UUID],
      adv_service_data = [(PATHWEAVE_SERVICE_UUID, service_data sid)], adv_manufacturer_data = [],
      secondary_channel = None\<rparr>"

text \<open>
  The handles of the advertisement and of the application; dropping one withdraws what it stands
  for, as happens to the application when advertising fails.
\<close>

definition advertise_server :: "'n Bluer \<Rightarrow> NodeIdentity \<Rightarrow> handle \<Rightarrow> handle \<Rightarrow> (handle list result, 'n) future" where
  "advertise_server env ident adapter app_handle =
     await (tried (bluer_advertise env adapter (peripheral_advertisement (adv_short_id (peer_id ident))))) (\<lambda>r.
       case r of
         Inl e \<Rightarrow> await (modify (bluer_withdraw env app_handle)) (\<lambda>_. ready (Inl e))
       | Inr adv_handle \<Rightarrow> ready (Inr [adv_handle, app_handle]))"

definition serve_application :: "'n Bluer \<Rightarrow> NodeIdentity \<Rightarrow> handle \<Rightarrow> (handle list result, 'n) future" where
  "serve_application env ident adapter =
     await (update (bluer_control env)) (\<lambda>write_handle.
     await (update (bluer_control env)) (\<lambda>notify_handle.
     try_await (tried (bluer_serve env adapter (gatt_application write_handle notify_handle))) (\<lambda>app_handle.
     advertise_server env ident adapter app_handle)))"

definition linux_start_peripheral :: "'n Bluer \<Rightarrow> NodeIdentity \<Rightarrow> (handle list result, 'n) future" where
  "linux_start_peripheral env ident =
     try_await (tried (bluer_session env)) (\<lambda>session.
     try_await (tried (bluer_default_adapter env session)) (\<lambda>adapter.
     serve_application env ident adapter))"

definition linux_peripheral :: "'n Bluer \<Rightarrow> 'n PeripheralOps" where
  "linux_peripheral env =
     \<lparr>start_peripheral = linux_start_peripheral env, drop_state = fold (bluer_withdraw env)\<rparr>"

section \<open>Windows\<close>

record GUID =
  guid_data1 :: u32
  guid_data2 :: u16
  guid_data3 :: u16
  guid_data4 :: bytes

definition uuid_to_guid :: "uuid \<Rightarrow> GUID" where
  "uuid_to_guid u =
     (let b = bytes_of u in
      \<lparr>guid_data1 = u32_from_be_bytes (take 4 b), guid_data2 = u16_from_be_bytes (take 2 (drop 4 b)),
       guid_data3 = u16_from_be_bytes (take 2 (drop 6 b)), guid_data4 = take 8 (drop 8 b)\<rparr>)"

datatype GattProperty = PropWrite | PropWriteWithoutResponse | PropNotify

text \<open>The GATT server of WinRT, and what its callbacks read.\<close>

record 'n Winrt_Gatt = "'n Winrt_Buffers" +
  provider_create :: "GUID \<Rightarrow> (string + handle, 'n) call"
  result_provider :: "handle \<Rightarrow> (string + handle, 'n) call"
  provider_service :: "handle \<Rightarrow> (string + handle, 'n) call"
  char_params_new :: "(string + handle, 'n) call"
  set_char_properties :: "handle \<Rightarrow> GattProperty \<Rightarrow> (string + unit, 'n) call"
  create_characteristic :: "handle \<Rightarrow> GUID \<Rightarrow> handle \<Rightarrow> (string + handle, 'n) call"
  result_characteristic :: "handle \<Rightarrow> (string + handle, 'n) call"
  register_write_requested :: "handle \<Rightarrow> (string + unit, 'n) call"
  register_clients_changed :: "handle \<Rightarrow> (string + unit, 'n) call"
  adv_params_new :: "(string + handle, 'n) call"
  set_is_connectable :: "handle \<Rightarrow> bool \<Rightarrow> (string + unit, 'n) call"
  set_is_discoverable :: "handle \<Rightarrow> bool \<Rightarrow> (string + unit, 'n) call"
  set_service_data :: "handle \<Rightarrow> handle \<Rightarrow> (string + unit, 'n) call"
  start_advertising_with :: "handle \<Rightarrow> handle \<Rightarrow> (string + unit, 'n) call"
  provider_stop_advertising :: "handle \<Rightarrow> (string + unit, 'n) call"
  notify_value :: "handle \<Rightarrow> handle \<Rightarrow> (string + unit, 'n) call"
  get_request :: "handle \<Rightarrow> (string + handle, 'n) call"
  request_value :: "handle \<Rightarrow> (string + handle, 'n) call"
  subscribed_clients :: "handle \<Rightarrow> (string + u32, 'n) call"

definition local_characteristic ::
  "'n Winrt_Gatt \<Rightarrow> handle \<Rightarrow> GattProperty \<Rightarrow> uuid \<Rightarrow> (handle result, 'n) future" where
  "local_characteristic env service prop u =
     try_await (called (char_params_new env)) (\<lambda>params.
     try_await (called (set_char_properties env params prop)) (\<lambda>_.
     try_await (called (create_characteristic env service (uuid_to_guid u) params)) (\<lambda>created.
     called (result_characteristic env created))))"

text \<open>The parameters of the advertisement, in a block of their own.\<close>

definition air_service :: "'n Winrt_Gatt \<Rightarrow> handle \<Rightarrow> bytes8 \<Rightarrow> (unit result, 'n) future" where
  "air_service env provider sid =
     try_await (bytes_to_ibuffer env (service_data sid)) (\<lambda>buffer.
     try_await (called (adv_params_new env)) (\<lambda>params.
     try_await (called (set_is_connectable env params True)) (\<lambda>_.
     try_await (called (set_is_discoverable env params True)) (\<lambda>_.
     try_await (called (set_service_data env params buffer)) (\<lambda>_.
     called (start_advertising_with env provider params))))))"

text \<open>The handles of the provider and of the characteristic the task notifies with.\<close>

definition windows_start_peripheral :: "'n Winrt_Gatt \<Rightarrow> NodeIdentity \<Rightarrow> (handle list result, 'n) future" where
  "windows_start_peripheral env ident =
     try_await (called (provider_create env (uuid_to_guid PATHWEAVE_SERVICE_UUID))) (\<lambda>created.
     try_await (called (result_provider env created)) (\<lambda>provider.
     try_await (called (provider_service env provider)) (\<lambda>service.
     try_await (local_characteristic env service PropWriteWithoutResponse WRITE_CHAR_UUID) (\<lambda>write_char.
     try_await (local_characteristic env service PropNotify NOTIFY_CHAR_UUID) (\<lambda>notify_char.
     try_await (called (register_write_requested env write_char)) (\<lambda>_.
     try_await (called (register_clients_changed env notify_char)) (\<lambda>_.
     try_await (air_service env provider (adv_short_id (peer_id ident))) (\<lambda>_.
     ready (Inr [provider, notify_char])))))))))"

text \<open>
  Dropping the state ends the task, which stops the advertising.
\<close>

definition windows_peripheral :: "'n Winrt_Gatt \<Rightarrow> 'n PeripheralOps" where
  "windows_peripheral env =
     \<lparr>start_peripheral = windows_start_peripheral env,
      drop_state = (\<lambda>handles n. case handles of provider # _ \<Rightarrow> snd (provider_stop_advertising env provider n) | [] \<Rightarrow> n)\<rparr>"

text \<open>The callbacks: what the handler of writes and the handler of subscriptions give to the task.\<close>

definition on_write_requested :: "'n Winrt_Gatt \<Rightarrow> handle option \<Rightarrow> (TaskEvent list, 'n) future" where
  "on_write_requested env args =
     (case args of
        None \<Rightarrow> ready []
      | Some args \<Rightarrow>
          await (try_await (called (get_request env args)) (\<lambda>request.
                 try_await (called (request_value env request)) (\<lambda>buffer.
                 read_buffer env buffer))) (\<lambda>r.
            ready (case r of Inl _ \<Rightarrow> [] | Inr buf \<Rightarrow> [WriteRequested buf])))"

definition on_clients_changed :: "'n Winrt_Gatt \<Rightarrow> handle option \<Rightarrow> (TaskEvent list, 'n) future" where
  "on_clients_changed env char =
     (case char of
        None \<Rightarrow> ready []
      | Some c \<Rightarrow>
          await (called (subscribed_clients env c)) (\<lambda>r.
            ready (case r of Inl _ \<Rightarrow> [] | Inr clients \<Rightarrow> if clients > 0 then [Subscribe] else [Unsubscribed])))"

text \<open>How the task sends a reply: whether the stack has taken it.\<close>

definition windows_notify :: "'n Winrt_Gatt \<Rightarrow> handle \<Rightarrow> bytes \<Rightarrow> (TaskEvent, 'n) future" where
  "windows_notify env notify_char bs =
     await (try_await (bytes_to_ibuffer env bs) (\<lambda>buffer. called (notify_value env notify_char buffer))) (\<lambda>r.
       ready (TaskReply (\<not> isl r)))"

section \<open>macOS\<close>

text \<open>
  CoreBluetooth; none of the calls has a result that says whether it worked, apart from an update
  of a value.
\<close>

record 'n Core_Bluetooth =
  cb_manager :: "(handle, 'n) call"
  cb_characteristic :: "uuid \<Rightarrow> GattProperty \<Rightarrow> (handle, 'n) call"
  cb_service :: "uuid \<Rightarrow> bool \<Rightarrow> (handle, 'n) call"
  cb_set_characteristics :: "handle \<Rightarrow> handle list \<Rightarrow> 'n \<Rightarrow> 'n"
  cb_add_service :: "handle \<Rightarrow> handle \<Rightarrow> 'n \<Rightarrow> 'n"
  cb_start_advertising :: "handle \<Rightarrow> uuid list \<Rightarrow> 'n \<Rightarrow> 'n"
  cb_stop_advertising :: "handle \<Rightarrow> 'n \<Rightarrow> 'n"
  cb_update_value :: "handle \<Rightarrow> handle \<Rightarrow> bytes \<Rightarrow> (bool, 'n) call"
  cb_respond_success :: "handle \<Rightarrow> handle \<Rightarrow> 'n \<Rightarrow> 'n"
  cb_release :: "handle \<Rightarrow> 'n \<Rightarrow> 'n"

definition macos_start_peripheral :: "'n Core_Bluetooth \<Rightarrow> NodeIdentity \<Rightarrow> (handle list result, 'n) future" where
  "macos_start_peripheral env ident =
     await (update (cb_manager env)) (\<lambda>manager.
     await (update (cb_characteristic env WRITE_CHAR_UUID PropWrite)) (\<lambda>write_char.
     await (update (cb_characteristic env NOTIFY_CHAR_UUID PropNotify)) (\<lambda>notify_char.
     await (update (cb_service env PATHWEAVE_SERVICE_UUID True)) (\<lambda>service.
     await (modify (cb_set_characteristics env service [write_char, notify_char])) (\<lambda>_.
     await (modify (cb_add_service env manager service)) (\<lambda>_.
     await (modify (cb_start_advertising env manager [PATHWEAVE_SERVICE_UUID])) (\<lambda>_.
     ready (Inr [manager, notify_char]))))))))"

definition macos_peripheral :: "'n Core_Bluetooth \<Rightarrow> 'n PeripheralOps" where
  "macos_peripheral env =
     \<lparr>start_peripheral = macos_start_peripheral env,
      drop_state = (\<lambda>handles n. case handles of
          manager # notify_char # _ \<Rightarrow> cb_release env manager (cb_release env notify_char (cb_stop_advertising env manager n))
        | _ \<Rightarrow> n)\<rparr>"

text \<open>The delegate: a request has a value or none; the first request of a batch is answered.\<close>

definition did_subscribe :: "TaskEvent list" where
  "did_subscribe = [Subscribe]"

definition did_receive_writes ::
  "'n Core_Bluetooth \<Rightarrow> handle \<Rightarrow> (handle \<times> bytes option) list \<Rightarrow> (TaskEvent list, 'n) future" where
  "did_receive_writes env manager requests =
     await (modify (\<lambda>n. case requests of (first, _) # _ \<Rightarrow> cb_respond_success env manager first n | [] \<Rightarrow> n)) (\<lambda>_.
     ready (map WriteRequested (List.map_filter snd requests)))"

definition macos_notify :: "'n Core_Bluetooth \<Rightarrow> handle \<Rightarrow> handle \<Rightarrow> bytes \<Rightarrow> (TaskEvent, 'n) future" where
  "macos_notify env manager notify_char bs =
     await (update (cb_update_value env manager notify_char bs)) (\<lambda>ok. ready (TaskReply ok))"

section \<open>The transport\<close>

definition ble_transport ::
  "'n Ble_Env \<Rightarrow> 'n PeripheralOps option \<Rightarrow> ('n BleTransport Connection option, 'n BleTransport) future \<Rightarrow>
     'n BleTransport Transport" where
  "ble_transport env plat recv =
     \<lparr>transport_kind = KBle, transport_cost = (\<lambda>_. Free), transport_connect = ble_connect env,
      transport_accept = ble_accept plat recv, transport_start = ble_start env plat, transport_stop = ble_stop env plat,
      transport_addresses = (\<lambda>_. [])\<rparr>"

section \<open>What the servers offer\<close>

text \<open>A characteristic as a central sees it, and what it needs to find to talk to a server.\<close>

definition seen_char :: "uuid \<times> GattProperty \<Rightarrow> Characteristic" where
  "seen_char = (\<lambda>(u, p). \<lparr>char_uuid = u, write_without_response = (p = PropWriteWithoutResponse)\<rparr>)"

definition dialable :: "(uuid \<times> GattProperty) list \<Rightarrow> WriteType \<Rightarrow> bool" where
  "dialable chars wt \<longleftrightarrow>
     (\<exists>w c msg. find_char WRITE_CHAR_UUID msg (map seen_char chars) = Inr w \<and> write_type w = wt \<and>
        find_char NOTIFY_CHAR_UUID msg (map seen_char chars) = Inr c)"

lemma char_uuids_differ [simp]: "WRITE_CHAR_UUID \<noteq> NOTIFY_CHAR_UUID" "NOTIFY_CHAR_UUID \<noteq> WRITE_CHAR_UUID"
proof -
  have "bytes_of WRITE_CHAR_UUID ! 0 \<noteq> bytes_of NOTIFY_CHAR_UUID ! 0"
    by (simp add: WRITE_CHAR_UUID_def NOTIFY_CHAR_UUID_def array_of_def Abs_byte_array_inverse)
  then show "WRITE_CHAR_UUID \<noteq> NOTIFY_CHAR_UUID" "NOTIFY_CHAR_UUID \<noteq> WRITE_CHAR_UUID" by auto
qed

lemma dialable_pair:
  "dialable [(WRITE_CHAR_UUID, p), (NOTIFY_CHAR_UUID, q)] (if p = PropWriteWithoutResponse then WithoutResponse else WithResponse)"
  by (simp add: dialable_def find_char_def seen_char_def write_type_def)

definition local_char :: "LocalCharacteristic \<Rightarrow> uuid \<times> GattProperty" where
  "local_char lc =
     (lc_uuid lc,
      case (lc_write_without_response lc, lc_notify lc) of
        (Some True, _) \<Rightarrow> PropWriteWithoutResponse
      | (Some False, _) \<Rightarrow> PropWrite
      | (None, _) \<Rightarrow> PropNotify)"

section \<open>WinRT\<close>

text \<open>
  What the objects of the GATT server hold: a provider its service, with the characteristics; the
  parameters of a characteristic its property; the settings of an advertisement; and what a
  provider has in the air.
\<close>

record Gatt_Settings =
  connectable :: bool
  discoverable :: bool
  set_data :: "bytes option"

record Gatt_Objects = Winrt_Objects +
  provider_of_result :: "handle \<Rightarrow> handle"
  provider_of_service :: "handle \<Rightarrow> handle"
  served_guid :: "handle \<Rightarrow> GUID"
  served_chars :: "handle \<Rightarrow> (GUID \<times> GattProperty) list"
  param_property :: "handle \<Rightarrow> GattProperty"
  created_guid :: "handle \<Rightarrow> GUID"
  char_guid :: "handle \<Rightarrow> GUID option"
  write_handlers :: "GUID set"
  client_handlers :: "GUID set"
  settings :: "handle \<Rightarrow> Gatt_Settings"
  gatt_aired :: "handle \<Rightarrow> Gatt_Settings option"

definition creates_provider :: "GUID \<Rightarrow> handle \<Rightarrow> Gatt_Objects \<Rightarrow> Gatt_Objects" where
  "creates_provider g r v =
     v\<lparr>served_guid := (served_guid v)(provider_of_result v r := g), served_chars := (served_chars v)(provider_of_result v r := [])\<rparr>"

definition creates_char :: "handle \<Rightarrow> GUID \<Rightarrow> handle \<Rightarrow> handle \<Rightarrow> Gatt_Objects \<Rightarrow> Gatt_Objects" where
  "creates_char s g c r v =
     (let p = provider_of_service v s in
      v\<lparr>served_chars := (served_chars v)(p := served_chars v p @ [(g, param_property v c)]),
        created_guid := (created_guid v)(r := g)\<rparr>)"

definition sets :: "handle \<Rightarrow> (Gatt_Settings \<Rightarrow> Gatt_Settings) \<Rightarrow> Gatt_Objects \<Rightarrow> Gatt_Objects" where
  "sets a f v = v\<lparr>settings := (settings v)(a := f (settings v a))\<rparr>"

definition winrt_gatt_ok :: "'n Winrt_Gatt \<times> ('n \<Rightarrow> Gatt_Objects) \<Rightarrow> bool" where
  "winrt_gatt_ok = (\<lambda>(env, view).
     buffers_ok env view \<and>
     (\<forall>g. acts view (provider_create env g) (creates_provider g)) \<and>
     (\<forall>r n p n'. result_provider env r n = (Inr p, n') \<longrightarrow> view n' = view n \<and> p = provider_of_result (view n) r) \<and>
     (\<forall>p. acts view (provider_service env p) (\<lambda>s v. v\<lparr>provider_of_service := (provider_of_service v)(s := p)\<rparr>)) \<and>
     acts view (char_params_new env) (\<lambda>_ v. v) \<and>
     (\<forall>c x. acts view (set_char_properties env c x) (\<lambda>_ v. v\<lparr>param_property := (param_property v)(c := x)\<rparr>)) \<and>
     (\<forall>s g c. acts view (create_characteristic env s g c) (creates_char s g c)) \<and>
     (\<forall>r. acts view (result_characteristic env r) (\<lambda>c v. v\<lparr>char_guid := (char_guid v)(c \<mapsto> created_guid v r)\<rparr>)) \<and>
     (\<forall>r n c n'. result_characteristic env r n = (Inr c, n') \<longrightarrow> char_guid (view n) c = None) \<and>
     (\<forall>c. acts view (register_write_requested env c) (\<lambda>_ v. v\<lparr>write_handlers := set_option (char_guid v c) \<union> write_handlers v\<rparr>)) \<and>
     (\<forall>c. acts view (register_clients_changed env c) (\<lambda>_ v. v\<lparr>client_handlers := set_option (char_guid v c) \<union> client_handlers v\<rparr>)) \<and>
     acts view (adv_params_new env) (\<lambda>_ v. v) \<and>
     (\<forall>a x. acts view (set_is_connectable env a x) (\<lambda>_. sets a (\<lambda>st. st\<lparr>connectable := x\<rparr>))) \<and>
     (\<forall>a x. acts view (set_is_discoverable env a x) (\<lambda>_. sets a (\<lambda>st. st\<lparr>discoverable := x\<rparr>))) \<and>
     (\<forall>a b. acts view (set_service_data env a b) (\<lambda>_ v. sets a (\<lambda>st. st\<lparr>set_data := Some (buffers v b)\<rparr>) v)) \<and>
     (\<forall>p a. acts view (start_advertising_with env p a) (\<lambda>_ v. v\<lparr>gatt_aired := (gatt_aired v)(p \<mapsto> settings v a)\<rparr>)))"

lemma winrt_gatt_okD:
  assumes "winrt_gatt_ok (env, view)"
  shows "buffers_ok env view"
    "acts view (provider_create env g) (creates_provider g)"
    "result_provider env r n = (Inr p, n') \<Longrightarrow> view n' = view n \<and> p = provider_of_result (view n) r"
    "acts view (provider_service env p) (\<lambda>s v. v\<lparr>provider_of_service := (provider_of_service v)(s := p)\<rparr>)"
    "acts view (char_params_new env) (\<lambda>_ v. v)"
    "acts view (set_char_properties env c x) (\<lambda>_ v. v\<lparr>param_property := (param_property v)(c := x)\<rparr>)"
    "acts view (create_characteristic env s g c) (creates_char s g c)"
    "acts view (result_characteristic env r) (\<lambda>c v. v\<lparr>char_guid := (char_guid v)(c \<mapsto> created_guid v r)\<rparr>)"
    "acts view (register_write_requested env c) (\<lambda>_ v. v\<lparr>write_handlers := set_option (char_guid v c) \<union> write_handlers v\<rparr>)"
    "acts view (register_clients_changed env c) (\<lambda>_ v. v\<lparr>client_handlers := set_option (char_guid v c) \<union> client_handlers v\<rparr>)"
    "acts view (adv_params_new env) (\<lambda>_ v. v)"
    "acts view (set_is_connectable env a y) (\<lambda>_. sets a (\<lambda>st. st\<lparr>connectable := y\<rparr>))"
    "acts view (set_is_discoverable env a y) (\<lambda>_. sets a (\<lambda>st. st\<lparr>discoverable := y\<rparr>))"
    "acts view (set_service_data env a b) (\<lambda>_ v. sets a (\<lambda>st. st\<lparr>set_data := Some (buffers v b)\<rparr>) v)"
    "acts view (start_advertising_with env p a) (\<lambda>_ v. v\<lparr>gatt_aired := (gatt_aired v)(p \<mapsto> settings v a)\<rparr>)"
    "result_characteristic env r n = (Inr c, n') \<Longrightarrow> char_guid (view n) c = None"
  using assms by (simp_all add: winrt_gatt_ok_def) blast

lemma local_characteristic_view:
  assumes ok: "winrt_gatt_ok (env, view)" and run: "local_characteristic env s x u n = (Ready (Inr c), n')"
  shows "char_guid (view n) c = None \<and> (\<exists>h r. view n' =
    (creates_char s (uuid_to_guid u) h r ((view n)\<lparr>param_property := (param_property (view n))(h := x)\<rparr>))
      \<lparr>char_guid := (char_guid (view n))(c \<mapsto> uuid_to_guid u)\<rparr>)"
proof -
  obtain h r n\<^sub>1 n\<^sub>2 n\<^sub>3 where steps: "char_params_new env n = (Inr h, n\<^sub>1)" "set_char_properties env h x n\<^sub>1 = (Inr (), n\<^sub>2)"
    "create_characteristic env s (uuid_to_guid u) h n\<^sub>2 = (Inr r, n\<^sub>3)" "result_characteristic env r n\<^sub>3 = (Inr c, n')"
    using run unfolding local_characteristic_def try_await_Inr_iff called_Inr_iff by auto
  note views = actsD [OF winrt_gatt_okD(5) [OF ok] steps(1)] actsD [OF winrt_gatt_okD(6) [OF ok] steps(2)]
    actsD [OF winrt_gatt_okD(7) [OF ok] steps(3)] actsD [OF winrt_gatt_okD(8) [OF ok] steps(4)] creates_char_def Let_def
  have "view n' = (creates_char s (uuid_to_guid u) h r ((view n)\<lparr>param_property := (param_property (view n))(h := x)\<rparr>))
      \<lparr>char_guid := (char_guid (view n))(c \<mapsto> uuid_to_guid u)\<rparr>"
    by (simp add: views)
  moreover have "char_guid (view n) c = None"
    using winrt_gatt_okD(16) [OF ok steps(4)] by (simp add: views)
  ultimately show ?thesis by blast
qed

lemma air_service_view:
  assumes ok: "winrt_gatt_ok (env, view)" and run: "air_service env p sid n = (Ready (Inr ()), n')"
  shows "\<exists>w b st. view n' = (view n)\<lparr>writers := w, buffers := b, settings := st,
    gatt_aired := (gatt_aired (view n))(p \<mapsto> \<lparr>connectable = True, discoverable = True, set_data = Some (service_data sid)\<rparr>)\<rparr>"
proof -
  obtain b a n\<^sub>1 n\<^sub>2 n\<^sub>3 n\<^sub>4 n\<^sub>5 where
    steps: "bytes_to_ibuffer env (service_data sid) n = (Ready (Inr b), n\<^sub>1)" "adv_params_new env n\<^sub>1 = (Inr a, n\<^sub>2)"
      "set_is_connectable env a True n\<^sub>2 = (Inr (), n\<^sub>3)" "set_is_discoverable env a True n\<^sub>3 = (Inr (), n\<^sub>4)"
      "set_service_data env a b n\<^sub>4 = (Inr (), n\<^sub>5)" "start_advertising_with env p a n\<^sub>5 = (Inr (), n')"
    using run unfolding air_service_def try_await_Inr_iff called_Inr_iff by auto
  obtain w where buf: "view n\<^sub>1 = (view n)\<lparr>writers := w, buffers := (buffers (view n))(b := service_data sid)\<rparr>"
    using bytes_to_ibuffer_holds [OF winrt_gatt_okD(1) [OF ok] steps(1)] by blast
  have all: "(settings (view n) a)\<lparr>connectable := True, discoverable := True, set_data := Some (service_data sid)\<rparr> =
      \<lparr>connectable = True, discoverable = True, set_data = Some (service_data sid)\<rparr>"
    by (cases "settings (view n) a") simp
  have "view n' = (view n)\<lparr>writers := w, buffers := (buffers (view n))(b := service_data sid),
      settings := (settings (view n))(a := \<lparr>connectable = True, discoverable = True, set_data = Some (service_data sid)\<rparr>),
      gatt_aired := (gatt_aired (view n))(p \<mapsto> \<lparr>connectable = True, discoverable = True, set_data = Some (service_data sid)\<rparr>)\<rparr>"
    by (simp add: buf actsD [OF winrt_gatt_okD(11) [OF ok] steps(2)] actsD [OF winrt_gatt_okD(12) [OF ok] steps(3)]
        actsD [OF winrt_gatt_okD(13) [OF ok] steps(4)] actsD [OF winrt_gatt_okD(14) [OF ok] steps(5)]
        actsD [OF winrt_gatt_okD(15) [OF ok] steps(6)] sets_def all)
  then show ?thesis by blast
qed

lemma windows_offer:
  assumes ok: "winrt_gatt_ok (env, view)" and run: "windows_start_peripheral env ident n = (Ready (Inr handles), n')"
  shows "\<exists>p c. handles = [p, c] \<and> char_guid (view n') c = Some (uuid_to_guid NOTIFY_CHAR_UUID) \<and>
    served_guid (view n') p = uuid_to_guid PATHWEAVE_SERVICE_UUID \<and>
    served_chars (view n') p = [(uuid_to_guid WRITE_CHAR_UUID, PropWriteWithoutResponse), (uuid_to_guid NOTIFY_CHAR_UUID, PropNotify)] \<and>
    uuid_to_guid WRITE_CHAR_UUID \<in> write_handlers (view n') \<and> uuid_to_guid NOTIFY_CHAR_UUID \<in> client_handlers (view n') \<and>
    gatt_aired (view n') p =
      Some \<lparr>connectable = True, discoverable = True, set_data = Some (service_data (adv_short_id (peer_id ident)))\<rparr>"
proof -
  obtain r p s w c n\<^sub>1 n\<^sub>2 n\<^sub>3 n\<^sub>4 n\<^sub>5 n\<^sub>6 n\<^sub>7 where
    steps: "provider_create env (uuid_to_guid PATHWEAVE_SERVICE_UUID) n = (Inr r, n\<^sub>1)" "result_provider env r n\<^sub>1 = (Inr p, n\<^sub>2)"
      "provider_service env p n\<^sub>2 = (Inr s, n\<^sub>3)" and
    chars: "local_characteristic env s PropWriteWithoutResponse WRITE_CHAR_UUID n\<^sub>3 = (Ready (Inr w), n\<^sub>4)"
      "local_characteristic env s PropNotify NOTIFY_CHAR_UUID n\<^sub>4 = (Ready (Inr c), n\<^sub>5)" and
    handlers: "register_write_requested env w n\<^sub>5 = (Inr (), n\<^sub>6)" "register_clients_changed env c n\<^sub>6 = (Inr (), n\<^sub>7)" and
    air: "air_service env p (adv_short_id (peer_id ident)) n\<^sub>7 = (Ready (Inr ()), n')" and result: "handles = [p, c]"
    using run unfolding windows_start_peripheral_def try_await_Inr_iff called_Inr_iff ready_def prod.inject poll.inject sum.inject
    by auto
  have made: "served_guid (view n\<^sub>3) p = uuid_to_guid PATHWEAVE_SERVICE_UUID" "served_chars (view n\<^sub>3) p = []"
    "provider_of_service (view n\<^sub>3) s = p"
    using actsD [OF winrt_gatt_okD(2) [OF ok] steps(1)] winrt_gatt_okD(3) [OF ok steps(2)]
      actsD [OF winrt_gatt_okD(4) [OF ok] steps(3)] by (simp_all add: creates_provider_def)
  have "served_chars (view n\<^sub>4) p = [(uuid_to_guid WRITE_CHAR_UUID, PropWriteWithoutResponse)]"
    "provider_of_service (view n\<^sub>4) s = p" "served_guid (view n\<^sub>4) p = served_guid (view n\<^sub>3) p"
    "char_guid (view n\<^sub>4) w = Some (uuid_to_guid WRITE_CHAR_UUID)"
    using local_characteristic_view [OF ok chars(1)] made(2,3) by (auto simp: creates_char_def Let_def)
  moreover from this have "served_chars (view n\<^sub>5) p =
      [(uuid_to_guid WRITE_CHAR_UUID, PropWriteWithoutResponse), (uuid_to_guid NOTIFY_CHAR_UUID, PropNotify)]"
    "served_guid (view n\<^sub>5) p = served_guid (view n\<^sub>4) p" "char_guid (view n\<^sub>5) w = Some (uuid_to_guid WRITE_CHAR_UUID)"
    "char_guid (view n\<^sub>5) c = Some (uuid_to_guid NOTIFY_CHAR_UUID)"
    using local_characteristic_view [OF ok chars(2)] by (auto simp: creates_char_def Let_def)
  ultimately show ?thesis
    using result made(1) air_service_view [OF ok air] actsD [OF winrt_gatt_okD(9) [OF ok] handlers(1)]
      actsD [OF winrt_gatt_okD(10) [OF ok] handlers(2)] by auto
qed

section \<open>Linux and macOS\<close>

lemma await_update: "await (update c) k n = k (fst (c n)) (snd (c n))"
  by (simp add: await_def update_def case_prod_beta)

lemma await_modify: "await (modify f) k n = k () (f n)"
  by (simp add: modify_def await_update)

lemma await_Ready_iff: "await m k s = (Ready b, s') \<longleftrightarrow> (\<exists>a s\<^sub>1. m s = (Ready a, s\<^sub>1) \<and> k a s\<^sub>1 = (Ready b, s'))"
  by (auto simp: await_def split: prod.splits poll.splits)

text \<open>A call that is tried fails, which ends the function, or gives the value the rest goes on with.\<close>

lemma try_triedE:
  assumes "try_await (tried m) k s = (Ready r, s')"
  obtains (failed) msg where "m s = (Ready (Inl msg), s')" "r = Inl (Transport msg)"
  | (went_on) a s\<^sub>1 where "m s = (Ready (Inr a), s\<^sub>1)" "k a s\<^sub>1 = (Ready r, s')"
  using assms
  by (auto simp: try_await_def tried_def await_def ready_def transport_err_def split: prod.splits poll.splits sum.splits)

lemma advertise_serverE:
  assumes "advertise_server env ident a app n = (Ready r, n')"
  obtains (failed) msg m where
      "bluer_advertise env a (peripheral_advertisement (adv_short_id (peer_id ident))) n = (Ready (Inl msg), m)"
      "r = Inl (Transport msg)" "n' = bluer_withdraw env app m"
  | (aired) adv where
      "bluer_advertise env a (peripheral_advertisement (adv_short_id (peer_id ident))) n = (Ready (Inr adv), n')"
      "r = Inr [adv, app]"
proof -
  obtain r' m where adv: "bluer_advertise env a (peripheral_advertisement (adv_short_id (peer_id ident))) n = (Ready r', m)"
    and rest: "(case transport_err r' of Inl e \<Rightarrow> (Ready (Inl e), bluer_withdraw env app m) | Inr h \<Rightarrow> (Ready (Inr [h, app]), m)) =
      (Ready r, n')"
    using assms
    unfolding advertise_server_def tried_def await_Ready_iff await_modify ready_def
    by (fastforce simp: await_modify ready_def split: sum.split_asm)
  show thesis
    using adv rest failed aired by (cases r') (simp_all add: transport_err_def)
qed

text \<open>Opening the adapter and making the handles; the server itself is what follows.\<close>

lemma linux_start_cases:
  assumes ok: "bluer_ok (env, view)" and run: "linux_start_peripheral env ident n = (Ready r, n')"
  obtains (unopened) msg where "r = Inl (Transport msg)" "view n' = view n"
  | (serving) a c d m msg where "view m = view n" "bluer_serve env a (gatt_application c d) m = (Ready (Inl msg), n')"
      "r = Inl (Transport msg)"
  | (served) a c d m app m' where "view m = view n" "bluer_serve env a (gatt_application c d) m = (Ready (Inr app), m')"
      "advertise_server env ident a app m' = (Ready r, n')"
proof -
  note quiet = bluer_okD(5-7) [OF ok]
  show thesis
  proof (rule try_triedE [OF run [unfolded linux_start_peripheral_def]])
    fix msg
    assume "bluer_session env n = (Ready (Inl msg), n')" "r = Inl (Transport msg)"
    with unopened quiet(1) [of n] show thesis by simp
  next
    fix h m\<^sub>1
    assume session: "bluer_session env n = (Ready (Inr h), m\<^sub>1)"
      and "try_await (tried (bluer_default_adapter env h)) (serve_application env ident) m\<^sub>1 = (Ready r, n')"
    from this(2) show thesis
    proof (rule try_triedE)
      fix msg
      assume "bluer_default_adapter env h m\<^sub>1 = (Ready (Inl msg), n')" "r = Inl (Transport msg)"
      with unopened session quiet(1) [of n] quiet(2) [of h m\<^sub>1] show thesis by simp
    next
      fix a m\<^sub>2
      let ?w = "bluer_control env m\<^sub>2"
      let ?d = "bluer_control env (snd ?w)"
      assume adapter: "bluer_default_adapter env h m\<^sub>1 = (Ready (Inr a), m\<^sub>2)"
        and "serve_application env ident a m\<^sub>2 = (Ready r, n')"
      then have "try_await (tried (bluer_serve env a (gatt_application (fst ?w) (fst ?d)))) (advertise_server env ident a)
          (snd ?d) = (Ready r, n')"
        by (simp add: serve_application_def await_update)
      moreover have "view (snd ?d) = view n"
        using session adapter quiet(1) [of n] quiet(2) [of h m\<^sub>1] quiet(3) [of m\<^sub>2] quiet(3) [of "snd ?w"] by simp
      ultimately show thesis
        using serving served by (elim try_triedE) simp_all
    qed
  qed
qed

lemma linux_offer:
  assumes ok: "bluer_ok (env, view)" and run: "linux_start_peripheral env ident n = (Ready (Inr handles), n')"
  shows "\<exists>adv app c d. handles = [adv, app] \<and> adv \<noteq> app \<and>
    view n' = (view n)\<lparr>bluer_served := (bluer_served (view n))(app \<mapsto> gatt_application c d),
      bluer_aired := (bluer_aired (view n))(adv \<mapsto> peripheral_advertisement (adv_short_id (peer_id ident)))\<rparr> \<and>
    bluer_aired (view n) adv = None \<and> bluer_served (view n) adv = None \<and>
    bluer_aired (view n) app = None \<and> bluer_served (view n) app = None"
proof (cases rule: linux_start_cases [OF ok run])
  case (3 a c d m app m')
  note view = bluer_okD(2) [OF ok 3(2)]
  obtain adv where adv: "bluer_advertise env a (peripheral_advertisement (adv_short_id (peer_id ident))) m' = (Ready (Inr adv), n')"
    "handles = [adv, app]"
    by (rule advertise_serverE [OF 3(3)]) auto
  from bluer_okD(1) [OF ok this(1)] view 3(1) adv(2) show ?thesis
    by (auto split: if_splits)
qed simp_all

text \<open>
  What the objects of CoreBluetooth hold: a characteristic its id and property, a service its
  characteristics, a manager its services and what it advertises.  A new characteristic is not one
  that was there before.  A manager that is not powered on ignores what it is told, and nothing
  says that a new one is powered on.
\<close>

record Core_Objects =
  cb_chars :: "handle \<Rightarrow> (uuid \<times> GattProperty) option"
  cb_services :: "handle \<Rightarrow> uuid \<times> bool \<times> handle list"
  cb_added :: "handle \<Rightarrow> handle list"
  cb_aired :: "handle \<Rightarrow> uuid list option"
  cb_powered :: "handle \<Rightarrow> bool"

definition core_bluetooth_ok :: "'n Core_Bluetooth \<times> ('n \<Rightarrow> Core_Objects) \<Rightarrow> bool" where
  "core_bluetooth_ok = (\<lambda>(env, view).
     (\<forall>n. \<exists>b. view (snd (cb_manager env n)) = (view n)
        \<lparr>cb_added := (cb_added (view n))(fst (cb_manager env n) := []),
         cb_aired := (cb_aired (view n))(fst (cb_manager env n) := None),
         cb_powered := (cb_powered (view n))(fst (cb_manager env n) := b)\<rparr>) \<and>
     (\<forall>u p n. cb_chars (view n) (fst (cb_characteristic env u p n)) = None \<and>
        view (snd (cb_characteristic env u p n)) =
          (view n)\<lparr>cb_chars := (cb_chars (view n))(fst (cb_characteristic env u p n) \<mapsto> (u, p))\<rparr>) \<and>
     (\<forall>u b n. view (snd (cb_service env u b n)) =
        (view n)\<lparr>cb_services := (cb_services (view n))(fst (cb_service env u b n) := (u, b, []))\<rparr>) \<and>
     (\<forall>s cs n. view (cb_set_characteristics env s cs n) =
        (view n)\<lparr>cb_services := (cb_services (view n))(s := (fst (cb_services (view n) s), fst (snd (cb_services (view n) s)), cs))\<rparr>) \<and>
     (\<forall>m s n. view (cb_add_service env m s n) =
        (if cb_powered (view n) m then (view n)\<lparr>cb_added := (cb_added (view n))(m := cb_added (view n) m @ [s])\<rparr> else view n)) \<and>
     (\<forall>m us n. view (cb_start_advertising env m us n) =
        (if cb_powered (view n) m then (view n)\<lparr>cb_aired := (cb_aired (view n))(m \<mapsto> us)\<rparr> else view n)))"

lemma core_bluetooth_okD:
  assumes "core_bluetooth_ok (env, view)"
  shows "\<exists>b. view (snd (cb_manager env n)) = (view n)
      \<lparr>cb_added := (cb_added (view n))(fst (cb_manager env n) := []),
       cb_aired := (cb_aired (view n))(fst (cb_manager env n) := None),
       cb_powered := (cb_powered (view n))(fst (cb_manager env n) := b)\<rparr>"
    and "cb_chars (view n) (fst (cb_characteristic env u p n)) = None"
    and "view (snd (cb_characteristic env u p n)) =
      (view n)\<lparr>cb_chars := (cb_chars (view n))(fst (cb_characteristic env u p n) \<mapsto> (u, p))\<rparr>"
    and "view (snd (cb_service env u q n)) =
      (view n)\<lparr>cb_services := (cb_services (view n))(fst (cb_service env u q n) := (u, q, []))\<rparr>"
    and "view (cb_set_characteristics env s cs n) =
      (view n)\<lparr>cb_services := (cb_services (view n))(s := (fst (cb_services (view n) s), fst (snd (cb_services (view n) s)), cs))\<rparr>"
    and "view (cb_add_service env m s n) =
      (if cb_powered (view n) m then (view n)\<lparr>cb_added := (cb_added (view n))(m := cb_added (view n) m @ [s])\<rparr> else view n)"
    and "view (cb_start_advertising env m us n) =
      (if cb_powered (view n) m then (view n)\<lparr>cb_aired := (cb_aired (view n))(m \<mapsto> us)\<rparr> else view n)"
  using assms unfolding core_bluetooth_ok_def prod.case by blast+

lemma macos_offer:
  assumes ok: "core_bluetooth_ok (env, view)" and run: "macos_start_peripheral env ident n = (Ready (Inr handles), n')"
  shows "\<exists>m s w c. handles = [m, c] \<and>
    cb_aired (view n') m = (if cb_powered (view n') m then Some [PATHWEAVE_SERVICE_UUID] else None) \<and>
    cb_added (view n') m = (if cb_powered (view n') m then [s] else []) \<and>
    cb_services (view n') s = (PATHWEAVE_SERVICE_UUID, True, [w, c]) \<and>
    cb_chars (view n') w = Some (WRITE_CHAR_UUID, PropWrite) \<and> cb_chars (view n') c = Some (NOTIFY_CHAR_UUID, PropNotify)"
proof -
  obtain m n\<^sub>1 where m: "cb_manager env n = (m, n\<^sub>1)" by fastforce
  obtain w n\<^sub>2 where w: "cb_characteristic env WRITE_CHAR_UUID PropWrite n\<^sub>1 = (w, n\<^sub>2)" by fastforce
  obtain c n\<^sub>3 where c: "cb_characteristic env NOTIFY_CHAR_UUID PropNotify n\<^sub>2 = (c, n\<^sub>3)" by fastforce
  obtain s n\<^sub>4 where s: "cb_service env PATHWEAVE_SERVICE_UUID True n\<^sub>3 = (s, n\<^sub>4)" by fastforce
  obtain b where v1: "view n\<^sub>1 = (view n)\<lparr>cb_added := (cb_added (view n))(m := []), cb_aired := (cb_aired (view n))(m := None),
      cb_powered := (cb_powered (view n))(m := b)\<rparr>"
    using core_bluetooth_okD(1) [OF ok, of n] m by auto
  have v2: "view n\<^sub>2 = (view n\<^sub>1)\<lparr>cb_chars := (cb_chars (view n\<^sub>1))(w \<mapsto> (WRITE_CHAR_UUID, PropWrite))\<rparr>"
    using core_bluetooth_okD(3) [OF ok, of WRITE_CHAR_UUID PropWrite n\<^sub>1] w by simp
  have v3: "view n\<^sub>3 = (view n\<^sub>2)\<lparr>cb_chars := (cb_chars (view n\<^sub>2))(c \<mapsto> (NOTIFY_CHAR_UUID, PropNotify))\<rparr>"
    using core_bluetooth_okD(3) [OF ok, of NOTIFY_CHAR_UUID PropNotify n\<^sub>2] c by simp
  have v4: "view n\<^sub>4 = (view n\<^sub>3)\<lparr>cb_services := (cb_services (view n\<^sub>3))(s := (PATHWEAVE_SERVICE_UUID, True, []))\<rparr>"
    using core_bluetooth_okD(4) [OF ok, of PATHWEAVE_SERVICE_UUID True n\<^sub>3] s by simp
  have "w \<noteq> c"
    using core_bluetooth_okD(2) [OF ok, of n\<^sub>2 NOTIFY_CHAR_UUID PropNotify] c v2 by auto
  moreover have "handles = [m, c]" "n' = cb_start_advertising env m [PATHWEAVE_SERVICE_UUID]
      (cb_add_service env m s (cb_set_characteristics env s [w, c] n\<^sub>4))"
    using run by (simp_all add: macos_start_peripheral_def await_update await_modify ready_def m w c s)
  ultimately have "handles = [m, c] \<and>
      cb_aired (view n') m = (if cb_powered (view n') m then Some [PATHWEAVE_SERVICE_UUID] else None) \<and>
      cb_added (view n') m = (if cb_powered (view n') m then [s] else []) \<and>
      cb_services (view n') s = (PATHWEAVE_SERVICE_UUID, True, [w, c]) \<and>
      cb_chars (view n') w = Some (WRITE_CHAR_UUID, PropWrite) \<and> cb_chars (view n') c = Some (NOTIFY_CHAR_UUID, PropNotify)"
    by (cases b) (simp_all add: core_bluetooth_okD(5-7) [OF ok] v1 v2 v3 v4)
  then show ?thesis by blast
qed

section \<open>Identifiers\<close>

text \<open>A GUID keeps the bytes of a UUID: the conversion has an inverse.\<close>

definition guid_bytes :: "GUID \<Rightarrow> bytes" where
  "guid_bytes g = u32_to_be_bytes (guid_data1 g) @ u16_to_be_bytes (guid_data2 g) @ u16_to_be_bytes (guid_data3 g) @ guid_data4 g"

lemma be_bytes_inverse:
  "length bs = 4 \<Longrightarrow> u32_to_be_bytes (u32_from_be_bytes bs) = bs"
  "length bs' = 2 \<Longrightarrow> u16_to_be_bytes (u16_from_be_bytes bs') = bs'"
  using be_to_nat_less [of bs] nat_to_be_be_to_nat [of bs] be_to_nat_less [of bs'] nat_to_be_be_to_nat [of bs']
  by (simp_all add: u32_to_be_bytes_def u32_from_be_bytes_def u16_to_be_bytes_def u16_from_be_bytes_def unat_of_nat)

lemma guid_keeps_bytes: "guid_bytes (uuid_to_guid u) = bytes_of u"
proof -
  have "take 4 bs @ take 2 (drop 4 bs) @ take 2 (drop 6 bs) @ take 8 (drop 8 bs) = bs" if "length bs = 16" for bs :: bytes
  proof -
    have "take 2 (drop 6 bs) @ drop 8 bs = drop 6 bs" "take 2 (drop 4 bs) @ drop 6 bs = drop 4 bs"
      using append_take_drop_id [of 2 "drop 6 bs"] append_take_drop_id [of 2 "drop 4 bs"] by simp_all
    moreover have "take 8 (drop 8 bs) = drop 8 bs" using that by simp
    ultimately show ?thesis by simp
  qed
  from this [of "bytes_of u"] show ?thesis
    by (simp add: guid_bytes_def uuid_to_guid_def Let_def be_bytes_inverse)
qed

section \<open>Failures\<close>

lemma linux_start_fails:
  assumes ok: "bluer_ok (env, view)" and run: "linux_start_peripheral env ident n = (Ready (Inl e), n')"
  shows "view n' = view n \<and> (\<exists>msg. e = Transport msg)"
proof (cases rule: linux_start_cases [OF ok run])
  case (2 a c d m msg)
  then show ?thesis using bluer_okD(4) [OF ok 2(2)] by simp
next
  case (3 a c d m app m')
  obtain msg m\<^sub>1 where "bluer_advertise env a (peripheral_advertisement (adv_short_id (peer_id ident))) m' = (Ready (Inl msg), m\<^sub>1)"
    "n' = bluer_withdraw env app m\<^sub>1" "e = Transport msg"
    by (rule advertise_serverE [OF 3(3)]) auto
  with bluer_okD(2) [OF ok 3(2)] bluer_okD(3) [OF ok this(1)] 3(1) show ?thesis
    by (simp add: bluer_okD(8) [OF ok] withdraws_def fun_upd_idem)
qed simp

lemma linux_start_then_drop:
  assumes ok: "bluer_ok (env, view)" and run: "linux_start_peripheral env ident n = (Ready (Inr handles), n')"
    and same: "view m = view n'"
  shows "view (drop_state (linux_peripheral env) handles m) = view n"
proof -
  obtain adv app c d where offer: "handles = [adv, app]" "adv \<noteq> app"
    "view n' = (view n)\<lparr>bluer_served := (bluer_served (view n))(app \<mapsto> gatt_application c d),
      bluer_aired := (bluer_aired (view n))(adv \<mapsto> peripheral_advertisement (adv_short_id (peer_id ident)))\<rparr>"
    "bluer_aired (view n) adv = None" "bluer_served (view n) adv = None"
    "bluer_aired (view n) app = None" "bluer_served (view n) app = None"
    using linux_offer [OF ok run] by blast
  then show ?thesis
    using same by (simp add: linux_peripheral_def bluer_okD(8) [OF ok] withdraws_def fun_upd_idem fun_upd_twist [of adv app])
qed

text \<open>\<open>start\<close>: opening an adapter, then the peripheral.\<close>

lemma on_ble_eq: "on_ble m s = (fst (m (ble_net s)), s\<lparr>ble_net := snd (m (ble_net s))\<rparr>)"
  by (simp add: on_ble_def case_prod_beta)

lemma try_bleE:
  assumes "try_await (try_ble m) k s = (Ready r, s')" "quiet view m"
  obtains (failed) msg n where "view n = view (ble_net s)" "r = Inl (Transport msg)" "s' = s\<lparr>ble_net := n\<rparr>"
  | (went_on) a n where "view n = view (ble_net s)" "k a (s\<lparr>ble_net := n\<rparr>) = (Ready r, s')"
proof -
  obtain p n where m: "m (ble_net s) = (p, n)" by (cases "m (ble_net s)")
  have "view n = view (ble_net s)" using assms(2) m unfolding quiet_def by (metis snd_conv)
  with assms(1) m failed [of n] went_on [of n] show thesis
    by (cases p; cases "case p of Ready x \<Rightarrow> x")
       (auto simp: try_ble_def try_await_def await_def on_ble_eq ready_def transport_err_def)
qed

lemma ble_start_cases:
  assumes quiet: "quiet view (ble_manager env)" "\<And>m. quiet view (ble_adapters env m)"
    and run: "ble_start env (Some ops) ident s = (Ready r, s')"
  obtains (unopened) msg n where "r = Inl (Transport msg)" "s' = s\<lparr>ble_net := n\<rparr>" "view n = view (ble_net s)"
  | (failed) a n e n' where "view n = view (ble_net s)" "start_peripheral ops ident n = (Ready (Inl e), n')" "r = Inl e"
      "s' = s\<lparr>ble_adapter := Some a, ble_net := n'\<rparr>"
  | (up) a n hs n' where "view n = view (ble_net s)" "start_peripheral ops ident n = (Ready (Inr hs), n')" "r = Inr ()"
      "s' = set_peripheral ops (Some hs) (s\<lparr>ble_adapter := Some a, ble_net := n', ble_conn_rx := Some []\<rparr>)"
proof -
  from run [unfolded ble_start_def] show thesis
  proof (rule try_bleE [OF _ quiet(1)])
    fix manager n\<^sub>1
    assume view: "view n\<^sub>1 = view (ble_net s)"
    assume "try_await (try_ble (ble_adapters env manager)) (\<lambda>adapters.
       try_now (case adapters of [] \<Rightarrow> Inl (Transport ''no Bluetooth adapter found'') | a # _ \<Rightarrow> Inr a) (\<lambda>adapter.
       await (modify (\<lambda>s. s\<lparr>ble_adapter := Some adapter\<rparr>)) (\<lambda>_.
       case Some ops of
         None \<Rightarrow> ready (Inr ())
       | Some ops \<Rightarrow>
           try_await (on_ble (start_peripheral ops ident)) (\<lambda>handles.
           await (modify (\<lambda>s. set_peripheral ops (Some handles) (s\<lparr>ble_conn_rx := Some []\<rparr>))) (\<lambda>_.
           ready (Inr ())))))) (s\<lparr>ble_net := n\<^sub>1\<rparr>) = (Ready r, s')"
    then show thesis
    proof (rule try_bleE [OF _ quiet(2)])
      fix adapters n\<^sub>2
      assume "view n\<^sub>2 = view (ble_net (s\<lparr>ble_net := n\<^sub>1\<rparr>))"
      then have view: "view n\<^sub>2 = view (ble_net s)" using view by simp
      obtain p n' where start: "start_peripheral ops ident n\<^sub>2 = (p, n')" by (cases "start_peripheral ops ident n\<^sub>2")
      assume rest: "try_now (case adapters of [] \<Rightarrow> Inl (Transport ''no Bluetooth adapter found'') | a # _ \<Rightarrow> Inr a) (\<lambda>adapter.
         await (modify (\<lambda>s. s\<lparr>ble_adapter := Some adapter\<rparr>)) (\<lambda>_.
         case Some ops of
           None \<Rightarrow> ready (Inr ())
         | Some ops \<Rightarrow>
             try_await (on_ble (start_peripheral ops ident)) (\<lambda>handles.
             await (modify (\<lambda>s. set_peripheral ops (Some handles) (s\<lparr>ble_conn_rx := Some []\<rparr>))) (\<lambda>_.
             ready (Inr ()))))) (s\<lparr>ble_net := n\<^sub>1, ble_net := n\<^sub>2\<rparr>) = (Ready r, s')"
      show thesis
      proof (cases adapters)
        case Nil
        with rest unopened [of _ n\<^sub>2] view show thesis by (auto simp: try_now_def)
      next
        case (Cons a as)
        with rest start view failed [of n\<^sub>2] up [of n\<^sub>2] show thesis
          by (cases p; cases "case p of Ready x \<Rightarrow> x")
             (auto simp: try_now_def await_modify try_await_def on_ble_eq ready_def)
      qed
    qed (use unopened view in auto)
  qed (use unopened in auto)
qed

section \<open>Servers without hardware\<close>

text \<open>The objects of WinRT and of CoreBluetooth as states of their own, and a central that finds nothing.\<close>

definition loop_gatt :: "Gatt_Objects Winrt_Gatt" where
  "loop_gatt =
     \<lparr>data_writer_new = (\<lambda>d. (Inr 0, writes 0 [] d)), write_bytes = (\<lambda>w bs d. (Inr (), writes w (writers d w @ bs) d)),
      detach_buffer = (\<lambda>w d. (Inr 0, detaches w 0 d)),
      reader_from_buffer = (\<lambda>b d. (Inr b, d)), unconsumed_length = (\<lambda>b d. (Inr (of_nat (length (buffers d b))), d)),
      read_bytes = (\<lambda>b _ d. (Inr (buffers d b), d)),
      provider_create = (\<lambda>g d. (Inr 0, creates_provider g 0 d)), result_provider = (\<lambda>r d. (Inr (provider_of_result d r), d)),
      provider_service = (\<lambda>p d. (Inr 0, d\<lparr>provider_of_service := (provider_of_service d)(0 := p)\<rparr>)),
      char_params_new = (\<lambda>d. (Inr 0, d)),
      set_char_properties = (\<lambda>c x d. (Inr (), d\<lparr>param_property := (param_property d)(c := x)\<rparr>)),
      create_characteristic = (\<lambda>s g c d. (Inr 0, creates_char s g c 0 d)),
      result_characteristic = (\<lambda>r d.
        if char_guid d 0 = None then (Inr 0, d\<lparr>char_guid := (char_guid d)(0 \<mapsto> created_guid d r)\<rparr>)
        else if char_guid d 1 = None then (Inr 1, d\<lparr>char_guid := (char_guid d)(1 \<mapsto> created_guid d r)\<rparr>)
        else (Inl '''', d)),
      register_write_requested = (\<lambda>c d. (Inr (), d\<lparr>write_handlers := set_option (char_guid d c) \<union> write_handlers d\<rparr>)),
      register_clients_changed = (\<lambda>c d. (Inr (), d\<lparr>client_handlers := set_option (char_guid d c) \<union> client_handlers d\<rparr>)),
      adv_params_new = (\<lambda>d. (Inr 0, d)), set_is_connectable = (\<lambda>a x d. (Inr (), sets a (\<lambda>st. st\<lparr>connectable := x\<rparr>) d)),
      set_is_discoverable = (\<lambda>a x d. (Inr (), sets a (\<lambda>st. st\<lparr>discoverable := x\<rparr>) d)),
      set_service_data = (\<lambda>a b d. (Inr (), sets a (\<lambda>st. st\<lparr>set_data := Some (buffers d b)\<rparr>) d)),
      start_advertising_with = (\<lambda>p a d. (Inr (), d\<lparr>gatt_aired := (gatt_aired d)(p \<mapsto> settings d a)\<rparr>)),
      provider_stop_advertising = (\<lambda>p d. (Inr (), d\<lparr>gatt_aired := (gatt_aired d)(p := None)\<rparr>)),
      notify_value = (\<lambda>_ _ d. (Inr (), d)), get_request = (\<lambda>_ d. (Inr 0, d)), request_value = (\<lambda>_ d. (Inr 0, d)),
      subscribed_clients = (\<lambda>_ d. (Inr 0, d))\<rparr>"

definition no_gatt_objects :: Gatt_Objects where
  "no_gatt_objects =
     (let guid = uuid_to_guid PATHWEAVE_SERVICE_UUID in
      \<lparr>writers = (\<lambda>_. []), buffers = (\<lambda>_. []), provider_of_result = id, provider_of_service = id, served_guid = (\<lambda>_. guid),
       served_chars = (\<lambda>_. []), param_property = (\<lambda>_. PropNotify), created_guid = (\<lambda>_. guid), char_guid = (\<lambda>_. None),
       write_handlers = {}, client_handlers = {},
       settings = (\<lambda>_. \<lparr>connectable = False, discoverable = False, set_data = None\<rparr>), gatt_aired = (\<lambda>_. None)\<rparr>)"

lemma loop_gatt_ok: "winrt_gatt_ok (loop_gatt, \<lambda>d. d)"
  by (simp add: winrt_gatt_ok_def buffers_ok_def acts_def loop_gatt_def split: if_splits)

lemma loop_gatt_starts: "\<exists>hs d. windows_start_peripheral loop_gatt ident no_gatt_objects = (Ready (Inr hs), d)"
  by (simp add: windows_start_peripheral_def local_characteristic_def air_service_def bytes_to_ibuffer_def try_await_Inr_iff
      ready_def loop_gatt_def no_gatt_objects_def Let_def creates_provider_def creates_char_def sets_def writes_def detaches_def)

type_synonym core_desk = "(uuid \<times> GattProperty) list \<times> Core_Objects"

definition core_view :: "core_desk \<Rightarrow> Core_Objects" where
  "core_view = (\<lambda>(l, v). v\<lparr>cb_chars := (\<lambda>h. if h < length l then Some (l ! h) else None)\<rparr>)"

definition loop_core :: "core_desk Core_Bluetooth" where
  "loop_core =
     \<lparr>cb_manager = (\<lambda>(l, v). (0, (l, v\<lparr>cb_added := (cb_added v)(0 := []), cb_aired := (cb_aired v)(0 := None),
        cb_powered := (cb_powered v)(0 := True)\<rparr>))),
      cb_characteristic = (\<lambda>u p (l, v). (length l, (l @ [(u, p)], v))),
      cb_service = (\<lambda>u b (l, v). (0, (l, v\<lparr>cb_services := (cb_services v)(0 := (u, b, []))\<rparr>))),
      cb_set_characteristics = (\<lambda>s cs (l, v).
        (l, v\<lparr>cb_services := (cb_services v)(s := (fst (cb_services v s), fst (snd (cb_services v s)), cs))\<rparr>)),
      cb_add_service = (\<lambda>m s (l, v). (l, if cb_powered v m then v\<lparr>cb_added := (cb_added v)(m := cb_added v m @ [s])\<rparr> else v)),
      cb_start_advertising = (\<lambda>m us (l, v). (l, if cb_powered v m then v\<lparr>cb_aired := (cb_aired v)(m \<mapsto> us)\<rparr> else v)),
      cb_stop_advertising = (\<lambda>m (l, v). (l, v\<lparr>cb_aired := (cb_aired v)(m := None)\<rparr>)),
      cb_update_value = (\<lambda>_ _ _ n. (True, n)), cb_respond_success = (\<lambda>_ _ n. n), cb_release = (\<lambda>_ n. n)\<rparr>"

lemma loop_core_ok: "core_bluetooth_ok (loop_core, core_view)"
  by (auto simp: core_bluetooth_ok_def loop_core_def core_view_def nth_append fun_eq_iff intro!: exI [of _ True])

lemma loop_core_starts: "\<exists>hs d. macos_start_peripheral loop_core ident n = (Ready (Inr hs), d)"
  by (simp add: macos_start_peripheral_def await_update await_modify ready_def)

lemma loop_bluer_starts: "succeeds (linux_start_peripheral loop_bluer ident)"
  by (simp add: succeeds_def linux_start_peripheral_def serve_application_def advertise_server_def try_await_Inr_iff
      ready_def loop_bluer_def tried_def await_def update_def try_await_def transport_err_def)

definition idle_central :: "'n Ble_Env" where
  "idle_central =
     \<lparr>ble_manager = ready (Inr 0), ble_adapters = (\<lambda>_. ready (Inr [0])), ble_stop_scan = (\<lambda>_. ready (Inr ())),
      ble_peripherals = (\<lambda>_. ready (Inr [])), ble_disconnect = (\<lambda>_. ready (Inr ())), ble_connect_to = (\<lambda>_. ready (Inr ())),
      ble_discover_services = (\<lambda>_. ready (Inr ())), ble_characteristics = (\<lambda>_ _. []), ble_subscribe = (\<lambda>_ _. ready (Inr ())),
      ble_notifications = (\<lambda>_. ready (Inr 0)), notification = (\<lambda>_ n. (Pending, n)), ble_write = (\<lambda>_ _ _ _. ready (Inr ())),
      ble_start_scan = (\<lambda>_ _. ready (Inr ())), ble_events = (\<lambda>_. ready (Inr 0)), ble_next_event = (\<lambda>_ n. (Pending, n)),
      ble_peripheral_of = (\<lambda>_ _. ready (Inr 0)), ble_properties = (\<lambda>_. ready (Inr None)), ble_runtime = still_runtime\<rparr>"

definition busy_bluer :: "loop_radio Bluer" where
  "busy_bluer = loop_bluer\<lparr>bluer_advertise := (\<lambda>_ _. ready (Inl ''busy''))\<rparr>"

lemma busy_bluer_ok: "bluer_ok (busy_bluer, radio_view)"
  using loop_bluer_ok by (simp add: busy_bluer_def bluer_ok_def ready_def)

lemma idle_quiet: "quiet view (ble_manager idle_central)" "quiet view (ble_adapters idle_central m)"
  "quiet view (ble_stop_scan idle_central a)"
  by (simp_all add: quiet_def idle_central_def ready_def)

section \<open>Properties\<close>



text \<open>
  C20: on Linux a GATT server is up as a whole or not at all.  When \<open>start\<close> fails, with whichever
  call, it reports a transport error, nothing more is in the air or served than before, and
  there is no connection to accept; when it succeeds, \<open>stop\<close> takes down
  everything that was put up.
\<close>

theorem server_is_up_or_gone:
  assumes ok: "bluer_ok (lenv, view)" "quiet view (ble_manager env)" "\<And>m. quiet view (ble_adapters env m)"
      "\<And>a. quiet view (ble_stop_scan env a)"
    and s: "ble_peripheral s = None" "ble_conn_rx s = None"
    and run: "ble_start env (Some (linux_peripheral lenv)) ident s = (Ready r, s')"
  shows "case r of
      Inl e \<Rightarrow> (\<exists>msg. e = Transport msg) \<and> view (ble_net s') = view (ble_net s) \<and>
        ble_accept (Some (linux_peripheral lenv)) recv s' = (Ready (Inl (Transport ''transport not started'')), s')
    | Inr _ \<Rightarrow> view (ble_net s') \<noteq> view (ble_net s) \<and>
        (\<forall>r' t. ble_stop env (Some (linux_peripheral lenv)) s' = (Ready r', t) \<longrightarrow> view (ble_net t) = view (ble_net s))"
  using ok(2,3) run
proof (cases rule: ble_start_cases)
  case (unopened msg n)
  with s(2) show ?thesis by (simp add: ble_accept_def)
next
  case (failed a n e n')
  have "view n' = view n \<and> (\<exists>msg. e = Transport msg)"
    using linux_start_fails [OF ok(1)] failed(2) by (simp add: linux_peripheral_def)
  with failed s(2) show ?thesis by (simp add: ble_accept_def)
next
  case (up a n hs n')
  have start: "linux_start_peripheral lenv ident n = (Ready (Inr hs), n')"
    using up(2) by (simp add: linux_peripheral_def)
  have s': "s' = s\<lparr>ble_net := n', ble_adapter := Some a, ble_conn_rx := Some [], ble_peripheral := Some hs\<rparr>"
    using up(4) s(1) by (simp add: set_peripheral_def)
  obtain adv where "bluer_aired (view n) adv = None" "bluer_aired (view n') adv \<noteq> None"
    using linux_offer [OF ok(1) start] by fastforce
  then have "view n' \<noteq> view n" by auto
  moreover have "view (ble_net t) = view (ble_net s)"
    if "ble_stop env (Some (linux_peripheral lenv)) s' = (Ready r', t)" for r' t
  proof -
    obtain p m where scan: "ble_stop_scan env a n' = (p, m)" by (cases "ble_stop_scan env a n'")
    then have "view m = view n'"
      using ok(4) [of a] unfolding quiet_def by (metis snd_conv)
    moreover have "ble_net t = drop_state (linux_peripheral lenv) hs m"
      using that scan by (cases p) (auto simp: ble_stop_def s' await_def on_ble_eq ready_def modify_def update_def set_peripheral_def)
    ultimately show ?thesis using linux_start_then_drop [OF ok(1) start] up(1) by simp
  qed
  ultimately show ?thesis using up(1,3) s' by simp
qed

theorem server_is_up_or_gone_witness:
  "\<exists>e s'. ble_start idle_central (Some (linux_peripheral busy_bluer)) (plain_identity first_byte_hash 1) (ble_new []) =
      (Ready (Inl e), s') \<and> radio_view (ble_net s') = radio_view []"
proof -
  let ?s = "ble_new [] :: loop_radio BleTransport"
  have "ble_peripheral ?s = None" "ble_conn_rx ?s = None" by (simp_all add: ble_new_def)
  moreover obtain e s' where run: "ble_start idle_central (Some (linux_peripheral busy_bluer)) (plain_identity first_byte_hash 1) ?s =
      (Ready (Inl e), s')"
    by (simp add: ble_start_def try_ble_def idle_central_def linux_peripheral_def linux_start_peripheral_def serve_application_def
        advertise_server_def busy_bluer_def loop_bluer_def ble_new_def try_await_def await_def on_ble_eq ready_def try_now_def
        modify_def update_def tried_def transport_err_def)
  ultimately show ?thesis
    using server_is_up_or_gone [OF busy_bluer_ok idle_quiet _ _ run, where recv = "ready None"] by (auto simp: ble_new_def)
qed

end
