(* ===== verification/Peripheral_Task.thy ===== *)
theory Peripheral_Task
  imports Gatt_Server
begin

text \<open>
  The connections of a peripheral on all platforms: what they receive while their central is
  there, and what becomes of them when it has gone.
\<close>

section \<open>The connections of the Windows and macOS task\<close>

text \<open>
  The task keeps the receiver of the replies until the connection it serves has been dropped,
  so that a connection can send as long as the task serves.
\<close>

definition task_send :: "bytes \<Rightarrow> (unit result, PeripheralTask) future" where
  "task_send bs s =
     (if task_at s = TaskServing then (Ready (Inr ()), s\<lparr>task_replies := task_replies s @ [bs]\<rparr>)
      else (Ready (Inl (Transport ''peripheral reply channel closed'')), s))"

definition task_recv :: "nat \<Rightarrow> (bytes result, PeripheralTask) future" where
  "task_recv ch s =
     (case chan_queue (task_channels s ! ch) of
        b # q \<Rightarrow> (Ready (Inr b), s\<lparr>task_channels := (task_channels s)[ch := (task_channels s ! ch)\<lparr>chan_queue := q\<rparr>]\<rparr>)
      | [] \<Rightarrow>
          if forward s = Some ch then (Pending, s)
          else (Ready (Inl (Transport ''peripheral write channel closed'')), s))"

definition task_connection :: "nat \<Rightarrow> PeripheralTask Connection" where
  "task_connection ch =
     \<lparr>send_bytes = task_send, recv_bytes = task_recv ch, close_conn = ready (Inr ()), mtu = 512\<rparr>"

text \<open>Dropping a connection drops its sender of replies; only the last one made can be served.\<close>

definition drop_task_connection :: "nat \<Rightarrow> PeripheralTask \<Rightarrow> PeripheralTask" where
  "drop_task_connection ch s =
     s\<lparr>task_channels := (task_channels s)[ch := \<lparr>chan_queue = [], receiver = False\<rparr>],
       serving_alive := (serving_alive s \<and> Suc ch \<noteq> length (task_channels s))\<rparr>"

section \<open>Serving one connection\<close>

fun task_written :: "TaskEvent \<Rightarrow> bytes option" where
  "task_written (WriteRequested buf) = Some buf"
| "task_written _ = None"

definition task_serves :: "nat \<Rightarrow> bytes list \<Rightarrow> PeripheralTask \<Rightarrow> bool" where
  "task_serves ch bs s \<longleftrightarrow> task_at s = TaskServing \<and> forward s = Some ch \<and> serving_alive s \<and>
     length (task_channels s) = Suc ch \<and> receiver (task_channels s ! ch) \<and> chan_queue (task_channels s ! ch) = bs"

interpretation task_server: peripheral_server task_step task_written "\<lambda>ev. ev \<noteq> Stop \<and> ev \<noteq> Unsubscribed"
  task_recv task_accepted task_serves
proof
  fix ch bs s ev
  assume "task_serves ch bs s" "ev \<noteq> Stop \<and> ev \<noteq> Unsubscribed"
  then show "task_serves ch (bs @ (case task_written ev of None \<Rightarrow> [] | Some b \<Rightarrow> [b])) (task_step ev s) \<and>
      task_accepted (task_step ev s) = task_accepted s"
    by (cases ev) (auto simp: task_serves_def task_step_def split: list.splits)
qed (auto simp: task_serves_def task_recv_def)

lemma peripheral_task_fold: "peripheral_task evs s = fold task_step evs s"
  by (induction evs arbitrary: s) simp_all

section \<open>When the central has gone\<close>

text \<open>Its connection after the unsubscription: what it had still to receive, and then the error.\<close>

lemma departed_receptions:
  assumes "forward s \<noteq> Some ch" "ch < length (task_channels s)" "chan_queue (task_channels s ! ch) = bs"
  shows "reception (task_recv ch) k s =
    (if k < length bs then Ready (Inr (bs ! k)) else Ready (Inl (Transport ''peripheral write channel closed'')))"
  using assms
proof (induction k arbitrary: s bs)
  case 0
  then show ?case by (cases bs) (simp_all add: task_recv_def)
next
  case (Suc k)
  let ?s = "snd (task_recv ch s)"
  have "forward ?s \<noteq> Some ch" "ch < length (task_channels ?s)" "chan_queue (task_channels ?s ! ch) = tl bs"
    using Suc.prems by (cases bs; simp add: task_recv_def)+
  from Suc.IH [OF this] show ?case by (cases bs) simp_all
qed

text \<open>The task goes back to waiting once the connection is dropped and its last replies are sent.\<close>

lemma abandoned_task:
  assumes "task_at s = TaskServing" "\<not> serving_alive s" "length (task_replies s) < length oks"
  shows "\<exists>n. peripheral_task (map TaskReply oks) s =
    s\<lparr>task_at := TaskWaiting, forward := None, task_replies := [], task_notified := n\<rparr>"
  using assms
proof (induction oks arbitrary: s)
  case (Cons ok oks)
  show ?case
  proof (cases "task_replies s")
    case Nil
    have waiting: "peripheral_task (map TaskReply oks) t = t" if "task_at t = TaskWaiting" for t
      using that by (induction oks) (simp_all add: task_step_def)
    have "peripheral_task (map TaskReply (ok # oks)) s = s\<lparr>task_at := TaskWaiting, forward := None\<rparr>"
      using Nil Cons.prems by (simp add: task_step_def waiting)
    also have "\<dots> =
        s\<lparr>task_at := TaskWaiting, forward := None, task_replies := [], task_notified := task_notified s\<rparr>"
      using Nil by (cases s) simp
    finally show ?thesis by blast
  next
    case replies: (Cons r rs)
    let ?n = "if ok then task_notified s @ [r] else task_notified s"
    have step: "task_step (TaskReply ok) s = s\<lparr>task_replies := rs, task_notified := ?n\<rparr>"
      using replies Cons.prems(1) by (simp add: task_step_def)
    obtain n where "peripheral_task (map TaskReply oks) (s\<lparr>task_replies := rs, task_notified := ?n\<rparr>) =
        s\<lparr>task_replies := rs, task_notified := ?n\<rparr>\<lparr>task_at := TaskWaiting, forward := None, task_replies := [], task_notified := n\<rparr>"
      using Cons.IH [of "s\<lparr>task_replies := rs, task_notified := ?n\<rparr>"] Cons.prems replies by auto
    moreover have "s\<lparr>task_replies := rs, task_notified := ?n\<rparr>\<lparr>task_at := TaskWaiting, forward := None, task_replies := [], task_notified := n\<rparr> =
        s\<lparr>task_at := TaskWaiting, forward := None, task_replies := [], task_notified := n\<rparr>"
      by (cases s) simp
    ultimately show ?thesis using step by auto
  qed
qed simp

section \<open>Properties\<close>

text \<open>
  C22: while a peripheral serves a connection, this connection receives every write there is,
  whoever wrote it, in order and with none lost, and then waits for more; further
  subscribers get no connection.  This holds of the loop on Linux as long as its streams go
  on and no reply fails, and of the task on Windows and macOS until it is stopped or told
  that the last subscriber has gone.  Only Windows tells: on Linux and macOS a connection
  whose central has gone stays open, and keeps the next central out.
\<close>

theorem connections_receive_every_write:
  assumes linux: "serves ch w bs p" "OtherEvent \<notin> set evs" "Reply False \<notin> set evs"
    and task: "task_serves ch' bs' t" "Stop \<notin> set evs'" "Unsubscribed \<notin> set evs'"
  shows "reception (recv_bytes (peripheral_connection ch)) k (peripheral_loop evs p) =
      (if k < length (bs @ List.map_filter written evs) then Ready (Inr ((bs @ List.map_filter written evs) ! k)) else Pending) \<and>
    accepted_conns (peripheral_loop evs p) = accepted_conns p \<and>
    reception (recv_bytes (task_connection ch')) k (peripheral_task evs' t) =
      (if k < length (bs' @ List.map_filter task_written evs')
       then Ready (Inr ((bs' @ List.map_filter task_written evs') ! k)) else Pending) \<and>
    task_accepted (peripheral_task evs' t) = task_accepted t"
proof -
  have "list_all (\<lambda>ev. ev \<noteq> OtherEvent \<and> ev \<noteq> Reply False) evs" using linux(2,3) by (auto simp: list_all_iff)
  note l = loop_server.served_events [OF linux(1) this]
  have "list_all (\<lambda>ev. ev \<noteq> Stop \<and> ev \<noteq> Unsubscribed) evs'" using task(2,3) by (auto simp: list_all_iff)
  note t = task_server.served_events [OF task(1) this]
  show ?thesis
    using l t loop_server.served_receptions [OF conjunct1 [OF l], of k] loop_server.served_then_waits [OF conjunct1 [OF l], of k]
      task_server.served_receptions [OF conjunct1 [OF t], of k] task_server.served_then_waits [OF conjunct1 [OF t], of k]
    by (auto simp: peripheral_connection_def task_connection_def peripheral_loop_fold peripheral_task_fold)
qed

definition serving_task :: PeripheralTask where
  "serving_task = task_step Subscribe
     \<lparr>task_at = TaskWaiting, forward = None, task_channels = [], task_accepted = [], task_accepting = True,
      task_replies = [], serving_alive = False, task_notified = []\<rparr>"

lemma serving_task_serves: "task_serves 0 [] serving_task" "task_accepting serving_task" "task_replies serving_task = []"
  by (simp_all add: task_serves_def serving_task_def task_step_def)

theorem connections_receive_every_write_witness:
  "reception (recv_bytes (peripheral_connection 0)) 1 (peripheral_loop [Write (Some [1]), Notify 2, Write (Some [2])] subscribed) =
     Ready (Inr [2]) \<and>
   reception (recv_bytes (task_connection 0)) 1 (peripheral_task [WriteRequested [3], Subscribe] serving_task) = Pending"
proof -
  have "serves 0 (Some 1) [] subscribed" by (simp add: serves_def subscribed_simps)
  from connections_receive_every_write [OF this _ _ serving_task_serves(1), of "[Write (Some [1]), Notify 2, Write (Some [2])]"
      "[WriteRequested [3], Subscribe]" 1]
  show ?thesis by (simp add: List.map_filter_simps)
qed

text \<open>
  C31: on Windows a central that goes makes room for the next.  Once the last subscriber has
  unsubscribed, its connection still receives what was written before and then fails; when
  it has been dropped for that, and the replies left in it are sent, the next subscriber gets
  a connection of its own that receives what it writes.  A subscriber that comes before the
  old connection is dropped is not noticed: the task goes back to waiting, and what that
  subscriber writes is discarded.
\<close>

theorem departure_makes_room_on_windows:
  assumes s: "task_serves ch bs s" "task_accepting s" and oks: "length (task_replies s) < length oks"
  shows "reception (recv_bytes (task_connection ch)) k (task_step Unsubscribed s) =
      (if k < length bs then Ready (Inr (bs ! k)) else Ready (Inl (Transport ''peripheral write channel closed''))) \<and>
    (let t = peripheral_task (map TaskReply oks) (drop_task_connection ch (task_step Unsubscribed s)) in
       task_serves (Suc ch) [b] (peripheral_task [Subscribe, WriteRequested b] t) \<and>
       task_accepted (peripheral_task [Subscribe, WriteRequested b] t) = task_accepted s @ [Suc ch]) \<and>
    (let t = peripheral_task (map TaskReply oks) (drop_task_connection ch (peripheral_task [Unsubscribed, Subscribe] s)) in
       task_at t = TaskWaiting \<and> task_accepted t = task_accepted s \<and> task_step (WriteRequested b) t = t)"
proof -
  let ?gone = "task_step Unsubscribed s"
  have early: "peripheral_task [Unsubscribed, Subscribe] s = ?gone"
    using s(1) by (simp add: task_serves_def task_step_def)
  have "reception (task_recv ch) k ?gone =
      (if k < length bs then Ready (Inr (bs ! k)) else Ready (Inl (Transport ''peripheral write channel closed'')))"
    by (rule departed_receptions) (use s(1) in \<open>simp_all add: task_serves_def task_step_def\<close>)
  moreover obtain n where n: "peripheral_task (map TaskReply oks) (drop_task_connection ch ?gone) =
      (drop_task_connection ch ?gone)\<lparr>task_at := TaskWaiting, forward := None, task_replies := [], task_notified := n\<rparr>"
    using abandoned_task [of "drop_task_connection ch ?gone" oks] s(1) oks
    by (auto simp: task_serves_def task_step_def drop_task_connection_def)
  ultimately show ?thesis
    using s unfolding early n
    by (simp add: task_connection_def Let_def task_serves_def task_step_def drop_task_connection_def nth_append)
qed

theorem departure_makes_room_on_windows_witness:
  "task_serves 1 [[7]] (peripheral_task [Subscribe, WriteRequested [7]]
     (peripheral_task [TaskReply True] (drop_task_connection 0 (task_step Unsubscribed serving_task))))"
  using departure_makes_room_on_windows [OF serving_task_serves(1,2), of "[True]" 0 "[7]"]
  by (simp add: serving_task_serves(3) Let_def del: peripheral_task.simps)

end
