(* ===== verification/Wifi_Direct.thy ===== *)
theory Wifi_Direct
  imports Quic Socket_Addr "HOL-Library.List_Lexorder"
begin

text \<open>
  \<open>crates/pathweave-transport-wifi-direct/src\<close>: the WiFi Direct transport on Linux, over
  wpa_supplicant's D-Bus interface, and on Windows, over WinRT.  D-Bus, WinRT and the TCP
  sockets are arguments; their objects are handles.
\<close>

section \<open>Short ids and the group owner\<close>

definition P2P_SERVICE_NAME :: bytes where
  "P2P_SERVICE_NAME = ascii ''pathweave-p2p''"

definition WIFI_DIRECT_PORT :: u16 where
  "WIFI_DIRECT_PORT = 47808"

text \<open>\<open>[u8; N]\<close> is ordered lexicographically.\<close>

instantiation byte_array :: (len) linorder
begin

definition less_eq_byte_array :: "'a byte_array \<Rightarrow> 'a byte_array \<Rightarrow> bool" where
  "less_eq_byte_array a b \<longleftrightarrow> bytes_of a \<le> bytes_of b"

definition less_byte_array :: "'a byte_array \<Rightarrow> 'a byte_array \<Rightarrow> bool" where
  "less_byte_array a b \<longleftrightarrow> bytes_of a < bytes_of b"

instance
  by standard (auto simp: less_eq_byte_array_def less_byte_array_def bytes_of_inject order_less_le)

end

definition wifi_short_id :: "NodeIdentity \<Rightarrow> bytes8" where
  "wifi_short_id ident = the (array_of (take 8 (bytes_of (as_bytes (peer_id ident)))))"

definition we_are_go :: "bytes8 \<Rightarrow> bytes8 option \<Rightarrow> bool" where
  "we_are_go local their = (case their of Some their_id \<Rightarrow> their_id < local | None \<Rightarrow> False)"

definition go_intent :: "bytes8 \<Rightarrow> bytes8 option \<Rightarrow> u32" where
  "go_intent local their = (if we_are_go local their then 15 else 0)"

text \<open>The name is a prefix, a colon and sixteen hexadecimal digits.\<close>

definition strip_prefix :: "bytes \<Rightarrow> bytes \<Rightarrow> bytes option" where
  "strip_prefix p s = (if take (length p) s = p then Some (drop (length p) s) else None)"

definition parse_short_id_from_service_name :: "bytes \<Rightarrow> bytes8 option panicking" where
  "parse_short_id_from_service_name name =
     (case strip_prefix (P2P_SERVICE_NAME @ [58]) name of
        None \<Rightarrow> Done None
      | Some hex \<Rightarrow> parse_hex16 hex)"

section \<open>The state\<close>

text \<open>
  \<open>conn_rx\<close> holds the accepted connections that wait in the channel, when there is one, and
  \<open>conn_gen\<close> counts the channels made so far; the platform's state is \<open>'st\<close>.
\<close>

record ('st, 'n) Inner =
  wifi_state :: "'st option"
  conn_rx :: "'n ByteStream list option"
  conn_gen :: nat
  wnet :: 'n

definition wifi_new :: "'n \<Rightarrow> ('st, 'n) Inner" where
  "wifi_new n = \<lparr>wifi_state = None, conn_rx = None, conn_gen = 0, wnet = n\<rparr>"

text \<open>The end of \<open>start\<close>: the state is set and the channel of a new start replaces the old one.\<close>

definition install :: "'st \<Rightarrow> ('st, 'n) Inner \<Rightarrow> ('st, 'n) Inner" where
  "install st s = s\<lparr>wifi_state := Some st, conn_rx := Some [], conn_gen := Suc (conn_gen s)\<rparr>"

text \<open>\<open>conn_tx.send\<close> by a task of the start number \<open>gen\<close>; its receiver may be gone.\<close>

definition conn_send :: "nat \<Rightarrow> 'n ByteStream \<Rightarrow> ('st, 'n) Inner \<Rightarrow> ('st, 'n) Inner" where
  "conn_send gen stream s =
     (if conn_gen s = gen then s\<lparr>conn_rx := map_option (\<lambda>q. q @ [stream]) (conn_rx s)\<rparr> else s)"

definition on_wnet :: "('a, 'n) future \<Rightarrow> ('a, ('st, 'n) Inner) future" where
  "on_wnet m s = (let (r, n) = m (wnet s) in (r, s\<lparr>wnet := n\<rparr>))"

definition wnet_connection :: "'n ByteStream \<Rightarrow> ('st, 'n) Inner Connection" where
  "wnet_connection st = wifi_direct_connection
     \<lparr>write_all = (\<lambda>bs. on_wnet (write_all st bs)), read_exact = (\<lambda>n. on_wnet (read_exact st n)),
      finish_stream = on_wnet (finish_stream st)\<rparr>"

text \<open>An operation whose error is reported behind a message.\<close>

definition try_msg :: "string \<Rightarrow> (string + 'a, 'n) future \<Rightarrow> ('a result, ('st, 'n) Inner) future" where
  "try_msg msg m = await (on_wnet m) (\<lambda>r. ready (case r of Inl e \<Rightarrow> Inl (Transport (msg @ e)) | Inr a \<Rightarrow> Inr a))"

definition wifi_stop :: "(unit result, ('st, 'n) Inner) future" where
  "wifi_stop s = (Ready (Inr ()), s\<lparr>wifi_state := None, conn_rx := None\<rparr>)"

text \<open>
  \<open>recv\<close> is the blocking reception on the empty channel, during which the tasks that accept
  connections run.
\<close>

definition wifi_accept ::
  "('n ByteStream option, ('st, 'n) Inner) future \<Rightarrow> (('st, 'n) Inner Connection result, ('st, 'n) Inner) future" where
  "wifi_accept recv s =
     (case conn_rx s of
        None \<Rightarrow> (Ready (Inl (Transport ''WiFi Direct transport not started'')), s)
      | Some (c # q) \<Rightarrow> (Ready (Inr (wnet_connection c)), s\<lparr>conn_rx := Some q\<rparr>)
      | Some [] \<Rightarrow>
          await recv (\<lambda>c. ready (case c of
              Some c \<Rightarrow> Inr (wnet_connection c)
            | None \<Rightarrow> Inl (Transport ''WiFi Direct: accept channel closed''))) s)"

definition dial_addr :: "rstring \<Rightarrow> SocketAddr option" where
  "dial_addr ip = parse_socket_addr (str_bytes ip @ 58 # show_nat (unat WIFI_DIRECT_PORT))"

text \<open>The address of one end, with the error of parsing it behind a message that quotes it.\<close>

definition dial_or :: "string \<Rightarrow> rstring \<Rightarrow> SocketAddr result" where
  "dial_or which ip =
     (case dial_addr ip of
        Some a \<Rightarrow> Inr a
      | None \<Rightarrow> Inl (Transport (''WiFi Direct: invalid '' @ which @ '' IP '' @ [CHR 0x27] @ str_text ip @ [CHR 0x27] @
          '': invalid socket address syntax'')))"

section \<open>Linux\<close>

datatype Value = Str rstring | U32 u32 | OtherValue

type_synonym props = "(bytes, Value) hmap"

datatype Arg = ArgInt int | ArgStr rstring | ArgDict props

definition prop_str :: "props \<Rightarrow> string \<Rightarrow> rstring option" where
  "prop_str ps key = (case hm_get ps (ascii key) of Some (Str s) \<Rightarrow> Some s | _ \<Rightarrow> None)"

definition WPA_SERVICE :: bytes where
  "WPA_SERVICE = ascii ''fi.w1.wpa_supplicant1''"

definition WPA_IFACE :: bytes where
  "WPA_IFACE = ascii ''fi.w1.wpa_supplicant1.Interface''"

definition WPA_P2P_IFACE :: bytes where
  "WPA_P2P_IFACE = ascii ''fi.w1.wpa_supplicant1.Interface.P2PDevice''"

definition WPA_PATH :: bytes where
  "WPA_PATH = ascii ''/fi/w1/wpa_supplicant1''"

text \<open>
  \<open>proxy\<close> takes the service, the object path and the interface; \<open>next_signal\<close> and \<open>next_peer\<close>
  are the next message of a signal stream with its body deserialised.
\<close>

record 'n Linux_Env =
  dbus_system :: "(string + handle, 'n) future"
  proxy :: "handle \<Rightarrow> bytes \<Rightarrow> bytes \<Rightarrow> bytes \<Rightarrow> (string + handle, 'n) future"
  get_interfaces :: "handle \<Rightarrow> (string + bytes list, 'n) future"
  call_method :: "handle \<Rightarrow> string \<Rightarrow> Arg list \<Rightarrow> (string + unit, 'n) future"
  receive_signal :: "handle \<Rightarrow> string \<Rightarrow> (string + handle, 'n) future"
  next_signal :: "handle \<Rightarrow> ((string + props) option, 'n) future"
  next_peer :: "handle \<Rightarrow> ((string + rstring \<times> props) option, 'n) future"
  tcp_connect :: "SocketAddr \<Rightarrow> (string + 'n ByteStream, 'n) future"
  tcp_bind :: "SocketAddr \<Rightarrow> (string + handle, 'n) future"
  tcp_accept :: "handle \<Rightarrow> (string + 'n ByteStream, 'n) future"
  linux_runtime :: "'n Runtime"

record LinuxState =
  dbus_conn :: handle
  iface_path :: bytes
  linux_short_id :: bytes8

definition service_args :: props where
  "service_args =
     [(ascii ''service_type'', Str (Abs_rstring (ascii ''bonjour''))), (ascii ''version'', U32 1),
      (ascii ''service'', Str (Abs_rstring P2P_SERVICE_NAME))]"

definition linux_start :: "'n Linux_Env \<Rightarrow> NodeIdentity \<Rightarrow> (unit result, (LinuxState, 'n) Inner) future" where
  "linux_start env ident =
     try_await (try_msg ''D-Bus connection failed: '' (dbus_system env)) (\<lambda>conn.
     try_await (try_msg ''wpa_supplicant proxy failed: '' (proxy env conn WPA_SERVICE WPA_PATH WPA_SERVICE)) (\<lambda>wpa.
     try_await (try_msg ''could not read Interfaces: '' (get_interfaces env wpa)) (\<lambda>paths.
     try_now (case paths of [] \<Rightarrow> Inl (Transport ''no wpa_supplicant interfaces found'') | p # _ \<Rightarrow> Inr p) (\<lambda>iface.
     try_await (try_msg ''P2PDevice proxy failed: '' (proxy env conn WPA_SERVICE iface WPA_P2P_IFACE)) (\<lambda>p2p.
     try_await (try_msg ''ServiceAdd failed: '' (call_method env p2p ''ServiceAdd'' [ArgDict service_args])) (\<lambda>_.
     try_await (try_msg ''P2PFind failed: '' (call_method env p2p ''Find'' [ArgInt 0, ArgDict []])) (\<lambda>_.
     await (modify (install \<lparr>dbus_conn = conn, iface_path = iface, linux_short_id = wifi_short_id ident\<rparr>)) (\<lambda>_.
     ready (Inr ())))))))))"

text \<open>The last component of an object path.\<close>

definition last_component :: "bytes \<Rightarrow> bytes" where
  "last_component path = rev (takeWhile (\<lambda>b. b \<noteq> 47) (rev path))"

text \<open>What \<open>discover\<close> sends for one \<open>P2PPeerFound\<close> signal, if anything.\<close>

definition on_peer_found :: "string + rstring \<times> props \<Rightarrow> PeerAnnouncement option panicking" where
  "on_peer_found body =
     (case body of
        Inl _ \<Rightarrow> Done None
      | Inr (peer_path, ps) \<Rightarrow>
          (case (case prop_str ps ''DeviceName'' of
                   None \<Rightarrow> Done None
                 | Some name \<Rightarrow> parse_short_id_from_service_name (str_bytes name)) of
             Panic \<Rightarrow> Panic
           | Done sid \<Rightarrow>
               let mac = last_component (str_bytes peer_path) in
               Done (if mac = [] then None else Some \<lparr>address = WifiDirect (Abs_rstring mac), short_id = sid\<rparr>)))"

text \<open>
  The task of \<open>discover\<close>: the announcements for the first \<open>k\<close> signals, or those up to the end of the
  stream; \<open>None\<close> when parsing a name panics and the task dies.
\<close>

fun peers_found :: "nat \<Rightarrow> 'n Linux_Env \<Rightarrow> handle \<Rightarrow> PeerAnnouncement list \<Rightarrow> (PeerAnnouncement list panicking, 'n) future" where
  "peers_found 0 env stream found n = (Ready (Done found), n)"
| "peers_found (Suc k) env stream found n =
     await (next_peer env stream) (\<lambda>m.
       case m of
         None \<Rightarrow> ready (Done found)
       | Some body \<Rightarrow>
           (case on_peer_found body of
              Panic \<Rightarrow> ready Panic
            | Done None \<Rightarrow> peers_found k env stream found
            | Done (Some ann) \<Rightarrow> peers_found k env stream (found @ [ann]))) n"

definition linux_discover ::
  "nat \<Rightarrow> 'n Linux_Env \<Rightarrow> (PeerAnnouncement list panicking, (LinuxState, 'n) Inner) future" where
  "linux_discover k env s =
     (case wifi_state s of
        None \<Rightarrow> (Ready (Done []), s)
      | Some st \<Rightarrow>
          await (on_wnet (proxy env (dbus_conn st) WPA_SERVICE (iface_path st) WPA_P2P_IFACE)) (\<lambda>r.
            case r of
              Inl _ \<Rightarrow> ready (Done [])
            | Inr p2p \<Rightarrow>
                await (on_wnet (receive_signal env p2p ''P2PPeerFound'')) (\<lambda>r.
                  case r of
                    Inl _ \<Rightarrow> ready (Done [])
                  | Inr stream \<Rightarrow> on_wnet (peers_found k env stream []))) s)"

fun await_group :: "nat \<Rightarrow> 'n Linux_Env \<Rightarrow> handle \<Rightarrow> (props option, 'n) future" where
  "await_group 0 env stream n = (Pending, n)"
| "await_group (Suc k) env stream n =
     await (next_signal env stream) (\<lambda>m.
       case m of
         None \<Rightarrow> ready None
       | Some (Inr ps) \<Rightarrow> ready (Some ps)
       | Some (Inl _) \<Rightarrow> await_group k env stream) n"

definition extract_go_ip :: "props \<Rightarrow> bool \<Rightarrow> rstring result" where
  "extract_go_ip ps go =
     (let key = (if go then ''ip_addr'' else ''ip_addr_go'') in
      case prop_str ps key of
        Some ip \<Rightarrow> Inr ip
      | None \<Rightarrow> Inl (Transport (''WiFi Direct: '' @ [CHR 0x27] @ key @ [CHR 0x27] @ '' missing from GroupStarted properties'')))"

definition GROUP_TIMEOUT :: duration where
  "GROUP_TIMEOUT = 30000"

definition linux_connect ::
  "nat \<Rightarrow> 'n Linux_Env \<Rightarrow> PeerAnnouncement \<Rightarrow>
     ((LinuxState, 'n) Inner Connection result, (LinuxState, 'n) Inner) future" where
  "linux_connect k env peer s =
     (case address peer of
        WifiDirect device_id \<Rightarrow>
          (case wifi_state s of
             None \<Rightarrow> (Ready (Inl (Transport ''WiFi Direct transport not started'')), s)
           | Some st \<Rightarrow>
               let go = we_are_go (linux_short_id st) (short_id peer) in
               try_await (try_msg ''P2PDevice proxy failed: '' (proxy env (dbus_conn st) WPA_SERVICE (iface_path st) WPA_P2P_IFACE)) (\<lambda>p2p.
               try_await (try_msg ''Interface proxy failed: '' (proxy env (dbus_conn st) WPA_SERVICE (iface_path st) WPA_IFACE)) (\<lambda>iface.
               try_await (try_msg ''P2PGroupStarted signal failed: '' (receive_signal env iface ''P2PGroupStarted'')) (\<lambda>stream.
               try_await (try_msg ''P2PConnect failed: '' (call_method env p2p ''Connect''
                   [ArgStr device_id, ArgDict [(ascii ''go_intent'', U32 (go_intent (linux_short_id st) (short_id peer))),
                      (ascii ''wps_method'', Str (Abs_rstring (ascii ''pbc'')))]])) (\<lambda>_.
               await (on_wnet (timeout (linux_runtime env) GROUP_TIMEOUT (await_group k env stream))) (\<lambda>r.
               case r of
                 None \<Rightarrow> ready (Inl (Transport ''WiFi Direct: P2P group formation timed out''))
               | Some None \<Rightarrow> ready (Inl (Transport ''WiFi Direct: GroupStarted stream closed''))
               | Some (Some ps) \<Rightarrow>
                   try_now (extract_go_ip ps go) (\<lambda>ip.
                   try_now (dial_or ''peer'' ip) (\<lambda>addr.
                   try_await (try_msg ''WiFi Direct TCP connect failed: '' (tcp_connect env addr)) (\<lambda>stream.
                   ready (Inr (wnet_connection stream)))))))))) s)
      | _ \<Rightarrow> (Ready (Inl (Transport ''WiFi Direct connect: wrong address type'')), s))"

text \<open>The address \<open>accept_loop\<close> listens on for a group, if this node owns it.\<close>

definition group_bind_addr :: "string + props \<Rightarrow> SocketAddr option" where
  "group_bind_addr body =
     (case body of
        Inl _ \<Rightarrow> None
      | Inr ps \<Rightarrow>
          (case prop_str ps ''role'' of
             None \<Rightarrow> None
           | Some role \<Rightarrow>
               if str_bytes role \<noteq> ascii ''GO'' then None
               else case prop_str ps ''interface_address'' of None \<Rightarrow> None | Some addr \<Rightarrow> dial_addr addr))"

text \<open>The task it spawns for the group: one connection, put into the channel.\<close>

definition accept_group :: "'n Linux_Env \<Rightarrow> nat \<Rightarrow> SocketAddr \<Rightarrow> (unit, (LinuxState, 'n) Inner) future" where
  "accept_group env gen addr =
     await (on_wnet (tcp_bind env addr)) (\<lambda>r.
       case r of
         Inl _ \<Rightarrow> ready ()
       | Inr listener \<Rightarrow>
           await (on_wnet (tcp_accept env listener)) (\<lambda>r.
             case r of
               Inl _ \<Rightarrow> ready ()
             | Inr stream \<Rightarrow> modify (conn_send gen stream)))"

text \<open>
  The loop, for at most \<open>k\<close> messages; each group this node owns gets its own task, and the loop does
  not wait for it.
\<close>

fun accept_groups :: "nat \<Rightarrow> 'n Linux_Env \<Rightarrow> handle \<Rightarrow> (SocketAddr list, (LinuxState, 'n) Inner) future" where
  "accept_groups 0 env stream s = (Pending, s)"
| "accept_groups (Suc k) env stream s =
     await (on_wnet (next_signal env stream)) (\<lambda>m.
       case m of
         None \<Rightarrow> ready []
       | Some body \<Rightarrow>
           await (accept_groups k env stream) (\<lambda>addrs.
             ready (case group_bind_addr body of None \<Rightarrow> addrs | Some addr \<Rightarrow> addr # addrs))) s"

definition linux_accept_loop ::
  "nat \<Rightarrow> 'n Linux_Env \<Rightarrow> handle \<Rightarrow> bytes \<Rightarrow> (SocketAddr list, (LinuxState, 'n) Inner) future" where
  "linux_accept_loop k env conn iface =
     await (on_wnet (proxy env conn WPA_SERVICE iface WPA_IFACE)) (\<lambda>r.
       case r of
         Inl _ \<Rightarrow> ready []
       | Inr p \<Rightarrow>
           await (on_wnet (receive_signal env p ''P2PGroupStarted'')) (\<lambda>r.
             case r of Inl _ \<Rightarrow> ready [] | Inr stream \<Rightarrow> accept_groups k env stream))"

section \<open>Windows\<close>

record WindowsState =
  windows_short_id :: bytes8

text \<open>
  A device of the enumeration, with its id and name.  An endpoint pair is read through the host
  name of one of its ends.
\<close>

record Device =
  device_id :: "string + rstring"
  device_name :: "string + rstring"

record 'n Winrt_Env =
  get_device_selector :: "'n \<Rightarrow> string + rstring"
  find_all :: "rstring \<Rightarrow> 'n \<Rightarrow> string + (string + Device) list"
  from_id :: "rstring \<Rightarrow> (string + handle, 'n) call"
  endpoint_pairs :: "handle \<Rightarrow> 'n \<Rightarrow> string + handle list"
  out_of_bounds :: string
  publisher_new :: "(string + handle, 'n) call"
  listener_new :: "(string + handle, 'n) call"
  connection_requested :: "handle \<Rightarrow> (string + unit, 'n) call"
  publisher_start :: "handle \<Rightarrow> (string + unit, 'n) call"
  publisher_stop :: "handle \<Rightarrow> (string + unit, 'n) call"
  remote_host_name :: "handle \<Rightarrow> 'n \<Rightarrow> string + handle"
  local_host_name :: "handle \<Rightarrow> 'n \<Rightarrow> string + handle"
  display_name :: "handle \<Rightarrow> 'n \<Rightarrow> string + rstring"
  win_tcp_connect :: "SocketAddr \<Rightarrow> (string + 'n ByteStream, 'n) future"
  win_tcp_bind :: "SocketAddr \<Rightarrow> (string + handle, 'n) future"
  win_tcp_accept :: "handle \<Rightarrow> (string + 'n ByteStream, 'n) future"

text \<open>\<open>start\<close> spawns the publisher's thread and does not wait for it.\<close>

definition windows_start :: "NodeIdentity \<Rightarrow> (unit result, (WindowsState, 'n) Inner) future" where
  "windows_start ident s = (Ready (Inr ()), install \<lparr>windows_short_id = wifi_short_id ident\<rparr> s)"

text \<open>
  The thread, up to where it waits for the stop signal and after it; the result is whether it
  has started the publisher.
\<close>

definition publisher_thread :: "'n Winrt_Env \<Rightarrow> (unit, 'n) future \<Rightarrow> (bool, 'n) future" where
  "publisher_thread env stop_signal =
     await (update (publisher_new env)) (\<lambda>r.
       case r of
         Inl _ \<Rightarrow> ready False
       | Inr publisher \<Rightarrow>
           await (update (listener_new env)) (\<lambda>r.
             case r of
               Inl _ \<Rightarrow> ready False
             | Inr listener \<Rightarrow>
                 await (update (connection_requested env listener)) (\<lambda>r.
                   case r of
                     Inl _ \<Rightarrow> ready False
                   | Inr _ \<Rightarrow>
                       await (update (publisher_start env publisher)) (\<lambda>r.
                         case r of
                           Inl _ \<Rightarrow> ready False
                         | Inr _ \<Rightarrow>
                             await stop_signal (\<lambda>_.
                             await (update (publisher_stop env publisher)) (\<lambda>_. ready True))))))"

text \<open>The callback: the device of a request, whose connection a task then handles.\<close>

definition on_connection_requested :: "(string + (string + 'd)) option \<Rightarrow> 'd option" where
  "on_connection_requested args =
     (case args of Some (Inr (Inr device_info)) \<Rightarrow> Some device_info | _ \<Rightarrow> None)"

definition parse_short_id_from_name :: "bytes \<Rightarrow> bytes8 option panicking" where
  "parse_short_id_from_name name =
     (case strip_prefix (P2P_SERVICE_NAME @ [58]) name of
        None \<Rightarrow> Done None
      | Some hex \<Rightarrow> parse_hex16 hex)"

text \<open>The loop over the devices.\<close>

fun announce_devices :: "bytes8 option \<Rightarrow> (string + Device) list \<Rightarrow> PeerAnnouncement list panicking" where
  "announce_devices local [] = Done []"
| "announce_devices local (Inl _ # ds) = announce_devices local ds"
| "announce_devices local (Inr d # ds) =
     (case device_id d of
        Inl _ \<Rightarrow> announce_devices local ds
      | Inr did \<Rightarrow>
          (case (case device_name d of Inl _ \<Rightarrow> Done None | Inr n \<Rightarrow> parse_short_id_from_name (str_bytes n)) of
             Panic \<Rightarrow> Panic
           | Done sid \<Rightarrow>
               (case announce_devices local ds of
                  Panic \<Rightarrow> Panic
                | Done out \<Rightarrow>
                    Done (if local \<noteq> None \<and> sid = local then out
                          else \<lparr>address = WifiDirect did, short_id = sid\<rparr> # out))))"

definition enumerate_peers :: "'n Winrt_Env \<Rightarrow> bytes8 option \<Rightarrow> 'n \<Rightarrow> PeerAnnouncement list panicking" where
  "enumerate_peers env local n =
     (case get_device_selector env n of
        Inl _ \<Rightarrow> Done []
      | Inr selector \<Rightarrow>
          (case find_all env selector n of Inl _ \<Rightarrow> Done [] | Inr devices \<Rightarrow> announce_devices local devices))"

definition windows_discover :: "'n Winrt_Env \<Rightarrow> (WindowsState, 'n) Inner \<Rightarrow> PeerAnnouncement list panicking" where
  "windows_discover env s = enumerate_peers env (map_option windows_short_id (wifi_state s)) (wnet s)"

text \<open>The host name of one end of the first endpoint pair of a device.\<close>

definition host_ip ::
  "'n Winrt_Env \<Rightarrow> (handle \<Rightarrow> 'n \<Rightarrow> string + handle) \<Rightarrow> string \<Rightarrow> string \<Rightarrow> string \<Rightarrow> rstring \<Rightarrow>
     (rstring result, (WindowsState, 'n) Inner) future" where
  "host_ip env host from_id_failed pairs_failed host_failed did =
     try_await (try_msg from_id_failed (update (from_id env did))) (\<lambda>device.
     try_await (try_msg pairs_failed (update (\<lambda>n. (endpoint_pairs env device n, n)))) (\<lambda>eps.
     try_now (case eps of [] \<Rightarrow> Inl (Transport (''no endpoint pairs: '' @ out_of_bounds env)) | ep # _ \<Rightarrow> Inr ep) (\<lambda>ep.
     try_await (try_msg host_failed (update (\<lambda>n. (host ep n, n)))) (\<lambda>hn.
     try_msg ''DisplayName failed: '' (update (\<lambda>n. (display_name env hn n, n)))))))"

definition windows_connect ::
  "'n Winrt_Env \<Rightarrow> PeerAnnouncement \<Rightarrow>
     ((WindowsState, 'n) Inner Connection result, (WindowsState, 'n) Inner) future" where
  "windows_connect env peer s =
     (case address peer of
        WifiDirect did \<Rightarrow>
          (case wifi_state s of
             None \<Rightarrow> (Ready (Inl (Transport ''WiFi Direct transport not started'')), s)
           | Some st \<Rightarrow>
               if we_are_go (windows_short_id st) (short_id peer) then
                 (Ready (Inl (Transport (''WiFi Direct: this node is GO '' @ [CHR 0xE2, CHR 0x80, CHR 0x94] @
                   '' the remote side will initiate; the router should call accept() to receive the inbound connection''))), s)
               else
                 try_await (host_ip env (remote_host_name env) ''WiFiDirectDevice::FromIdAsync failed: ''
                     ''GetConnectionEndpointPairs failed: '' ''RemoteHostName failed: '' did) (\<lambda>ip.
                 try_now (dial_or ''remote'' ip) (\<lambda>addr.
                 try_await (try_msg ''WiFi Direct TCP connect failed: '' (win_tcp_connect env addr)) (\<lambda>stream.
                 ready (Inr (wnet_connection stream))))) s)
      | _ \<Rightarrow> (Ready (Inl (Transport ''WiFi Direct connect: wrong address type'')), s))"

text \<open>\<open>handle_incoming\<close>: the first argument is what the device says of its id.\<close>

definition windows_handle_incoming ::
  "'n Winrt_Env \<Rightarrow> nat \<Rightarrow> string + rstring \<Rightarrow> (unit result, (WindowsState, 'n) Inner) future" where
  "windows_handle_incoming env gen did =
     try_now (case did of Inl e \<Rightarrow> Inl (Transport (''device Id failed: '' @ e)) | Inr i \<Rightarrow> Inr i) (\<lambda>i.
     try_await (host_ip env (local_host_name env) ''FromIdAsync (incoming) failed: ''
         ''GetConnectionEndpointPairs: '' ''LocalHostName failed: '' i) (\<lambda>ip.
     try_now (dial_or ''local'' ip) (\<lambda>addr.
     try_await (try_msg ''TCP bind failed: '' (win_tcp_bind env addr)) (\<lambda>listener.
     try_await (try_msg ''TCP accept failed: '' (win_tcp_accept env listener)) (\<lambda>stream.
     await (modify (conn_send gen stream)) (\<lambda>_.
     ready (Inr ())))))))"

section \<open>The transport on every platform\<close>

definition wifi_transport ::
  "(PeerAnnouncement \<Rightarrow> (('st, 'n) Inner Connection result, ('st, 'n) Inner) future) \<Rightarrow>
     (NodeIdentity \<Rightarrow> (unit result, ('st, 'n) Inner) future) \<Rightarrow>
     ('n ByteStream option, ('st, 'n) Inner) future \<Rightarrow> ('st, 'n) Inner Transport" where
  "wifi_transport connect_to start_with recv =
     \<lparr>transport_kind = KWifiDirect, transport_cost = (\<lambda>_. Free), transport_connect = connect_to,
      transport_accept = wifi_accept recv, transport_start = start_with, transport_stop = wifi_stop,
      transport_addresses = (\<lambda>_. [])\<rparr>"

definition wifi_linux ::
  "nat \<Rightarrow> 'n Linux_Env \<Rightarrow> ('n ByteStream option, (LinuxState, 'n) Inner) future \<Rightarrow> (LinuxState, 'n) Inner Transport" where
  "wifi_linux k env = wifi_transport (linux_connect k env) (linux_start env)"

definition wifi_windows ::
  "'n Winrt_Env \<Rightarrow> ('n ByteStream option, (WindowsState, 'n) Inner) future \<Rightarrow> (WindowsState, 'n) Inner Transport" where
  "wifi_windows env = wifi_transport (windows_connect env) windows_start"

text \<open>On other platforms nothing starts, nothing can be dialled and \<open>accept\<close> waits for ever.\<close>

definition wifi_unsupported :: "'s Transport" where
  "wifi_unsupported =
     \<lparr>transport_kind = KWifiDirect, transport_cost = (\<lambda>_. Free),
      transport_connect = (\<lambda>_. ready (Inl (Transport ''WiFi Direct is not supported on this platform.''))),
      transport_accept = (\<lambda>s. (Pending, s)),
      transport_start = (\<lambda>_. ready (Inl (Transport
        (''WiFi Direct is not supported on this platform. '' @ ''Linux (wpa_supplicant) and Windows (WinRT) only.'')))),
      transport_stop = ready (Inr ()), transport_addresses = (\<lambda>_. [])\<rparr>"

section \<open>Accepting and stopping concurrently\<close>

text \<open>
  \<open>accept\<close> and \<open>stop\<close> at the granularity of the lock on \<open>conn_rx\<close>, which \<open>accept\<close> holds while it
  waits for a connection.  The positions of the two calls: before the first lock (which tries
  to receive), before the second, receiving with the lock held; before clearing the state,
  before the lock, returned.
\<close>

datatype accept_pos = AcceptIdle | AcceptAgain | AcceptRecv
datatype stop_pos = StopIdle | StopLock | StopReturned

text \<open>
  \<open>channel\<close> is what waits in the channel, \<open>None\<close> once \<open>conn_rx\<close> is cleared, and \<open>has_sender\<close> says
  whether a sender of the channel is left.
\<close>

record WifiTasks =
  accept_at :: accept_pos
  stop_at :: stop_pos
  running :: bool
  channel :: "nat option"
  has_sender :: bool

definition locked :: "WifiTasks \<Rightarrow> bool" where
  "locked t \<longleftrightarrow> accept_at t = AcceptRecv"

text \<open>
  A step is one of the two calls' own, or comes from outside: a peer connects, or the stream
  of signals ends.  On Linux the sender belongs to \<open>accept_loop\<close>, which holds its own clone of
  the D-Bus connection and ends only with the stream.
\<close>

datatype origin = Own | Outside

inductive linux_task_step :: "origin \<Rightarrow> WifiTasks \<Rightarrow> WifiTasks \<Rightarrow> bool" where
  accept_ready: "accept_at t = AcceptIdle \<Longrightarrow> \<not> locked t \<Longrightarrow> channel t = Some (Suc n) \<Longrightarrow>
    linux_task_step Own t (t\<lparr>channel := Some n\<rparr>)"
| accept_again: "accept_at t = AcceptIdle \<Longrightarrow> \<not> locked t \<Longrightarrow> channel t = None \<or> channel t = Some 0 \<Longrightarrow>
    linux_task_step Own t (t\<lparr>accept_at := AcceptAgain\<rparr>)"
| accept_stopped: "accept_at t = AcceptAgain \<Longrightarrow> \<not> locked t \<Longrightarrow> channel t = None \<Longrightarrow>
    linux_task_step Own t (t\<lparr>accept_at := AcceptIdle\<rparr>)"
| accept_lock: "accept_at t = AcceptAgain \<Longrightarrow> \<not> locked t \<Longrightarrow> channel t \<noteq> None \<Longrightarrow>
    linux_task_step Own t (t\<lparr>accept_at := AcceptRecv\<rparr>)"
| accept_recv: "accept_at t = AcceptRecv \<Longrightarrow> channel t = Some (Suc n) \<Longrightarrow>
    linux_task_step Own t (t\<lparr>accept_at := AcceptIdle, channel := Some n\<rparr>)"
| accept_closed: "accept_at t = AcceptRecv \<Longrightarrow> channel t = Some 0 \<Longrightarrow> \<not> has_sender t \<Longrightarrow>
    linux_task_step Own t (t\<lparr>accept_at := AcceptIdle\<rparr>)"
| stop_state: "stop_at t = StopIdle \<Longrightarrow> linux_task_step Own t (t\<lparr>running := False, stop_at := StopLock\<rparr>)"
| stop_lock: "stop_at t = StopLock \<Longrightarrow> \<not> locked t \<Longrightarrow>
    linux_task_step Own t (t\<lparr>channel := None, stop_at := StopReturned\<rparr>)"
| arrival: "has_sender t \<Longrightarrow> channel t = Some n \<Longrightarrow> linux_task_step Outside t (t\<lparr>channel := Some (Suc n)\<rparr>)"
| stream_end: "linux_task_step Outside t (t\<lparr>has_sender := False\<rparr>)"

text \<open>
  On Windows the sender belongs to the publisher's thread, which ends once \<open>stop\<close> has dropped the
  state; \<open>accept\<close> has only the second lock.
\<close>

inductive windows_task_step :: "origin \<Rightarrow> WifiTasks \<Rightarrow> WifiTasks \<Rightarrow> bool" where
  win_accept_call: "accept_at t = AcceptIdle \<Longrightarrow> windows_task_step Own t (t\<lparr>accept_at := AcceptAgain\<rparr>)"
| win_accept_stopped: "accept_at t = AcceptAgain \<Longrightarrow> channel t = None \<Longrightarrow>
    windows_task_step Own t (t\<lparr>accept_at := AcceptIdle\<rparr>)"
| win_accept_lock: "accept_at t = AcceptAgain \<Longrightarrow> channel t \<noteq> None \<Longrightarrow>
    windows_task_step Own t (t\<lparr>accept_at := AcceptRecv\<rparr>)"
| win_accept_recv: "accept_at t = AcceptRecv \<Longrightarrow> channel t = Some (Suc n) \<Longrightarrow>
    windows_task_step Own t (t\<lparr>accept_at := AcceptIdle, channel := Some n\<rparr>)"
| win_accept_closed: "accept_at t = AcceptRecv \<Longrightarrow> channel t = Some 0 \<Longrightarrow> \<not> has_sender t \<Longrightarrow>
    windows_task_step Own t (t\<lparr>accept_at := AcceptIdle\<rparr>)"
| win_stop_state: "stop_at t = StopIdle \<Longrightarrow> windows_task_step Own t (t\<lparr>running := False, stop_at := StopLock\<rparr>)"
| win_stop_lock: "stop_at t = StopLock \<Longrightarrow> \<not> locked t \<Longrightarrow>
    windows_task_step Own t (t\<lparr>channel := None, stop_at := StopReturned\<rparr>)"
| win_thread_ends: "\<not> running t \<Longrightarrow> windows_task_step Own t (t\<lparr>has_sender := False\<rparr>)"
| win_arrival: "has_sender t \<Longrightarrow> channel t = Some n \<Longrightarrow> windows_task_step Outside t (t\<lparr>channel := Some (Suc n)\<rparr>)"

section \<open>Names\<close>

lemma strip_prefix_append [simp]: "strip_prefix p (p @ s) = Some s"
  by (simp add: strip_prefix_def)

lemma parse_service_name:
  "parse_short_id_from_service_name (P2P_SERVICE_NAME @ 58 # str_bytes (short_id_to_hex i)) = Done (Some i)"
  using strip_prefix_append [of "P2P_SERVICE_NAME @ [58]" "str_bytes (short_id_to_hex i)"] hex_to_short_id_to_hex [of i]
  by (simp add: parse_short_id_from_service_name_def hex_to_short_id_def)

lemma parse_bare_name: "parse_short_id_from_service_name P2P_SERVICE_NAME = Done None"
  by (simp add: parse_short_id_from_service_name_def strip_prefix_def)

section \<open>Steps of the two calls\<close>

inductive_cases linux_own: "linux_task_step Own t t'"

definition wifi_init :: WifiTasks where
  "wifi_init = \<lparr>accept_at = AcceptIdle, stop_at = StopIdle, running = True, channel = Some 0, has_sender = True\<rparr>"

text \<open>\<open>accept\<close> waits with the lock held, for a channel that has a sender and is empty.\<close>

definition blocked :: "WifiTasks \<Rightarrow> bool" where
  "blocked t \<longleftrightarrow> accept_at t = AcceptRecv \<and> channel t = Some 0 \<and> has_sender t \<and> stop_at t \<noteq> StopReturned"

lemma blocked_step: "blocked t \<Longrightarrow> linux_task_step Own t t' \<Longrightarrow> blocked t'"
  by (auto simp: blocked_def locked_def elim!: linux_own)

lemma blocked_run: "(linux_task_step Own)\<^sup>*\<^sup>* t t' \<Longrightarrow> blocked t \<Longrightarrow> blocked t'"
  by (induction rule: rtranclp_induct) (auto intro: blocked_step)

definition blocked_example :: WifiTasks where
  "blocked_example = \<lparr>accept_at = AcceptRecv, stop_at = StopLock, running = False, channel = Some 0, has_sender = True\<rparr>"

lemma linux_reaches_blocked: "(linux_task_step Own)\<^sup>*\<^sup>* wifi_init blocked_example"
proof -
  have "linux_task_step Own wifi_init (wifi_init\<lparr>accept_at := AcceptAgain\<rparr>)"
    by (rule accept_again) (simp_all add: wifi_init_def locked_def)
  moreover have "linux_task_step Own (wifi_init\<lparr>accept_at := AcceptAgain\<rparr>) (wifi_init\<lparr>accept_at := AcceptAgain\<rparr>\<lparr>accept_at := AcceptRecv\<rparr>)"
    by (rule accept_lock) (simp_all add: wifi_init_def locked_def)
  moreover have "linux_task_step Own (wifi_init\<lparr>accept_at := AcceptAgain\<rparr>\<lparr>accept_at := AcceptRecv\<rparr>) blocked_example"
    using stop_state [of "wifi_init\<lparr>accept_at := AcceptAgain\<rparr>\<lparr>accept_at := AcceptRecv\<rparr>"]
    by (simp add: wifi_init_def blocked_example_def)
  ultimately show ?thesis by (meson converse_rtranclp_into_rtranclp rtranclp.rtrancl_refl)
qed

definition windows_inv :: "WifiTasks \<Rightarrow> bool" where
  "windows_inv t \<longleftrightarrow> (accept_at t = AcceptRecv \<longrightarrow> channel t \<noteq> None) \<and> (stop_at t \<noteq> StopIdle \<longrightarrow> \<not> running t)"

lemma windows_inv_step: "windows_task_step o' t t' \<Longrightarrow> windows_inv t \<Longrightarrow> windows_inv t'"
  by (induction rule: windows_task_step.induct) (auto simp: windows_inv_def locked_def)

text \<open>From wherever they are, the steps of the two calls can bring \<open>stop\<close> to return.\<close>

lemma windows_can_lock:
  assumes "windows_inv t" "stop_at t = StopLock"
  shows "\<exists>t'. (windows_task_step Own)\<^sup>*\<^sup>* t t' \<and> stop_at t' = StopReturned"
proof -
  have unlocked: "\<exists>t'. windows_task_step Own u t' \<and> stop_at t' = StopReturned" if "stop_at u = StopLock" "\<not> locked u" for u
    by (rule exI [of _ "u\<lparr>channel := None, stop_at := StopReturned\<rparr>"]) (simp add: win_stop_lock [OF that])
  show ?thesis
  proof (cases "accept_at t = AcceptRecv")
    case False
    then have "\<not> locked t" by (simp add: locked_def)
    from unlocked [OF assms(2) this] show ?thesis by (auto intro: r_into_rtranclp)
  next
    case recv: True
    then obtain n where n: "channel t = Some n" using assms(1) by (auto simp: windows_inv_def)
    let ?t = "t\<lparr>has_sender := False\<rparr>"
    have ended: "windows_task_step Own t ?t"
      using assms by (intro win_thread_ends) (auto simp: windows_inv_def)
    have "\<exists>u. windows_task_step Own ?t u \<and> stop_at u = StopLock \<and> \<not> locked u"
    proof (cases n)
      case 0
      then have "windows_task_step Own ?t (?t\<lparr>accept_at := AcceptIdle\<rparr>)"
        using recv n by (intro win_accept_closed) simp_all
      then show ?thesis by (intro exI [of _ "?t\<lparr>accept_at := AcceptIdle\<rparr>"]) (simp add: locked_def assms(2))
    next
      case (Suc m)
      then have "windows_task_step Own ?t (?t\<lparr>accept_at := AcceptIdle, channel := Some m\<rparr>)"
        using recv n by (intro win_accept_recv) simp_all
      then show ?thesis by (intro exI [of _ "?t\<lparr>accept_at := AcceptIdle, channel := Some m\<rparr>"]) (simp add: locked_def assms(2))
    qed
    then obtain u v where "windows_task_step Own ?t u" "windows_task_step Own u v" "stop_at v = StopReturned"
      using unlocked by metis
    with ended show ?thesis
      by (intro exI [of _ v] conjI) (auto intro: converse_rtranclp_into_rtranclp)
  qed
qed

lemma windows_can_stop:
  assumes "windows_inv t"
  shows "\<exists>t'. (windows_task_step Own)\<^sup>*\<^sup>* t t' \<and> stop_at t' = StopReturned"
proof (cases "stop_at t")
  case StopIdle
  let ?t = "t\<lparr>running := False, stop_at := StopLock\<rparr>"
  have "windows_task_step Own t ?t" by (rule win_stop_state [OF StopIdle])
  moreover have "windows_inv ?t"
    using assms by (simp add: windows_inv_def)
  ultimately show ?thesis
    using windows_can_lock [of ?t] by (auto intro: converse_rtranclp_into_rtranclp)
next
  case StopLock
  with windows_can_lock [OF assms] show ?thesis .
qed blast

lemma windows_inv_reachable: "(\<lambda>t t'. \<exists>a. windows_task_step a t t')\<^sup>*\<^sup>* wifi_init t \<Longrightarrow> windows_inv t"
proof (induction rule: rtranclp_induct)
  case base
  then show ?case by (simp add: wifi_init_def windows_inv_def)
next
  case (step t t')
  then show ?case using windows_inv_step by blast
qed

section \<open>Where a connection goes\<close>

lemma try_await_okE:
  assumes "try_await m f s = (Ready (Inr c), s')"
  obtains a t where "m s = (Ready (Inr a), t)" "f a t = (Ready (Inr c), s')"
  using assms by (auto simp: try_await_def split: prod.splits poll.splits sum.splits)

lemma await_okE:
  assumes "await m f s = (Ready c, s')"
  obtains a t where "m s = (Ready a, t)" "f a t = (Ready c, s')"
  using assms by (auto simp: await_def split: prod.splits poll.splits)

lemma try_now_okE:
  assumes "try_now r f s = (Ready (Inr c), s')"
  obtains a where "r = Inr a" "f a s = (Ready (Inr c), s')"
  using assms by (auto simp: try_now_def split: sum.splits)

lemma try_msg_okE:
  assumes "try_msg msg m s = (Ready (Inr a), s')"
  obtains n where "m (wnet s) = (Ready (Inr a), n)"
  using assms by (auto simp: try_msg_def on_wnet_def await_def ready_def split: prod.splits poll.splits sum.splits)

definition dialled :: "'n Linux_Env \<Rightarrow> string \<Rightarrow> (LinuxState, 'n) Inner Connection \<Rightarrow> bool" where
  "dialled env key c \<longleftrightarrow>
     (\<exists>ps ip addr n n' stream. prop_str ps key = Some ip \<and> dial_addr ip = Some addr \<and>
        tcp_connect env addr n = (Ready (Inr stream), n') \<and> c = wnet_connection stream)"

lemma dialledI:
  "prop_str ps key = Some ip \<Longrightarrow> dial_addr ip = Some addr \<Longrightarrow> tcp_connect env addr n = (Ready (Inr stream), n') \<Longrightarrow>
     dialled env key (wnet_connection stream)"
  unfolding dialled_def by blast

lemma linux_connect_dials:
  assumes "linux_connect k env peer s = (Ready (Inr c), s')" "wifi_state s = Some st"
  shows "dialled env (if we_are_go (linux_short_id st) (short_id peer) then ''ip_addr'' else ''ip_addr_go'') c"
proof -
  let ?go = "we_are_go (linux_short_id st) (short_id peer)"
  obtain did where did: "address peer = WifiDirect did"
    using assms by (cases "address peer") (simp_all add: linux_connect_def)
  obtain r t where r: "(case r of
        None \<Rightarrow> ready (Inl (Transport ''WiFi Direct: P2P group formation timed out''))
      | Some None \<Rightarrow> ready (Inl (Transport ''WiFi Direct: GroupStarted stream closed''))
      | Some (Some ps) \<Rightarrow>
          try_now (extract_go_ip ps ?go) (\<lambda>ip.
          try_now (dial_or ''peer'' ip) (\<lambda>addr.
          try_await (try_msg ''WiFi Direct TCP connect failed: '' (tcp_connect env addr)) (\<lambda>stream.
          ready (Inr (wnet_connection stream)))))) t = (Ready (Inr c), s')"
    using assms did by (auto simp: linux_connect_def Let_def elim!: try_await_okE await_okE)
  then obtain ps where "r = Some (Some ps)"
    by (cases r rule: option.exhaust; cases "the r") (auto simp: ready_def)
  with r show ?thesis
    by (auto simp: extract_go_ip_def dial_or_def Let_def ready_def intro: dialledI elim!: try_now_okE try_await_okE try_msg_okE
        split: option.splits if_splits)
qed

section \<open>Properties\<close>

text \<open>
  The two sides of a link never both become group owner.  When each knows the short id of
  the other and the ids differ, one asks for the role with the full intent and the other
  with none; an id that is not known or equal makes a client.  The name under which the
  service is published carries no short id, so it makes both sides clients.
\<close>

theorem group_owner_is_unique:
  "(go_intent a (Some b), go_intent b (Some a)) = (if b < a then (15, 0) else if a < b then (0, 15) else (0, 0)) \<and>
   go_intent a None = 0 \<and>
   parse_short_id_from_service_name (P2P_SERVICE_NAME @ 58 # str_bytes (short_id_to_hex i)) = Done (Some i) \<and>
   parse_short_id_from_service_name P2P_SERVICE_NAME = Done None"
  by (auto simp: go_intent_def we_are_go_def parse_service_name parse_bare_name)



text \<open>
  A group owner cannot dial.  On Linux, a connection goes to the address of the group
  property \<open>ip_addr_go\<close> when this node is the client, and to \<open>ip_addr\<close>, the node's own address
  on the interface, when it is the group owner.  On Windows, the group owner gets an error
  and nothing else happens.
\<close>

theorem group_owner_cannot_dial:
  assumes "linux_connect k env peer s = (Ready (Inr c), s')" "wifi_state s = Some st"
    and "wifi_state w = Some wst" "we_are_go (windows_short_id wst) (short_id peer)"
  shows "dialled env (if we_are_go (linux_short_id st) (short_id peer) then ''ip_addr'' else ''ip_addr_go'') c \<and>
    (\<exists>e. windows_connect wenv peer w = (Ready (Inl e), w))"
  using linux_connect_dials [OF assms(1,2)] assms(3,4)
  by (cases "address peer") (simp_all add: windows_connect_def)


text \<open>A platform on which everything succeeds and every group has the same address.\<close>

definition willing_dbus :: "unit Linux_Env" where
  "willing_dbus =
     \<lparr>dbus_system = ready (Inr 0), proxy = (\<lambda>_ _ _ _. ready (Inr 0)), get_interfaces = (\<lambda>_. ready (Inr [[]])),
      call_method = (\<lambda>_ _ _. ready (Inr ())), receive_signal = (\<lambda>_ _. ready (Inr 0)),
      next_signal = (\<lambda>_. ready (Some (Inr [(ascii ''ip_addr'', Str (Abs_rstring (show_ipv4 (fill_array 1))))]))),
      next_peer = (\<lambda>_. ready None), tcp_connect = (\<lambda>_. ready (Inr \<lparr>write_all = (\<lambda>_. ready (Inr ())), read_exact = (\<lambda>_ n. (Pending, n)), finish_stream = ready (Inr ())\<rparr>)),
      tcp_bind = (\<lambda>_. ready (Inr 0)), tcp_accept = (\<lambda>_ n. (Pending, n)),
      linux_runtime = \<lparr>now = (\<lambda>_. 0), sleep_until = (\<lambda>_ s. s), getrandom = (\<lambda>s. (fill_array 0, s))\<rparr>\<rparr>"

lemma willing_dial: "dial_addr (Abs_rstring (show_ipv4 (fill_array 1))) = Some (V4 (fill_array 1) WIFI_DIRECT_PORT)"
proof -
  have "show_ipv4 (fill_array 1) = [49, 46, 49, 46, 49, 46, 49]"
    by (simp add: show_ipv4_def eval_nat_numeral show_nat_def dec_digits.simps)
  then have "str_bytes (Abs_rstring (show_ipv4 (fill_array 1))) = show_ipv4 (fill_array 1)"
    by (intro str_bytes_Abs) simp
  then show ?thesis by (simp add: dial_addr_def parse_show_socket_addr)
qed

theorem group_owner_cannot_dial_witness:
  "\<exists>c. dialled willing_dbus ''ip_addr'' c"
proof -
  let ?peer = "\<lparr>address = WifiDirect (Abs_rstring []), short_id = Some (fill_array 1)\<rparr>"
  let ?st = "\<lparr>dbus_conn = 0, iface_path = [], linux_short_id = fill_array 2\<rparr>"
  let ?s = "(wifi_new ())\<lparr>wifi_state := Some ?st, conn_rx := Some []\<rparr>"
  let ?w = "(wifi_new ())\<lparr>wifi_state := Some \<lparr>windows_short_id = fill_array 2\<rparr>\<rparr>"
  have order: "fill_array 1 < (fill_array 2 :: bytes8)"
    by (simp add: less_byte_array_def eval_nat_numeral)
  have "\<exists>c s'. linux_connect 1 willing_dbus ?peer ?s = (Ready (Inr c), s')"
    using order willing_dial
    by (simp add: linux_connect_def wifi_new_def Let_def willing_dbus_def try_await_def try_msg_def await_def on_wnet_def
        ready_def timeout_def extract_go_ip_def prop_str_def try_now_def we_are_go_def dial_or_def)
  then obtain c s' where dial: "linux_connect 1 willing_dbus ?peer ?s = (Ready (Inr c), s')" by blast
  have states: "wifi_state ?s = Some ?st" "wifi_state ?w = Some \<lparr>windows_short_id = fill_array 2\<rparr>"
    "we_are_go (windows_short_id \<lparr>windows_short_id = fill_array 2\<rparr>) (short_id ?peer)"
    "we_are_go (linux_short_id ?st) (short_id ?peer)"
    using order by (simp_all add: we_are_go_def)
  have "dialled willing_dbus (if we_are_go (linux_short_id ?st) (short_id ?peer) then ''ip_addr'' else ''ip_addr_go'') c"
    using group_owner_cannot_dial [OF dial states(1-3)] by (rule conjunct1)
  with states(4) show ?thesis by auto
qed

end
