(* ===== verification/Spec2Isabelle.thy ===== *)
theory Spec2Isabelle
  imports Mesh Pw_Chat Event_Watcher Peripheral_Task Wifi_Direct
begin

text \<open>
  Verification of pathweave, a peer-to-peer message router: a node has an identity (a Noise
  static key whose hash is its peer id), several transports, a table of peers with their
  addresses, and delivers messages directly, hop by hop through neighbours, or later from a
  store-and-forward queue.

  \<^bold>\<open>Theories and sources\<close> (paths under \<open>src/crates/\<close>; \<open>core\<close> is \<open>pathweave-core/src\<close>)

  \<^item> \<open>Prelude\<close>: byte arrays, big-endian integers, UTF-8 strings, hash maps as association lists.
  \<^item> \<open>Core_Types\<close>: identities, addresses, costs, events, configuration (\<open>core/lib.rs\<close>).
  \<^item> \<open>Key_Registry\<close>: the bounded key registry with its eviction queue (\<open>core/lib.rs\<close>).
  \<^item> \<open>Dedup_Cache\<close>: the deduplication cache (\<open>core/node.rs\<close>).
  \<^item> \<open>Async\<close>: futures, connections, the clock and timeouts, as the model has them.
  \<^item> \<open>Bundle_Layer\<close>: BPv7 framing, fragmentation, reassembly (\<open>core/bundle.rs\<close>).
  \<^item> \<open>Noise_Session\<close>: handshakes XX and XK, sessions, sealing with pattern K (\<open>core/session.rs\<close>).
  \<^item> \<open>Wire\<close>: address exchange, key announcements, message ids (\<open>core/router.rs\<close>).
  \<^item> \<open>Node_State\<close>: the state shared by all tasks of a node, and the environment they run in.
  \<^item> \<open>Router\<close>: choice of transports, dialling, sending, retries, flooding (\<open>core/router.rs\<close>).
  \<^item> \<open>Dispatch\<close>: incoming connections and the four kinds of frames (\<open>core/node.rs\<close>).
  \<^item> \<open>Node\<close>: the API, the store-and-forward queues and their draining, the reaction to events and
    the accept loop (\<open>core/node.rs\<close>).
  \<^item> \<open>Health_Monitor\<close>: start, restart and recovery of transports (\<open>core/router.rs\<close>).
  \<^item> \<open>Peer_Stream\<close>: discovery and departure of peers (\<open>core/router.rs\<close>).
  \<^item> \<open>Node_Runs\<close>: one step per API call and per turn of a task; reachable states.
  \<^item> \<open>Mesh\<close>: a network of nodes, each running the dispatch of \<open>core/node.rs\<close>, with the frames in
    flight between them.
  \<^item> \<open>Event_Channel\<close>, \<open>Event_Watcher\<close>: the loop over a broadcast channel that \<open>Router::events\<close> and
    \<open>discover\<close> share (\<open>core/router.rs\<close>, \<open>advertising.rs\<close>), and the task of \<open>PathweaveNode::new\<close> that
    acts on events while the node runs (\<open>core/node.rs\<close>).
  \<^item> \<open>Stream_Framing\<close>: the length-prefixed connections of QUIC and WiFi Direct.
  \<^item> \<open>Hex_Ids\<close>: short ids in hexadecimal, with the panics of slicing a string.
  \<^item> \<open>Network_Cost\<close>, \<open>Quic\<close>: cost detection and the QUIC transport with its mDNS bridge
    (\<open>pathweave-transport-quic/src/lib.rs\<close>).
  \<^item> \<open>Socket_Addr\<close>: the standard library's parser of socket addresses.
  \<^item> \<open>Wifi_Direct\<close>: the WiFi Direct transport on Linux and Windows
    (\<open>pathweave-transport-wifi-direct/src\<close>).
  \<^item> \<open>Ble_Advertising\<close>: the transport over BLE advertisements
    (\<open>pathweave-transport-ble/src/advertising.rs\<close>).
  \<^item> \<open>Bluetooth\<close>: what is used of BlueZ and of WinRT's buffers.
  \<^item> \<open>Ble_Bearers\<close>: the bearers of advertisements on Linux (\<open>linux_adv.rs\<close>), on Windows
    (\<open>windows_adv.rs\<close>) and elsewhere, and the transport over a bearer.
  \<^item> \<open>Ble_Gatt\<close>: the BLE transport over GATT: scanning, dialling, start and stop, the peripheral's
    loop and task (\<open>pathweave-transport-ble/src/lib.rs\<close>).
  \<^item> \<open>Gatt_Server\<close>: setting up and taking down the GATT server on Linux, Windows and macOS, and its
    callbacks (\<open>lib.rs\<close>, \<open>start_peripheral\<close> of each platform).
  \<^item> \<open>Peripheral_Task\<close>: the connections of a peripheral on all platforms (\<open>lib.rs\<close>,
    \<open>BlePeripheralConnection\<close>).
  \<^item> \<open>Std_Text\<close>, \<open>Pw_Chat\<close>: UTF-8 decoding as the standard library does it, and the chat program
    over the API (\<open>src/examples/pw-chat/src/main.rs\<close>).

  \<^bold>\<open>How the code is modelled.\<close>  Machine integers are words; \<open>[u8; N]\<close> and \<open>String\<close> are subtypes of
  byte lists; a \<open>HashMap\<close> is an association list with distinct keys; time is in milliseconds.  An
  \<open>async fn\<close> is a function from the state to \<open>Ready\<close> with its result or \<open>Pending\<close>, and the state it
  leaves; what it awaits acts on the whole state of the node, so it also stands for what the
  other tasks do in the meantime.  Errors are values; a panic is a value where the code can
  reach one.  The crates snow, bp7, blake3, quinn, mdns_sd, bluer, btleplug, zbus, ratatui, the
  broadcast channel of tokio, WinRT, CoreBluetooth and the sockets of the system are arguments
  of the definitions, and what the theorems need of them are named hypotheses (\<open>bp7_ok\<close>,
  \<open>noise_ok\<close>, \<open>noise_k_ok\<close>, \<open>pipe_ok\<close>, \<open>comes_up\<close>, \<open>broadcast_ok\<close>, \<open>bluer_ok\<close>, \<open>winrt_ok\<close>,
  \<open>winrt_gatt_ok\<close>, \<open>core_bluetooth_ok\<close>, \<open>base58_ok\<close>, \<open>terminal_ok\<close>), each shown to be satisfiable by the
  instance in its witness.  The hypotheses on a Bluetooth stack say what a successful call does
  to the objects it keeps: what is in the air, what is served, what a buffer holds.

  \<^bold>\<open>Contracts.\<close>  \<open>key_store\<close> (the registry), \<open>ttl_cache\<close> (the deduplication cache and the window of
  the advertising dispatcher), \<open>prefix_codec\<close> (the address list and the length-prefixed
  stream), and the chain \<open>router_invariant\<close>, \<open>node_invariant\<close>, \<open>api_invariant\<close>,
  \<open>discovery_invariant\<close>, \<open>run_invariant\<close>: what a predicate has to withstand to be kept by every
  operation of the router, of dispatch, of the API, of discovery and so by every step of a
  node.  The chain is interpreted for the certification of keys, for the peer table, for the
  append-only logs of events and deliveries, for the depth of the queues and for the form of
  the whole state (\<open>state_typed\<close>).  \<open>advertising_bearer\<close> is what a bearer promises the transport,
  on Linux and on Windows; \<open>peripheral_server\<close> is what a peripheral promises the connection it
  serves, as a loop on Linux and as a task on Windows and macOS.

  \<^bold>\<open>What is shown.\<close>  Messages: framing, sessions and bundles carry messages unchanged; direct
  messages reach the handler once per window; routed and sealed frames travel a bounded number
  of hops unchanged and are relayed once to every other neighbour; a sealed message is
  readable at its destination and attributed to its origin; what is typed into one chat is
  shown in the other.  Networks: a fair flood reaches every destination within eight hops, and
  every flood dies out.  Keys and state: in every reachable state a key hashes to the id it is
  stored under, and all tables are well formed.  Sending: success only after an acknowledged
  delivery; the queues lose nothing without an event; the event task acts on every event in
  order while it keeps up.  Transports: availability follows the monitor's mode and recovery
  ends; QUIC's start and stop; what the mDNS bridge reports; order and deduplication over
  advertisements, and that Linux and Windows read each other's; a GATT server is found and
  dialled whatever its platform, comes up as a whole or not at all, and serves one connection
  at a time.  Several theorems state behaviour that departs from the documentation or the
  intention: the bound of the registry, the size of fragments, the identity of a responder,
  the depth of the queue after a drain, duplicate addresses, the shared listen address, lost
  packets over advertisements, a deaf transport that is up, the dialling of a group owner, the
  waiting of \<open>stop\<close> for \<open>accept\<close>, replies for the wrong subscriber, subscribers that are
  overlooked, floods cut short by duplicate suppression, events lost by a slow reader, an event
  task that never exits.

  \<^bold>\<open>Bounds.\<close>  Loops that wait for the network have a number of receptions as their argument
  (\<open>recv_fuel\<close>, \<open>dispatch_loop\<close>, \<open>await_group\<close>, \<open>scan_devices\<close>, \<open>follow_device\<close>, \<open>watch_loop\<close>, \<open>scan_events\<close>,
  \<open>next_event\<close>); running out of it is \<open>Pending\<close>, like a peer that never sends, or the end of what
  is looked at.  The round trip theorems give the number that is enough; for \<open>next_event\<close> two
  receptions are.  All other loops are total functions.

  \<^bold>\<open>Not modelled.\<close>  The TLS verifier that accepts every certificate, which has no state and
  no result but success; base58 and the other renderings of values as text, and logging; the
  reference counts of Objective-C objects; how the parts of an awaited operation interleave with
  other tasks, beyond what the operation itself may do to the state; the chat program's
  argument parsing and the switching of the terminal's mode; \<open>pathweave-uniffi\<close>, which declares
  nothing.
\<close>


section \<open>Identities\<close>

lemma certified_new: "certified h (snd (node_new config ident w))"
  by (simp add: certified_def node_new_def registry_new_def registry_inv_def registry_get_def)

lemma reachable_certified:
  assumes "env_keeps (certified (env_blake3 env)) env" "reachable env ifs nd s"
  shows "certified (env_blake3 env) s"
  using certified.inv_reachable [OF assms(1) refl certified_new assms(2)] .

text \<open>A node that has discovered a peer, learned its key and registered a handler.\<close>

definition met_config :: NodeConfig where
  "met_config = \<lparr>listen_port = None, cfg_store_ttl = Some 1000, cfg_max_queue_depth = Some 1, max_key_registry_size = None\<rparr>"

lemma reachable_met:
  "\<exists>s. reachable script_env ifs script_node s \<and> handler s \<and> dedup s = dedup_new \<and> delivered s = [] \<and>
     lookup_key (PeerId (fill_array 2)) s = Some (fill_array 2)"
proof -
  let ?id = "plain_identity first_byte_hash 1" and ?w = "world seen_state" and ?p = "PeerId (fill_array 2)"
  obtain s\<^sub>0 where s\<^sub>0: "node_new met_config (identity script_node) ?w = (script_node, s\<^sub>0)" "world s\<^sub>0 = ?w"
      "known_addrs s\<^sub>0 = {}" "key_registry s\<^sub>0 = registry_new None" "dedup s\<^sub>0 = dedup_new" "delivered s\<^sub>0 = []"
    by (simp add: node_new_def script_node_def met_config_def)
  let ?ses = "\<lparr>session_peer_id = ?p, remote_static_key = fill_array 2, transport_state = ()\<rparr>"
  let ?s\<^sub>1 = "s\<^sub>0\<lparr>known_addrs := {address seen_ann}\<rparr>"
  let ?s\<^sub>2 = "(snd (record_key ?ses ?s\<^sub>1))\<lparr>world := []\<rparr>"
  let ?s\<^sub>3 = "record_arrival ?p seen_ann (fst (record_key ?ses ?s\<^sub>1)) ?s\<^sub>2"
  have world: "world ?s\<^sub>1 = [raw_bundle (bytes_of (fill_array 2 :: bytes32)), raw_message []]"
    using s\<^sub>0(2) by (simp add: seen_state_def script_state_def)
  have "try_connect script_env 0 seen_ann ?id ?s\<^sub>1 = (Ready (Inr (?p, fst (record_key ?ses ?s\<^sub>1))), ?s\<^sub>2)"
    using script_try_connect [OF world, of ?id 0 seen_ann]
    by (simp add: decode_addr_exchange_def plain_identity_def generate_def peer_id_from_public_key_def first_byte_hash_def)
  moreover have "?p \<noteq> peer_id ?id"
    by (simp add: plain_identity_peer_id)
  ultimately have "on_peer_event script_env 0 (identity script_node) (peer_id (identity script_node)) (Arrival seen_ann) s\<^sub>0 =
      (Ready (), ?s\<^sub>3)"
    using s\<^sub>0(3) by (simp add: on_peer_event_def on_arrival_def await_def script_node_def)
  then have "reachable script_env ifs script_node (on_message ?s\<^sub>3)"
    by (blast intro: reachable.intros s\<^sub>0(1) node_step.discover node_step.set_handler)
  moreover have "handler (on_message ?s\<^sub>3)" "dedup (on_message ?s\<^sub>3) = dedup_new" "delivered (on_message ?s\<^sub>3) = []"
    "lookup_key ?p (on_message ?s\<^sub>3) = Some (fill_array 2)"
    using s\<^sub>0(4-6)
    by (auto simp: on_message_def record_arrival_def emit_def record_key_def case_prod_beta Let_def lookup_key_def
        insert_direct_def registry_new_def registry_get_def split: option.splits)
  ultimately show ?thesis by blast
qed

text \<open>
  C4: a node never holds a key that is not its peer's.  Whatever calls, incoming connections,
  gossip, drains, restarts and discoveries a node goes through, in any order, every key it
  can look up hashes to the peer id it is looked up by, and the registry keeps its bounds;
  provided the operations the node awaits, during which its other tasks run, respect the
  same.
\<close>

theorem registry_always_certified:
  assumes "env_keeps (certified (env_blake3 env)) env" "reachable env ifs nd s" "lookup_key p s = Some k"
  shows "p = peer_id_from_public_key (env_blake3 env) (bytes_of k) \<and> registry_inv (key_registry s)"
  using reachable_certified [OF assms(1,2)] assms(3) by (simp add: certified_def lookup_key_def)

theorem registry_always_certified_witness:
  "\<exists>s. reachable script_env (\<lambda>_. Inr []) script_node s \<and> lookup_key (PeerId (fill_array 2)) s = Some (fill_array 2) \<and>
     PeerId (fill_array 2) = peer_id_from_public_key (env_blake3 script_env) (bytes_of (fill_array 2 :: bytes32)) \<and>
     registry_inv (key_registry s)"
proof -
  obtain s where s: "reachable script_env (\<lambda>_. Inr []) script_node s" "lookup_key (PeerId (fill_array 2)) s = Some (fill_array 2)"
    using reachable_met by blast
  have "env_keeps (certified (env_blake3 script_env)) script_env"
    by (rule script_env_keeps) (simp add: certified_def)
  from registry_always_certified [OF this s] s show ?thesis by blast
qed

text \<open>
  C8: a sealed message is attributed to the holder of a key.  When a node in any reachable
  state delivers a sealed message, the message was addressed to it, the origin it reports
  is the hash of a public key in its registry, and the Noise message was read under that key.
\<close>

theorem sealed_origin_is_certified:
  assumes "env_keeps (certified (env_blake3 env)) env" "reachable env ifs nd s" "payload ! 8 = 0x03"
    and "delivered (dispatch_state env ident sender local payload s) = delivered s @ [(p, msg)]"
  shows "\<exists>key. p = peer_id_from_public_key (env_blake3 env) (bytes_of key) \<and> lookup_key p s = Some key \<and>
    bytes_of (as_bytes local) = take 32 (drop 9 payload) \<and> bytes_of (as_bytes p) = take 32 (drop 42 payload) \<and>
    unseal (env_snow env) (show_id env) ident p key (drop 74 payload) = Inr msg"
proof -
  obtain key where "lookup_key p s = Some key" "unseal (env_snow env) (show_id env) ident p key (drop 74 payload) = Inr msg"
    "bytes_of (as_bytes local) = take 32 (drop 9 payload)" "bytes_of (as_bytes p) = take 32 (drop 42 payload)"
    using assms(3,4)
    by (auto simp: dispatch_state_def dispatch_sealed_def deliver_def spawn_relay_to_neighbors_def Let_def case_prod_beta
        lookup_key_def array_of_Some_iff split: if_splits option.splits sum.splits)
  with reachable_certified [OF assms(1,2)] show ?thesis by (auto simp: certified_def lookup_key_def)
qed

theorem sealed_origin_is_certified_witness:
  "\<exists>s payload (key :: bytes32). delivered (dispatch_state script_env (plain_identity first_byte_hash 1) (PeerId (fill_array 7))
       (PeerId (fill_array 1)) payload s) = [(PeerId (fill_array 2), [10, 20])] \<and>
     PeerId (fill_array 2) = peer_id_from_public_key (env_blake3 script_env) (bytes_of key)"
proof -
  let ?id = "plain_identity first_byte_hash 1" and ?p = "PeerId (fill_array 2)"
  obtain s where s: "reachable script_env (\<lambda>_. Inr []) script_node s" "handler s" "dedup s = dedup_new" "delivered s = []"
      "lookup_key ?p s = Some (fill_array 2)"
    using reachable_met by blast
  obtain m where m: "unseal plain_snow (\<lambda>_. []) ?id ?p (fill_array 2) m = Inr [10, 20]"
    using unseal_seal [OF plain_noise_k_ok [of first_byte_hash 2 1 "fill_array 2" "fill_array 1"],
        of "[10, 20]" "fill_array 0" "\<lambda>_. []" ?p] by (auto simp: NOISE_MSG_MAX_def)
  let ?f = "routed_frame 0x03 5 (PeerId (fill_array 1)) 3 (bytes_of (as_bytes ?p) @ m)"
  have new: "delivered (dispatch_state script_env ?id (PeerId (fill_array 7)) (PeerId (fill_array 1)) ?f s) =
      delivered s @ [(?p, [10, 20])]"
    by (rule dispatch_sealed_frame) (use s m in \<open>simp_all add: lookup_key_def not_seen_new script_env_def\<close>)
  have keeps: "env_keeps (certified (env_blake3 script_env)) script_env" "?f ! 8 = 3"
    by (rule script_env_keeps, simp add: certified_def) (simp add: routed_frame_parts)
  from sealed_origin_is_certified [OF keeps(1) s(1) keeps(2) new] obtain key :: bytes32 where
    "?p = peer_id_from_public_key (env_blake3 script_env) (bytes_of key)" by blast
  moreover note new [unfolded s(4) append_Nil]
  ultimately show ?thesis by blast
qed

section \<open>Data\<close>



end
